(* ===== verification/E3_Prelude.thy ===== *)
theory E3_Prelude
  imports Main "HOL-Library.Word" "HOL-Library.AList"
begin

text \<open>
  Shared vocabulary of the libe3 development: the machine integer types of the C++ code, the
  model of \<^verbatim>\<open>std::unordered_map\<close> and \<^verbatim>\<open>std::unordered_set\<close>, and the generic lemmas on words,
  association lists and lists that the component theories use.

  \<^item> \<^verbatim>\<open>uint8_t\<close>, \<^verbatim>\<open>uint16_t\<close>, \<^verbatim>\<open>uint32_t\<close>, \<^verbatim>\<open>uint64_t\<close> and \<^verbatim>\<open>size_t\<close> (64 bit targets) are words
    of that width, so additions wrap as they do in C++.
  \<^item> An \<^verbatim>\<open>unordered_map\<close> is an association list with distinct keys. The position of an entry in
    the list stands for the iteration order, which C++ leaves unspecified; statements about
    iteration are therefore made about sets and multisets of results, never about positions.
  \<^item> An \<^verbatim>\<open>unordered_set\<close> is a list without repetitions.
\<close>

unbundle bit_operations_syntax

type_synonym u8 = "8 word"
type_synonym u16 = "16 word"
type_synonym u32 = "32 word"
type_synonym u64 = "64 word"
type_synonym size_t = "64 word"
type_synonym bytes = "u8 list"

named_theorems e3_defs \<open>definitions of the model's operations, for unfolding\<close>
named_theorems e3_inv \<open>facts that an operation keeps an invariant\<close>

section \<open>Hash maps\<close>

type_synonym ('k, 'v) unordered_map = "('k \<times> 'v) list"

definition um_wf :: "('k, 'v) unordered_map \<Rightarrow> bool" where
  "um_wf m \<longleftrightarrow> distinct (map fst m)"

definition um_count :: "('k, 'v) unordered_map \<Rightarrow> 'k \<Rightarrow> nat" where
  "um_count m k = (if map_of m k = None then 0 else 1)"

text \<open>\<open>um_index d m k\<close> is \<^verbatim>\<open>m[k]\<close>: it inserts the default value \<open>d\<close> for a missing key.\<close>

definition um_index :: "'v \<Rightarrow> ('k, 'v) unordered_map \<Rightarrow> 'k \<Rightarrow> 'v \<times> ('k, 'v) unordered_map" where
  "um_index d m k =
     (case map_of m k of Some v \<Rightarrow> (v, m) | None \<Rightarrow> (d, AList.update k d m))"

definition um_get :: "'v \<Rightarrow> ('k, 'v) unordered_map \<Rightarrow> 'k \<Rightarrow> 'v" where
  "um_get d m k = (case map_of m k of Some v \<Rightarrow> v | None \<Rightarrow> d)"

definition um_keys :: "('k, 'v) unordered_map \<Rightarrow> 'k list" where
  "um_keys m = map fst m"

text \<open>
  The interface every component uses of a hash map: what a lookup returns after an update or an
  erase, and that the number of entries is the number of keys.
\<close>

locale hash_map =
  fixes lookup :: "'m \<Rightarrow> 'k \<Rightarrow> 'v option"
    and upd :: "'k \<Rightarrow> 'v \<Rightarrow> 'm \<Rightarrow> 'm"
    and era :: "'k \<Rightarrow> 'm \<Rightarrow> 'm"
    and keys :: "'m \<Rightarrow> 'k list"
    and wf :: "'m \<Rightarrow> bool"
  assumes lookup_upd: "lookup (upd k v m) = (lookup m)(k \<mapsto> v)"
    and lookup_era: "lookup (era k m) = (lookup m)(k := None)"
    and set_keys: "set (keys m) = dom (lookup m)"
    and distinct_keys: "wf m \<Longrightarrow> distinct (keys m)"
    and wf_upd: "wf m \<Longrightarrow> wf (upd k v m)"
    and wf_era: "wf m \<Longrightarrow> wf (era k m)"
begin

lemma size_card: "wf m \<Longrightarrow> length (keys m) = card (dom (lookup m))"
  by (metis distinct_card distinct_keys set_keys)

lemma finite_dom: "finite (dom (lookup m))"
  by (metis List.finite_set set_keys)

lemma size_upd_new:
  assumes "wf m" and "lookup m k = None"
  shows "length (keys (upd k v m)) = Suc (length (keys m))"
proof -
  have "k \<notin> dom (lookup m)" using assms by auto
  then show ?thesis
    using assms by (simp add: size_card wf_upd lookup_upd finite_dom)
qed

lemma size_upd_old:
  assumes "wf m" and "lookup m k = Some w"
  shows "length (keys (upd k v m)) = length (keys m)"
proof -
  have "insert k (dom (lookup m)) = dom (lookup m)" using assms by auto
  then show ?thesis
    using assms by (simp add: size_card wf_upd lookup_upd)
qed

lemma size_era_old:
  assumes "wf m" and "lookup m k = Some w"
  shows "Suc (length (keys (era k m))) = length (keys m)"
proof -
  have "k \<in> dom (lookup m)" using assms by auto
  then show ?thesis
    using assms finite_dom[of m]
    by (simp add: size_card wf_era lookup_era card_Suc_Diff1 del: card_Diff_insert)
qed

lemma era_idem: "lookup (era k (era k m)) = lookup (era k m)"
  by (simp add: lookup_era)

end

interpretation um: hash_map map_of AList.update AList.delete um_keys um_wf
proof (unfold_locales, goal_cases)
  case (1 k v m) show ?case by (rule update_conv')
next
  case (2 k m) show ?case by (rule delete_conv')
next
  case (3 m) show ?case by (simp add: um_keys_def dom_map_of_conv_image_fst)
next
  case (4 m) then show ?case by (simp add: um_keys_def um_wf_def)
next
  case (5 m k v) then show ?case by (simp add: um_wf_def distinct_update)
next
  case (6 m k) then show ?case by (simp add: um_wf_def distinct_delete)
qed

lemmas um_simps [simp] = update_conv' delete_conv'
lemmas um_wf_intros [intro, simp] = um.wf_upd um.wf_era

lemma um_wf_Nil [simp]: "um_wf []"
  by (simp add: um_wf_def)

lemma um_count_pos [simp]: "0 < um_count m k \<longleftrightarrow> map_of m k \<noteq> None"
  and um_count_0 [simp]: "um_count m k = 0 \<longleftrightarrow> map_of m k = None"
  by (simp_all add: um_count_def)

lemma um_get_simps [simp]:
  "map_of m k = None \<Longrightarrow> um_get d m k = d"
  "map_of m k = Some v \<Longrightarrow> um_get d m k = v"
  by (simp_all add: um_get_def)

lemma um_index_fst [simp]: "fst (um_index d m k) = um_get d m k"
  by (simp add: um_index_def um_get_def split: option.split)

lemma um_index_wf [simp, intro]: "um_wf m \<Longrightarrow> um_wf (snd (um_index d m k))"
  by (simp add: um_index_def split: option.split)

lemma um_get_index [simp]: "um_get d (snd (um_index d m k)) k' = um_get d m k'"
  by (auto simp: um_index_def um_get_def split: option.split)

lemma um_get_update: "um_get d (AList.update k v m) k' = (if k' = k then v else um_get d m k')"
  by (simp add: um_get_def)

lemma um_get_delete: "um_get d (AList.delete k m) k' = (if k' = k then d else um_get d m k')"
  by (simp add: um_get_def)

lemma update_index [simp]:
  "map_of (AList.update k v (snd (um_index d m k))) = (map_of m)(k \<mapsto> v)"
  by (auto simp: um_index_def split: option.split)

section \<open>Lists\<close>

lemma concat_map_single: "(\<And>x. x \<in> set xs \<Longrightarrow> f x = [g x]) \<Longrightarrow> concat (map f xs) = map g xs"
  by (induction xs) auto

lemma sum_list_entries:
  assumes "distinct (map fst m)"
  shows "sum_list (map (\<lambda>(k, v). f v) m) = (\<Sum>k\<in>set (map fst m). f (the (map_of m k)))"
  using assms
proof (induction m)
  case Nil
  then show ?case by simp
next
  case (Cons x m)
  obtain k v where x: "x = (k, v)" by fastforce
  have k: "k \<notin> fst ` set m" using Cons.prems x by simp
  have "(\<Sum>j\<in>fst ` set m. f (the (map_of (x # m) j))) = (\<Sum>j\<in>fst ` set m. f (the (map_of m j)))"
    using k by (intro sum.cong) (auto simp: x)
  then show ?case using Cons k by (simp add: x)
qed

lemma mod_shift_inj:
  assumes "m < n" and "j < n" and "k < n" and eq: "(m + j) mod n = (m + k) mod (n :: nat)"
  shows "j = k"
proof -
  have "(n - m + (m + j)) mod n = (n - m + (m + k)) mod n"
    using eq by (metis mod_add_right_eq)
  then have "(n + j) mod n = (n + k) mod n"
    using assms(1) by (simp add: add.assoc[symmetric])
  then show ?thesis using assms(2,3) by simp
qed

section \<open>Machine words\<close>

lemma unat_of_nat_u32 [simp]: "n < 4294967296 \<Longrightarrow> unat (of_nat n :: u32) = n"
  by (simp add: unat_of_nat)

lemma unat_of_nat_size [simp]: "n < 18446744073709551616 \<Longrightarrow> unat (of_nat n :: size_t) = n"
  by (simp add: unat_of_nat)

lemma unat_Suc_u32: "unat (x :: u32) < 4294967295 \<Longrightarrow> unat (x + 1) = Suc (unat x)"
  by (simp add: unat_word_ariths)

end
