(* ===== verification/E3_Types.thy ===== *)
theory E3_Types
  imports E3_Prelude
begin

text \<open>
  The data model of the E3AP protocol: \<^verbatim>\<open>include/libe3/types.hpp\<close> and
  \<^verbatim>\<open>include/libe3/error_codes.h\<close>. Scoped enumerations are datatypes with the source's enumerators,
  structs are records (a field carries a short prefix of its struct's name, since several structs
  share field names), the variant \<^verbatim>\<open>PduChoice\<close> is a datatype with one constructor per
  alternative, and a \<^verbatim>\<open>std::string\<close> is a list of 8 bit characters.

  \<^verbatim>\<open>ErrorCode\<close> has the underlying type \<^verbatim>\<open>int\<close>, so a cast from an \<^verbatim>\<open>int\<close> that is no enumerator is
  a value of the type too; \<open>UNLISTED_ERROR\<close> stands for those values.
\<close>

section \<open>Enumerations\<close>

datatype EncodingFormat = ASN1 | JSON

datatype E3LinkLayer = ZMQ | POSIX

datatype E3TransportLayer = SCTP | TCP | IPC

datatype ActionType = INSERT | UPDATE | DELETE

datatype ResponseCode = POSITIVE | NEGATIVE

datatype PduType =
    SETUP_REQUEST | SETUP_RESPONSE | SUBSCRIPTION_REQUEST | SUBSCRIPTION_DELETE
  | SUBSCRIPTION_RESPONSE | INDICATION_MESSAGE | DAPP_CONTROL_ACTION | DAPP_REPORT
  | XAPP_CONTROL_ACTION | RELEASE_MESSAGE | MESSAGE_ACK

datatype AgentState =
    UNINITIALIZED | INITIALIZED | CONNECTING | CONNECTED | RUNNING | STOPPING | STOPPED | ERROR

datatype ErrorCode =
    SUCCESS | INVALID_PARAM | NOT_INITIALIZED | ALREADY_INITIALIZED | NOT_CONNECTED
  | CONNECTION_FAILED | TIMEOUT | ENCODE_FAILED | DECODE_FAILED | SM_NOT_FOUND
  | SM_ALREADY_REGISTERED | BUFFER_TOO_SMALL | INTERNAL_ERROR | SUBSCRIPTION_EXISTS
  | SUBSCRIPTION_NOT_FOUND | DAPP_NOT_REGISTERED | TRANSPORT_ERROR | STATE_ERROR
  | SM_START_FAILED | NOT_FOUND | SM_ERROR_INVALID_PARAM | SM_ERROR_NOT_FOUND
  | SM_ERROR_ALREADY_EXISTS | SM_ERROR_THREAD_FAILED | SM_ERROR_MEMORY | CANCELLED
  | GENERIC_ERROR
  | UNLISTED_ERROR int

type_synonym 'a result = "ErrorCode + 'a"

text \<open>The finite enumeration of PDU types, so that a statement over all of them is evaluated.\<close>

instantiation PduType :: enum
begin

definition enum_PduType :: "PduType list" where
  "enum_PduType = [SETUP_REQUEST, SETUP_RESPONSE, SUBSCRIPTION_REQUEST, SUBSCRIPTION_DELETE,
     SUBSCRIPTION_RESPONSE, INDICATION_MESSAGE, DAPP_CONTROL_ACTION, DAPP_REPORT,
     XAPP_CONTROL_ACTION, RELEASE_MESSAGE, MESSAGE_ACK]"

definition enum_all_PduType :: "(PduType \<Rightarrow> bool) \<Rightarrow> bool" where
  "enum_all_PduType P \<longleftrightarrow> list_all P (Enum.enum :: PduType list)"

definition enum_ex_PduType :: "(PduType \<Rightarrow> bool) \<Rightarrow> bool" where
  "enum_ex_PduType P \<longleftrightarrow> list_ex P (Enum.enum :: PduType list)"

instance
proof
  have all: "t \<in> set (Enum.enum :: PduType list)" for t :: PduType
    by (cases t) (simp_all add: enum_PduType_def)
  then show univ: "UNIV = set (Enum.enum :: PduType list)" by blast
  show "distinct (Enum.enum :: PduType list)" by (simp add: enum_PduType_def)
  show "Enum.enum_all P \<longleftrightarrow> Ball UNIV P" for P :: "PduType \<Rightarrow> bool"
    by (simp add: enum_all_PduType_def list_all_iff univ)
  show "Enum.enum_ex P \<longleftrightarrow> Bex UNIV P" for P :: "PduType \<Rightarrow> bool"
    by (simp add: enum_ex_PduType_def list_ex_iff univ)
qed

end

section \<open>Error codes\<close>

fun error_code_to_int :: "ErrorCode \<Rightarrow> int" where
  "error_code_to_int SUCCESS = 0"
| "error_code_to_int INVALID_PARAM = -1"
| "error_code_to_int NOT_INITIALIZED = -2"
| "error_code_to_int ALREADY_INITIALIZED = -3"
| "error_code_to_int NOT_CONNECTED = -4"
| "error_code_to_int CONNECTION_FAILED = -5"
| "error_code_to_int TIMEOUT = -6"
| "error_code_to_int ENCODE_FAILED = -7"
| "error_code_to_int DECODE_FAILED = -8"
| "error_code_to_int SM_NOT_FOUND = -9"
| "error_code_to_int SM_ALREADY_REGISTERED = -10"
| "error_code_to_int BUFFER_TOO_SMALL = -11"
| "error_code_to_int INTERNAL_ERROR = -12"
| "error_code_to_int SUBSCRIPTION_EXISTS = -13"
| "error_code_to_int SUBSCRIPTION_NOT_FOUND = -14"
| "error_code_to_int DAPP_NOT_REGISTERED = -15"
| "error_code_to_int TRANSPORT_ERROR = -16"
| "error_code_to_int STATE_ERROR = -17"
| "error_code_to_int SM_START_FAILED = -18"
| "error_code_to_int NOT_FOUND = -19"
| "error_code_to_int SM_ERROR_INVALID_PARAM = -20"
| "error_code_to_int SM_ERROR_NOT_FOUND = -21"
| "error_code_to_int SM_ERROR_ALREADY_EXISTS = -22"
| "error_code_to_int SM_ERROR_THREAD_FAILED = -23"
| "error_code_to_int SM_ERROR_MEMORY = -24"
| "error_code_to_int CANCELLED = -25"
| "error_code_to_int GENERIC_ERROR = -100"
| "error_code_to_int (UNLISTED_ERROR i) = i"

definition LIBE3_ERROR_CODE_LIST :: "(ErrorCode \<times> string) list" where
  "LIBE3_ERROR_CODE_LIST = [
     (SUCCESS, ''SUCCESS''), (INVALID_PARAM, ''INVALID_PARAM''),
     (NOT_INITIALIZED, ''NOT_INITIALIZED''), (ALREADY_INITIALIZED, ''ALREADY_INITIALIZED''),
     (NOT_CONNECTED, ''NOT_CONNECTED''), (CONNECTION_FAILED, ''CONNECTION_FAILED''),
     (TIMEOUT, ''TIMEOUT''), (ENCODE_FAILED, ''ENCODE_FAILED''),
     (DECODE_FAILED, ''DECODE_FAILED''), (SM_NOT_FOUND, ''SM_NOT_FOUND''),
     (SM_ALREADY_REGISTERED, ''SM_ALREADY_REGISTERED''), (BUFFER_TOO_SMALL, ''BUFFER_TOO_SMALL''),
     (INTERNAL_ERROR, ''INTERNAL_ERROR''), (SUBSCRIPTION_EXISTS, ''SUBSCRIPTION_EXISTS''),
     (SUBSCRIPTION_NOT_FOUND, ''SUBSCRIPTION_NOT_FOUND''),
     (DAPP_NOT_REGISTERED, ''DAPP_NOT_REGISTERED''), (TRANSPORT_ERROR, ''TRANSPORT_ERROR''),
     (STATE_ERROR, ''STATE_ERROR''), (SM_START_FAILED, ''SM_START_FAILED''),
     (NOT_FOUND, ''NOT_FOUND''), (SM_ERROR_INVALID_PARAM, ''SM_ERROR_INVALID_PARAM''),
     (SM_ERROR_NOT_FOUND, ''SM_ERROR_NOT_FOUND''),
     (SM_ERROR_ALREADY_EXISTS, ''SM_ERROR_ALREADY_EXISTS''),
     (SM_ERROR_THREAD_FAILED, ''SM_ERROR_THREAD_FAILED''), (SM_ERROR_MEMORY, ''SM_ERROR_MEMORY''),
     (CANCELLED, ''CANCELLED''), (GENERIC_ERROR, ''GENERIC_ERROR'')]"

text \<open>
  \<open>error_code_of_int\<close> is \<^verbatim>\<open>static_cast<ErrorCode>(i)\<close>; \<open>ErrorCodeToString\<close> switches on the
  integer value, as the X-macro does.
\<close>

definition error_code_of_int :: "int \<Rightarrow> ErrorCode" where
  "error_code_of_int i =
     (case find (\<lambda>(e, n). error_code_to_int e = i) LIBE3_ERROR_CODE_LIST of
        Some (e, n) \<Rightarrow> e
      | None \<Rightarrow> UNLISTED_ERROR i)"

definition ErrorCodeToString :: "ErrorCode \<Rightarrow> string" where
  "ErrorCodeToString code =
     (case find (\<lambda>(e, n). error_code_to_int e = error_code_to_int code) LIBE3_ERROR_CODE_LIST of
        Some (e, n) \<Rightarrow> n
      | None \<Rightarrow> ''UNKNOWN_ERROR_CODE'')"

definition listed_error :: "ErrorCode \<Rightarrow> bool" where
  "listed_error e \<longleftrightarrow> e \<in> fst ` set LIBE3_ERROR_CODE_LIST"

fun error_code_to_string :: "ErrorCode \<Rightarrow> string" where
  "error_code_to_string SUCCESS = ''Success''"
| "error_code_to_string INVALID_PARAM = ''Invalid parameter''"
| "error_code_to_string NOT_INITIALIZED = ''Not initialized''"
| "error_code_to_string ALREADY_INITIALIZED = ''Already initialized''"
| "error_code_to_string NOT_CONNECTED = ''Not connected''"
| "error_code_to_string CONNECTION_FAILED = ''Connection failed''"
| "error_code_to_string TIMEOUT = ''Timeout''"
| "error_code_to_string ENCODE_FAILED = ''Encode failed''"
| "error_code_to_string DECODE_FAILED = ''Decode failed''"
| "error_code_to_string SM_NOT_FOUND = ''Service Model not found''"
| "error_code_to_string SM_ALREADY_REGISTERED = ''Service Model already registered''"
| "error_code_to_string BUFFER_TOO_SMALL = ''Buffer too small''"
| "error_code_to_string INTERNAL_ERROR = ''Internal error''"
| "error_code_to_string SUBSCRIPTION_EXISTS = ''Subscription already exists''"
| "error_code_to_string SUBSCRIPTION_NOT_FOUND = ''Subscription not found''"
| "error_code_to_string DAPP_NOT_REGISTERED = ''dApp not registered''"
| "error_code_to_string TRANSPORT_ERROR = ''Transport error''"
| "error_code_to_string STATE_ERROR = ''State error''"
| "error_code_to_string SM_START_FAILED = ''Service Model start failed''"
| "error_code_to_string NOT_FOUND = ''Not found''"
| "error_code_to_string CANCELLED = ''Operation cancelled''"
| "error_code_to_string _ = ''Unknown error''"

section \<open>Limits\<close>

definition MAX_PROTOCOL_DATA_SIZE :: nat where "MAX_PROTOCOL_DATA_SIZE = 32768"
definition MAX_RAN_FUNCTIONS :: nat where "MAX_RAN_FUNCTIONS = 255"
definition DEFAULT_BUFFER_SIZE :: nat where "DEFAULT_BUFFER_SIZE = 60000"

section \<open>Messages\<close>

record EncodedMessage =
  em_buffer :: bytes
  em_format :: EncodingFormat

record RanFunctionDefinition =
  rfdefn_ran_function_id :: u32
  rfdefn_sm_name :: string
  rfdefn_sm_version :: string

record SetupRequest =
  sreq_e3ap_protocol_version :: string
  sreq_dapp_name :: string
  sreq_dapp_version :: string
  sreq_vendor :: string

record RanFunctionDef =
  rf_ran_function_identifier :: u32
  rf_telemetry_identifier_list :: "u32 list"
  rf_control_identifier_list :: "u32 list"
  rf_ran_function_data :: bytes

record SetupResponse =
  sresp_request_id :: u32
  sresp_response_code :: ResponseCode
  sresp_e3ap_protocol_version :: "string option"
  sresp_dapp_identifier :: "u32 option"
  sresp_ran_identifier :: string
  sresp_ran_function_list :: "RanFunctionDef list"

record SubscriptionRequest =
  subreq_dapp_identifier :: u32
  subreq_ran_function_identifier :: u32
  subreq_telemetry_identifier_list :: "u32 list"
  subreq_control_identifier_list :: "u32 list"
  subreq_subscription_time :: "u32 option"
  subreq_periodicity :: "u32 option"

record SubscriptionDelete =
  subdel_dapp_identifier :: u32
  subdel_subscription_id :: u32

record SubscriptionResponse =
  subresp_request_id :: u32
  subresp_dapp_identifier :: u32
  subresp_response_code :: ResponseCode
  subresp_subscription_id :: "u32 option"

record IndicationMessage =
  ind_dapp_identifier :: u32
  ind_ran_function_identifier :: u32
  ind_protocol_data :: bytes

record DAppControlAction =
  dca_dapp_identifier :: u32
  dca_ran_function_identifier :: u32
  dca_control_identifier :: u32
  dca_action_data :: bytes

record MessageAck =
  ack_request_id :: u32
  ack_response_code :: ResponseCode

record DAppReport =
  rep_dapp_identifier :: u32
  rep_ran_function_identifier :: u32
  rep_report_data :: bytes

record XAppControlAction =
  xca_dapp_identifier :: u32
  xca_ran_function_identifier :: u32
  xca_xapp_control_data :: bytes

record ReleaseMessage =
  rel_dapp_identifier :: u32

datatype PduChoice =
    C_SetupRequest SetupRequest
  | C_SetupResponse SetupResponse
  | C_SubscriptionRequest SubscriptionRequest
  | C_SubscriptionDelete SubscriptionDelete
  | C_SubscriptionResponse SubscriptionResponse
  | C_IndicationMessage IndicationMessage
  | C_DAppControlAction DAppControlAction
  | C_DAppReport DAppReport
  | C_XAppControlAction XAppControlAction
  | C_ReleaseMessage ReleaseMessage
  | C_MessageAck MessageAck

record Pdu =
  pdu_type :: PduType
  pdu_choice :: PduChoice
  pdu_message_id :: u32
  pdu_timestamp :: u64

text \<open>
  \<open>new_Pdu t now\<close> is the constructor \<^verbatim>\<open>Pdu(PduType t)\<close>: the variant holds its first alternative,
  default-initialised, the message id is 0 and the time stamp is the wall clock in milliseconds.
\<close>

definition empty_SetupRequest :: SetupRequest where
  "empty_SetupRequest = \<lparr>sreq_e3ap_protocol_version = '''', sreq_dapp_name = '''',
     sreq_dapp_version = '''', sreq_vendor = ''''\<rparr>"

definition new_Pdu :: "PduType \<Rightarrow> u64 \<Rightarrow> Pdu" where
  "new_Pdu t now = \<lparr>pdu_type = t, pdu_choice = C_SetupRequest empty_SetupRequest,
     pdu_message_id = 0, pdu_timestamp = now\<rparr>"

text \<open>The type tag that belongs to the alternative a variant holds.\<close>

fun choice_type :: "PduChoice \<Rightarrow> PduType" where
  "choice_type (C_SetupRequest _) = SETUP_REQUEST"
| "choice_type (C_SetupResponse _) = SETUP_RESPONSE"
| "choice_type (C_SubscriptionRequest _) = SUBSCRIPTION_REQUEST"
| "choice_type (C_SubscriptionDelete _) = SUBSCRIPTION_DELETE"
| "choice_type (C_SubscriptionResponse _) = SUBSCRIPTION_RESPONSE"
| "choice_type (C_IndicationMessage _) = INDICATION_MESSAGE"
| "choice_type (C_DAppControlAction _) = DAPP_CONTROL_ACTION"
| "choice_type (C_DAppReport _) = DAPP_REPORT"
| "choice_type (C_XAppControlAction _) = XAPP_CONTROL_ACTION"
| "choice_type (C_ReleaseMessage _) = RELEASE_MESSAGE"
| "choice_type (C_MessageAck _) = MESSAGE_ACK"

definition pdu_tagged :: "Pdu \<Rightarrow> bool" where
  "pdu_tagged p \<longleftrightarrow> choice_type (pdu_choice p) = pdu_type p"

section \<open>Configuration\<close>

record E3Config =
  cfg_ran_identifier :: string
  cfg_e3ap_version :: string
  cfg_link_layer :: E3LinkLayer
  cfg_transport_layer :: E3TransportLayer
  cfg_setup_port :: u16
  cfg_subscriber_port :: u16
  cfg_publisher_port :: u16
  cfg_setup_endpoint :: string
  cfg_subscriber_endpoint :: string
  cfg_publisher_endpoint :: string
  cfg_encoding :: EncodingFormat
  cfg_connect_timeout_ms :: u32
  cfg_recv_timeout_ms :: u32
  cfg_send_timeout_ms :: u32
  cfg_receive_buffer_size :: size_t
  cfg_send_buffer_size :: size_t
  cfg_io_threads :: size_t
  cfg_io_thread_affinity :: int
  cfg_io_thread_niceness :: int
  cfg_log_level :: int

text \<open>The default member initialisers; the default encoding depends on the build options.\<close>

definition default_E3Config :: "bool \<Rightarrow> bool \<Rightarrow> E3Config" where
  "default_E3Config enable_asn1 enable_json = \<lparr>
     cfg_ran_identifier = '''', cfg_e3ap_version = ''1.0.0'',
     cfg_link_layer = ZMQ, cfg_transport_layer = IPC,
     cfg_setup_port = 9990, cfg_subscriber_port = 9999, cfg_publisher_port = 9991,
     cfg_setup_endpoint = ''ipc:///tmp/dapps/setup'',
     cfg_subscriber_endpoint = ''ipc:///tmp/dapps/dapp_socket'',
     cfg_publisher_endpoint = ''ipc:///tmp/dapps/e3_socket'',
     cfg_encoding = (if enable_asn1 then ASN1 else if enable_json then JSON else ASN1),
     cfg_connect_timeout_ms = 5000, cfg_recv_timeout_ms = 1000, cfg_send_timeout_ms = 1000,
     cfg_receive_buffer_size = of_nat DEFAULT_BUFFER_SIZE,
     cfg_send_buffer_size = of_nat DEFAULT_BUFFER_SIZE,
     cfg_io_threads = 2, cfg_io_thread_affinity = -1, cfg_io_thread_niceness = 0,
     cfg_log_level = 3\<rparr>"

record DAppEntry =
  de_dapp_identifier :: u32
  de_registered_time :: u64

section \<open>Conversions to strings\<close>

fun pdu_type_to_string :: "PduType \<Rightarrow> string" where
  "pdu_type_to_string SETUP_REQUEST = ''SetupRequest''"
| "pdu_type_to_string SETUP_RESPONSE = ''SetupResponse''"
| "pdu_type_to_string SUBSCRIPTION_REQUEST = ''SubscriptionRequest''"
| "pdu_type_to_string SUBSCRIPTION_DELETE = ''SubscriptionDelete''"
| "pdu_type_to_string SUBSCRIPTION_RESPONSE = ''SubscriptionResponse''"
| "pdu_type_to_string INDICATION_MESSAGE = ''IndicationMessage''"
| "pdu_type_to_string DAPP_CONTROL_ACTION = ''DAppControlAction''"
| "pdu_type_to_string DAPP_REPORT = ''DAppReport''"
| "pdu_type_to_string XAPP_CONTROL_ACTION = ''XAppControlAction''"
| "pdu_type_to_string RELEASE_MESSAGE = ''ReleaseMessage''"
| "pdu_type_to_string MESSAGE_ACK = ''MessageAck''"

fun action_type_to_string :: "ActionType \<Rightarrow> string" where
  "action_type_to_string INSERT = ''insert''"
| "action_type_to_string UPDATE = ''update''"
| "action_type_to_string DELETE = ''delete''"

fun response_code_to_string :: "ResponseCode \<Rightarrow> string" where
  "response_code_to_string POSITIVE = ''positive''"
| "response_code_to_string NEGATIVE = ''negative''"

fun agent_state_to_string :: "AgentState \<Rightarrow> string" where
  "agent_state_to_string UNINITIALIZED = ''Uninitialized''"
| "agent_state_to_string INITIALIZED = ''Initialized''"
| "agent_state_to_string CONNECTING = ''Connecting''"
| "agent_state_to_string CONNECTED = ''Connected''"
| "agent_state_to_string RUNNING = ''Running''"
| "agent_state_to_string STOPPING = ''Stopping''"
| "agent_state_to_string STOPPED = ''Stopped''"
| "agent_state_to_string ERROR = ''Error''"

fun link_layer_to_string :: "E3LinkLayer \<Rightarrow> string" where
  "link_layer_to_string ZMQ = ''zmq''"
| "link_layer_to_string POSIX = ''posix''"

fun transport_layer_to_string :: "E3TransportLayer \<Rightarrow> string" where
  "transport_layer_to_string SCTP = ''sctp''"
| "transport_layer_to_string TCP = ''tcp''"
| "transport_layer_to_string IPC = ''ipc''"

section \<open>Lemmas\<close>

lemma listed_error_iff: "listed_error e \<longleftrightarrow> (\<forall>i. e \<noteq> UNLISTED_ERROR i)"
  by (cases e) (simp_all add: listed_error_def LIBE3_ERROR_CODE_LIST_def)

lemma error_code_to_int_listed:
  "listed_error e \<Longrightarrow> error_code_to_int e \<le> 0 \<and> (error_code_to_int e = 0 \<longleftrightarrow> e = SUCCESS)"
  by (cases e) (simp_all add: listed_error_iff)

lemma pdu_type_to_string_inj: "pdu_type_to_string t = pdu_type_to_string t' \<Longrightarrow> t = t'"
  by (cases t; cases t') simp_all

text \<open>
  Casting an error code to \<^verbatim>\<open>int\<close> (as every function of the C API does with its result) and
  back is the identity, the integer 0 stands for success alone and every other listed code is
  negative, and the name printed for a listed code determines the code.
\<close>

lemma error_code_cast_roundtrip:
  assumes "listed_error e"
  shows "error_code_of_int (error_code_to_int e) = e
    \<and> error_code_to_int e \<le> 0 \<and> (error_code_to_int e = 0 \<longleftrightarrow> e = SUCCESS)
    \<and> (ErrorCodeToString e, e) \<in> set (map prod.swap LIBE3_ERROR_CODE_LIST)"
  using assms
  by (cases e) (simp_all add: listed_error_iff error_code_of_int_def ErrorCodeToString_def
        LIBE3_ERROR_CODE_LIST_def)

lemma error_code_cast_roundtrip_witness:
  "error_code_of_int (error_code_to_int CANCELLED) = CANCELLED"
  using error_code_cast_roundtrip[of CANCELLED] by (simp add: listed_error_iff)

end
