(* ===== verification/Subscription_Manager.thy ===== *)
theory Subscription_Manager
  imports E3_Types
begin

text \<open>
  The subscription manager: \<^verbatim>\<open>src/core/subscription_manager.cpp\<close> and
  \<^verbatim>\<open>include/libe3/subscription_manager.hpp\<close>. The record holds the class's members; the callback member is
  present or absent, and an operation returns, beside its result and the new state, the calls of
  the lifecycle callback it makes, in order. Every public operation holds the mutex for its whole
  state change, so an operation is one step.

  The theory shows: the class invariant and that every operation keeps it; what registration
  returns on each branch; that the operations implement an abstract relation between dApps and RAN
  functions; that the calls of the lifecycle callback follow the set of RAN functions with
  subscribers; and the behaviour of the subscription identifiers, whose counter wraps.
\<close>

section \<open>State\<close>

type_synonym lifecycle_event = "u32 \<times> bool"

record SubscriptionManager =
  registered_dapps :: "(u32, DAppEntry) unordered_map"
  dapp_subscriptions :: "(u32, u32 list) unordered_map"
  ran_function_subscribers :: "(u32, u32 list) unordered_map"
  subscription_ids :: "(u32, u32 \<times> u32) unordered_map"
  subscription_id_reverse :: "(u64, u32) unordered_map"
  sm_lifecycle_callback :: bool
  next_dapp_id :: u32
  next_subscription_id :: u32

definition MAX_DAPP_ID :: u32 where "MAX_DAPP_ID = 100"
definition MIN_DAPP_ID :: u32 where "MIN_DAPP_ID = 1"

definition new_SubscriptionManager :: SubscriptionManager where
  "new_SubscriptionManager = \<lparr>registered_dapps = [], dapp_subscriptions = [],
     ran_function_subscribers = [], subscription_ids = [], subscription_id_reverse = [],
     sm_lifecycle_callback = False, next_dapp_id = 1, next_subscription_id = 1\<rparr>"

definition set_sm_lifecycle_callback :: "SubscriptionManager \<Rightarrow> bool \<Rightarrow> SubscriptionManager" where
  "set_sm_lifecycle_callback s present = s\<lparr>sm_lifecycle_callback := present\<rparr>"

definition make_sub_key :: "u32 \<Rightarrow> u32 \<Rightarrow> u64" where
  "make_sub_key dapp_id ran_func_id = push_bit 32 (ucast dapp_id :: u64) OR ucast ran_func_id"

section \<open>Queries\<close>

definition is_dapp_registered :: "SubscriptionManager \<Rightarrow> u32 \<Rightarrow> bool" where
  "is_dapp_registered s dapp_id \<longleftrightarrow> um_count (registered_dapps s) dapp_id > 0"

definition get_registered_dapps :: "SubscriptionManager \<Rightarrow> u32 list" where
  "get_registered_dapps s = um_keys (registered_dapps s)"

definition is_subscribed :: "SubscriptionManager \<Rightarrow> u32 \<Rightarrow> u32 \<Rightarrow> bool" where
  "is_subscribed s dapp_id ran_function_id =
     (case map_of (dapp_subscriptions s) dapp_id of
        None \<Rightarrow> False
      | Some subs \<Rightarrow> ran_function_id \<in> set subs)"

definition get_dapp_subscriptions :: "SubscriptionManager \<Rightarrow> u32 \<Rightarrow> u32 list" where
  "get_dapp_subscriptions s dapp_id =
     (case map_of (dapp_subscriptions s) dapp_id of None \<Rightarrow> [] | Some subs \<Rightarrow> subs)"

definition get_subscribed_dapps :: "SubscriptionManager \<Rightarrow> u32 \<Rightarrow> u32 list" where
  "get_subscribed_dapps s ran_function_id =
     (case map_of (ran_function_subscribers s) ran_function_id of None \<Rightarrow> [] | Some ds \<Rightarrow> ds)"

definition get_subscriber_count :: "SubscriptionManager \<Rightarrow> u32 \<Rightarrow> nat" where
  "get_subscriber_count s ran_function_id =
     (case map_of (ran_function_subscribers s) ran_function_id of None \<Rightarrow> 0 | Some ds \<Rightarrow> length ds)"

definition get_active_ran_functions :: "SubscriptionManager \<Rightarrow> u32 list" where
  "get_active_ran_functions s =
     map fst (filter (\<lambda>(ran_func, subscribers). subscribers \<noteq> []) (ran_function_subscribers s))"

definition has_subscribers :: "SubscriptionManager \<Rightarrow> u32 \<Rightarrow> bool" where
  "has_subscribers s ran_function_id =
     (case map_of (ran_function_subscribers s) ran_function_id of
        None \<Rightarrow> False
      | Some ds \<Rightarrow> ds \<noteq> [])"

definition dapp_count :: "SubscriptionManager \<Rightarrow> nat" where
  "dapp_count s = length (um_keys (registered_dapps s))"

definition subscription_count :: "SubscriptionManager \<Rightarrow> nat" where
  "subscription_count s = sum_list (map (\<lambda>(dapp_id, subs). length subs) (dapp_subscriptions s))"

section \<open>Registration\<close>

text \<open>The identifier after \<open>i\<close> in the cycle 1..100.\<close>

definition next_id :: "u32 \<Rightarrow> u32" where
  "next_id i = (if i + 1 > MAX_DAPP_ID then MIN_DAPP_ID else i + 1)"

text \<open>
  The search loop of \<^verbatim>\<open>register_dapp\<close>: it advances until a free identifier or until more than
  100 attempts were made.
\<close>

function find_dapp_id :: "(u32, DAppEntry) unordered_map \<Rightarrow> u32 \<Rightarrow> u32 \<Rightarrow> u32 \<times> u32" where
  "find_dapp_id regs assigned_id attempts =
     (if um_count regs assigned_id > 0 \<and> attempts \<le> MAX_DAPP_ID
      then find_dapp_id regs (next_id assigned_id) (attempts + 1)
      else (assigned_id, attempts))"
  by pat_completeness auto
termination
proof (relation "measure (\<lambda>(regs, assigned_id, attempts). 101 - unat attempts)", goal_cases)
  case 1
  show ?case by simp
next
  case (2 regs assigned_id attempts)
  then have "unat attempts \<le> 100"
    by (simp add: MAX_DAPP_ID_def word_le_nat_alt)
  then show ?case by (simp add: unat_Suc_u32)
qed

declare find_dapp_id.simps [simp del]

definition register_dapp ::
    "SubscriptionManager \<Rightarrow> u64 \<Rightarrow> (ErrorCode \<times> u32) \<times> SubscriptionManager" where
  "register_dapp s now =
     (let (assigned_id, attempts) = find_dapp_id (registered_dapps s) (next_dapp_id s) 0
      in if attempts > MAX_DAPP_ID then ((INTERNAL_ERROR, 0), s)
         else
           let entry = \<lparr>de_dapp_identifier = assigned_id, de_registered_time = now\<rparr>
           in ((SUCCESS, assigned_id),
               s\<lparr>registered_dapps := AList.update assigned_id entry (registered_dapps s),
                 dapp_subscriptions := AList.update assigned_id [] (dapp_subscriptions s),
                 next_dapp_id := next_id assigned_id\<rparr>))"

section \<open>Lifecycle notifications\<close>

text \<open>
  The operations call \<^verbatim>\<open>check_sm_lifecycle\<close> after they have released the lock, and it reads the subscribers
  again under a lock of its own. Below it reads them in the state the operation has left. That is what
  it finds in this program: all operations that call it are made by the subscriber thread, and the only
  operation of another thread, the registration of the setup thread, does not change what it reads
  (\<open>register_between_lock_and_check\<close>).
\<close>

definition check_sm_lifecycle :: "SubscriptionManager \<Rightarrow> u32 \<Rightarrow> bool \<Rightarrow> lifecycle_event list" where
  "check_sm_lifecycle s ran_function_id had_subscribers =
     (if \<not> sm_lifecycle_callback s then []
      else
        let has_subscribers_now = has_subscribers s ran_function_id
        in if \<not> had_subscribers \<and> has_subscribers_now then [(ran_function_id, True)]
           else if had_subscribers \<and> \<not> has_subscribers_now then [(ran_function_id, False)]
           else [])"

section \<open>Removal of a dApp\<close>

text \<open>
  The code that removes the identifier of a subscription found through the reverse map, and the
  code that removes a dApp from the subscriber set of a RAN function. Both appear in
  \<^verbatim>\<open>unregister_dapp\<close> and in \<^verbatim>\<open>remove_subscription\<close>.
\<close>

definition erase_subscription_id :: "SubscriptionManager \<Rightarrow> u64 \<Rightarrow> SubscriptionManager" where
  "erase_subscription_id s sub_key =
     (case map_of (subscription_id_reverse s) sub_key of
        None \<Rightarrow> s
      | Some sub_id \<Rightarrow>
          s\<lparr>subscription_ids := AList.delete sub_id (subscription_ids s),
            subscription_id_reverse := AList.delete sub_key (subscription_id_reverse s)\<rparr>)"

definition erase_subscriber ::
    "SubscriptionManager \<Rightarrow> u32 \<Rightarrow> u32 \<Rightarrow> bool \<times> bool \<times> SubscriptionManager" where
  "erase_subscriber s dapp_id ran_func =
     (let (subscribers, rfs) = um_index [] (ran_function_subscribers s) ran_func;
          subscribers' = removeAll dapp_id subscribers
      in (subscribers \<noteq> [], subscribers' \<noteq> [],
          s\<lparr>ran_function_subscribers := AList.update ran_func subscribers' rfs\<rparr>))"

fun unregister_loop ::
    "u32 \<Rightarrow> u32 list \<Rightarrow> SubscriptionManager \<Rightarrow> lifecycle_event list
       \<Rightarrow> SubscriptionManager \<times> lifecycle_event list" where
  "unregister_loop dapp_id [] s affected = (s, affected)"
| "unregister_loop dapp_id (ran_func # ran_funcs) s affected =
     (let (had_subscribers, still_has_subscribers, s1) = erase_subscriber s dapp_id ran_func;
          affected' = (if had_subscribers \<and> \<not> still_has_subscribers
                       then affected @ [(ran_func, False)] else affected);
          s2 = erase_subscription_id s1 (make_sub_key dapp_id ran_func)
      in unregister_loop dapp_id ran_funcs s2 affected')"

definition unregister_dapp ::
    "SubscriptionManager \<Rightarrow> u32 \<Rightarrow> ErrorCode \<times> SubscriptionManager \<times> lifecycle_event list" where
  "unregister_dapp s dapp_id =
     (case map_of (registered_dapps s) dapp_id of
        None \<Rightarrow> (DAPP_NOT_REGISTERED, s, [])
      | Some _ \<Rightarrow>
          let (s1, affected) =
                (case map_of (dapp_subscriptions s) dapp_id of
                   None \<Rightarrow> (s, [])
                 | Some subs \<Rightarrow>
                     let (s', aff) = unregister_loop dapp_id subs s []
                     in (s'\<lparr>dapp_subscriptions := AList.delete dapp_id (dapp_subscriptions s')\<rparr>, aff));
              s2 = s1\<lparr>registered_dapps := AList.delete dapp_id (registered_dapps s1)\<rparr>
          in (SUCCESS, s2,
              concat (map (\<lambda>(ran_func, should_start). check_sm_lifecycle s2 ran_func True) affected)))"

section \<open>Subscriptions\<close>

definition add_subscription ::
    "SubscriptionManager \<Rightarrow> u32 \<Rightarrow> u32
       \<Rightarrow> (ErrorCode \<times> u32) \<times> SubscriptionManager \<times> lifecycle_event list" where
  "add_subscription s dapp_id ran_function_id =
     (if um_count (registered_dapps s) dapp_id = 0 then ((DAPP_NOT_REGISTERED, 0), s, [])
      else
        let (dapp_subs, ds) = um_index [] (dapp_subscriptions s) dapp_id;
            sub_key = make_sub_key dapp_id ran_function_id
        in if ran_function_id \<in> set dapp_subs then
             let (existing_sub_id, rev) = um_index 0 (subscription_id_reverse s) sub_key
             in ((SUBSCRIPTION_EXISTS, existing_sub_id),
                 s\<lparr>dapp_subscriptions := ds, subscription_id_reverse := rev\<rparr>, [])
           else
             let (subscribers, rfs) = um_index [] (ran_function_subscribers s) ran_function_id;
                 had_subscribers = (subscribers \<noteq> []);
                 subscription_id = next_subscription_id s;
                 next_sub = (if subscription_id + 1 > 100 then 1 else subscription_id + 1);
                 s' = s\<lparr>next_subscription_id := next_sub,
                        dapp_subscriptions :=
                          AList.update dapp_id (List.insert ran_function_id dapp_subs) ds,
                        ran_function_subscribers :=
                          AList.update ran_function_id (List.insert dapp_id subscribers) rfs,
                        subscription_ids :=
                          AList.update subscription_id (dapp_id, ran_function_id) (subscription_ids s),
                        subscription_id_reverse :=
                          AList.update sub_key subscription_id (subscription_id_reverse s)\<rparr>
             in ((SUCCESS, subscription_id), s',
                 (if \<not> had_subscribers then check_sm_lifecycle s' ran_function_id False else [])))"

definition remove_subscription ::
    "SubscriptionManager \<Rightarrow> u32 \<Rightarrow> u32 \<Rightarrow> ErrorCode \<times> SubscriptionManager \<times> lifecycle_event list" where
  "remove_subscription s dapp_id ran_function_id =
     (case map_of (dapp_subscriptions s) dapp_id of
        None \<Rightarrow> (SUBSCRIPTION_NOT_FOUND, s, [])
      | Some dapp_subs \<Rightarrow>
          if ran_function_id \<notin> set dapp_subs then (SUBSCRIPTION_NOT_FOUND, s, [])
          else
            let s1 = s\<lparr>dapp_subscriptions :=
                         AList.update dapp_id (removeAll ran_function_id dapp_subs)
                           (dapp_subscriptions s)\<rparr>;
                (had_subscribers, still_has_subscribers, s2) =
                  erase_subscriber s1 dapp_id ran_function_id;
                s3 = erase_subscription_id s2 (make_sub_key dapp_id ran_function_id)
            in (SUCCESS, s3,
                (if had_subscribers \<and> \<not> still_has_subscribers
                 then check_sm_lifecycle s3 ran_function_id True else [])))"

definition remove_subscription_by_id ::
    "SubscriptionManager \<Rightarrow> u32 \<Rightarrow> u32 \<Rightarrow> ErrorCode \<times> SubscriptionManager \<times> lifecycle_event list" where
  "remove_subscription_by_id s dapp_id subscription_id =
     (case map_of (subscription_ids s) subscription_id of
        None \<Rightarrow> (SUBSCRIPTION_NOT_FOUND, s, [])
      | Some (sub_dapp_id, ran_function_id) \<Rightarrow>
          if sub_dapp_id \<noteq> dapp_id then (SUBSCRIPTION_NOT_FOUND, s, [])
          else
            let s1 = (case map_of (dapp_subscriptions s) dapp_id of
                        None \<Rightarrow> s
                      | Some dapp_subs \<Rightarrow>
                          s\<lparr>dapp_subscriptions :=
                              AList.update dapp_id (removeAll ran_function_id dapp_subs)
                                (dapp_subscriptions s)\<rparr>);
                (had_subscribers, still_has_subscribers, s2) =
                  erase_subscriber s1 dapp_id ran_function_id;
                s3 = s2\<lparr>subscription_id_reverse :=
                          AList.delete (make_sub_key dapp_id ran_function_id)
                            (subscription_id_reverse s2),
                        subscription_ids := AList.delete subscription_id (subscription_ids s2)\<rparr>
            in (SUCCESS, s3,
                (if had_subscribers \<and> \<not> still_has_subscribers
                 then check_sm_lifecycle s3 ran_function_id True else [])))"

definition SubscriptionManager_clear :: "SubscriptionManager \<Rightarrow> SubscriptionManager" where
  "SubscriptionManager_clear s = s\<lparr>registered_dapps := [], dapp_subscriptions := [], ran_function_subscribers := []\<rparr>"

lemmas sm_op_defs = register_dapp_def unregister_dapp_def add_subscription_def
  remove_subscription_def remove_subscription_by_id_def SubscriptionManager_clear_def


section \<open>Keys and identifiers\<close>

lemma make_sub_key_low: "(ucast (make_sub_key d r) :: u32) = r"
  by (rule bit_word_eqI) (auto simp: make_sub_key_def bit_simps)

lemma make_sub_key_high: "(ucast (drop_bit 32 (make_sub_key d r)) :: u32) = d"
  by (rule bit_word_eqI) (auto simp: make_sub_key_def bit_simps dest: bit_imp_le_length)

lemma make_sub_key_eq [simp]: "make_sub_key d r = make_sub_key d' r' \<longleftrightarrow> d = d' \<and> r = r'"
  by (metis make_sub_key_low make_sub_key_high)

lemma next_id_unat:
  assumes "1 \<le> i" and "i \<le> (100 :: u32)"
  shows "unat (next_id i) = unat i mod 100 + 1"
proof -
  have "unat i \<ge> 1" and "unat i \<le> 100"
    using assms by (simp_all add: word_le_nat_alt)
  then show ?thesis
    by (cases "unat i = 100")
      (auto simp: next_id_def MAX_DAPP_ID_def MIN_DAPP_ID_def word_less_nat_alt unat_Suc_u32)
qed

lemma next_id_range:
  assumes "1 \<le> i" and "i \<le> (100 :: u32)"
  shows "1 \<le> next_id i \<and> next_id i \<le> 100"
  using next_id_unat[OF assms] by (simp add: word_le_nat_alt)

lemma next_id_pow_range:
  assumes "1 \<le> i" and "i \<le> (100 :: u32)"
  shows "1 \<le> (next_id ^^ k) i \<and> (next_id ^^ k) i \<le> 100"
  using assms by (induction k) (auto simp: next_id_range)

lemma next_id_pow_unat:
  assumes "1 \<le> i" and "i \<le> (100 :: u32)"
  shows "unat ((next_id ^^ k) i) = (unat i - 1 + k) mod 100 + 1"
proof (induction k)
  case 0
  then show ?case using assms by (simp add: word_le_nat_alt)
next
  case (Suc k)
  have "unat ((next_id ^^ Suc k) i) = unat ((next_id ^^ k) i) mod 100 + 1"
    using next_id_unat next_id_pow_range[OF assms] by simp
  also have "\<dots> = (unat i - 1 + Suc k) mod 100 + 1"
    by (simp add: Suc mod_Suc_eq)
  finally show ?case .
qed

text \<open>Every identifier in 1..100 is met within the first hundred positions of the cycle.\<close>

lemma next_id_cycle:
  assumes i: "1 \<le> i" "i \<le> (100 :: u32)" and d: "1 \<le> d" "d \<le> (100 :: u32)"
  shows "\<exists>k < 100. (next_id ^^ k) i = d"
proof -
  define k where "k = (unat d + 100 - unat i) mod 100"
  have "1 \<le> unat i" "unat i \<le> 100" "1 \<le> unat d" "unat d \<le> 100"
    using i d by (simp_all add: word_le_nat_alt)
  moreover have "(unat i - 1 + k) mod 100 = (unat i - 1 + (unat d + 100 - unat i)) mod 100"
    unfolding k_def by (simp add: mod_simps)
  ultimately have "(unat i - 1 + k) mod 100 + 1 = unat d"
    by (cases "unat d = 100") (auto simp: mod_if[of "99 + unat d" 100])
  then have "unat ((next_id ^^ k) i) = unat d"
    using next_id_pow_unat[OF i] by simp
  then have "(next_id ^^ k) i = d" by (simp add: word_unat_eq_iff)
  moreover have "k < 100" by (simp add: k_def)
  ultimately show ?thesis by blast
qed

text \<open>What the search loop returns, for the position and the number of attempts it starts with.\<close>

lemma find_dapp_id_result:
  assumes "unat attempts \<le> 101"
  shows "case find_dapp_id regs i attempts of (a, n) \<Rightarrow>
      unat attempts \<le> unat n \<and> unat n \<le> 101
    \<and> a = (next_id ^^ (unat n - unat attempts)) i
    \<and> (\<forall>k < unat n - unat attempts. map_of regs ((next_id ^^ k) i) \<noteq> None)
    \<and> (unat n \<le> 100 \<longrightarrow> map_of regs a = None)"
  using assms
proof (induction regs i attempts rule: find_dapp_id.induct)
  case (1 regs i attempts)
  show ?case
  proof (cases "um_count regs i > 0 \<and> attempts \<le> MAX_DAPP_ID")
    case True
    then have le: "unat attempts \<le> 100"
      by (simp add: MAX_DAPP_ID_def word_le_nat_alt)
    then have suc: "unat (attempts + 1) = Suc (unat attempts)"
      by (simp add: unat_Suc_u32)
    obtain a n where an: "find_dapp_id regs (next_id i) (attempts + 1) = (a, n)"
      by fastforce
    have IH: "Suc (unat attempts) \<le> unat n \<and> unat n \<le> 101
      \<and> a = (next_id ^^ (unat n - Suc (unat attempts))) (next_id i)
      \<and> (\<forall>k < unat n - Suc (unat attempts). map_of regs ((next_id ^^ k) (next_id i)) \<noteq> None)
      \<and> (unat n \<le> 100 \<longrightarrow> map_of regs a = None)"
      using "1.IH"[OF True] le by (auto simp: suc an)
    then have diff: "unat n - unat attempts = Suc (unat n - Suc (unat attempts))"
      by arith
    have "\<forall>k < unat n - unat attempts. map_of regs ((next_id ^^ k) i) \<noteq> None"
    proof (intro allI impI)
      fix k assume k: "k < unat n - unat attempts"
      show "map_of regs ((next_id ^^ k) i) \<noteq> None"
      proof (cases k)
        case 0
        then show ?thesis using True by simp
      next
        case (Suc k')
        then show ?thesis using IH k diff by (simp add: funpow_swap1)
      qed
    qed
    moreover have "a = (next_id ^^ (unat n - unat attempts)) i"
      using IH diff by (simp add: funpow_swap1)
    ultimately show ?thesis
      using IH True by (auto simp: find_dapp_id.simps[of regs i attempts] an)
  next
    case False
    then show ?thesis
      using "1.prems"
      by (auto simp: find_dapp_id.simps[of regs i attempts] MAX_DAPP_ID_def word_le_nat_alt)
  qed
qed

lemma find_dapp_id_cases:
  assumes i: "1 \<le> i" "i \<le> 100"
  obtains (free) k a n where "find_dapp_id regs i 0 = (a, n)" and "n \<le> MAX_DAPP_ID"
      and "a = (next_id ^^ k) i" and "k < 100" and "map_of regs a = None" and "1 \<le> a" and "a \<le> 100"
      and "\<And>j. j < k \<Longrightarrow> map_of regs ((next_id ^^ j) i) \<noteq> None"
    | (full) a n where "find_dapp_id regs i 0 = (a, n)" and "n > MAX_DAPP_ID"
      and "\<And>d. 1 \<le> d \<Longrightarrow> d \<le> 100 \<Longrightarrow> map_of regs d \<noteq> None"
proof -
  obtain a n where an: "find_dapp_id regs i 0 = (a, n)" by fastforce
  have R: "unat n \<le> 101" "a = (next_id ^^ unat n) i"
      "\<forall>k < unat n. map_of regs ((next_id ^^ k) i) \<noteq> None"
      "unat n \<le> 100 \<longrightarrow> map_of regs a = None"
    using find_dapp_id_result[where attempts = 0 and regs = regs and i = i] by (auto simp: an)
  show thesis
  proof (cases "unat n \<le> 100")
    case True
    have "map_of regs a = None" using R(4) True by simp
    moreover have "1 \<le> a \<and> a \<le> 100" using R(2) next_id_pow_range[OF i] by simp
    moreover have "unat n < 100"
    proof (rule ccontr)
      assume "\<not> unat n < 100"
      moreover obtain j where "j < 100" "(next_id ^^ j) i = a"
        using next_id_cycle[OF i, of a] \<open>1 \<le> a \<and> a \<le> 100\<close> by blast
      ultimately show False using R(3) \<open>map_of regs a = None\<close> by (auto dest: spec[of _ j])
    qed
    ultimately show thesis
      using free[of a n "unat n"] an R(2,3) True by (simp add: MAX_DAPP_ID_def word_le_nat_alt)
  next
    case False
    have "map_of regs d \<noteq> None" if "1 \<le> d" "d \<le> 100" for d
    proof -
      obtain j where "j < 100" "(next_id ^^ j) i = d"
        using next_id_cycle[OF i \<open>1 \<le> d\<close> \<open>d \<le> 100\<close>] by blast
      then show ?thesis using R(3) False by auto
    qed
    then show thesis
      using full[of a n] an False by (simp add: MAX_DAPP_ID_def word_less_nat_alt)
  qed
qed

section \<open>The invariant\<close>

definition id_range :: "u32 \<Rightarrow> bool" where
  "id_range i \<longleftrightarrow> 1 \<le> i \<and> i \<le> 100"

text \<open>
  The class invariant: the maps are well formed, exactly the registered dApps have a subscription
  set, registered identifiers and both counters lie in 1..100, the sets have no repetitions, the
  two subscription indexes mirror each other, and every subscription has an identifier in 1..100 in
  the reverse map.
\<close>

definition mgr_inv :: "SubscriptionManager \<Rightarrow> bool" where
  "mgr_inv s \<longleftrightarrow>
     um_wf (registered_dapps s) \<and> um_wf (dapp_subscriptions s)
   \<and> um_wf (ran_function_subscribers s) \<and> um_wf (subscription_ids s)
   \<and> um_wf (subscription_id_reverse s)
   \<and> dom (map_of (dapp_subscriptions s)) = dom (map_of (registered_dapps s))
   \<and> (\<forall>d e. map_of (registered_dapps s) d = Some e \<longrightarrow> de_dapp_identifier e = d \<and> id_range d)
   \<and> id_range (next_dapp_id s) \<and> id_range (next_subscription_id s)
   \<and> (\<forall>d. distinct (get_dapp_subscriptions s d))
   \<and> (\<forall>r. distinct (get_subscribed_dapps s r))
   \<and> (\<forall>d r. r \<in> set (get_dapp_subscriptions s d) \<longleftrightarrow> d \<in> set (get_subscribed_dapps s r))
   \<and> (\<forall>d r. r \<in> set (get_dapp_subscriptions s d) \<longrightarrow>
        (\<exists>i. id_range i \<and> map_of (subscription_id_reverse s) (make_sub_key d r) = Some i))"

text \<open>
  The part of the invariant that concerns identifiers: the identifier map and the reverse map only
  know live subscriptions, and an identifier that is mapped is the one the reverse map has for its
  subscription. \<^verbatim>\<open>clear\<close> is the one operation that does not keep it.
\<close>

definition ids_inv :: "SubscriptionManager \<Rightarrow> bool" where
  "ids_inv s \<longleftrightarrow>
     (\<forall>i d r. map_of (subscription_ids s) i = Some (d, r) \<longrightarrow>
        id_range i \<and> r \<in> set (get_dapp_subscriptions s d)
        \<and> map_of (subscription_id_reverse s) (make_sub_key d r) = Some i)
   \<and> (\<forall>k i. map_of (subscription_id_reverse s) k = Some i \<longrightarrow>
        (\<exists>d r. k = make_sub_key d r \<and> r \<in> set (get_dapp_subscriptions s d)))"

lemma get_dapp_subscriptions_um: "get_dapp_subscriptions s d = um_get [] (dapp_subscriptions s) d"
  by (simp add: get_dapp_subscriptions_def um_get_def split: option.split)

lemma get_subscribed_dapps_um: "get_subscribed_dapps s r = um_get [] (ran_function_subscribers s) r"
  by (simp add: get_subscribed_dapps_def um_get_def split: option.split)

lemma is_subscribed_iff: "is_subscribed s d r \<longleftrightarrow> r \<in> set (get_dapp_subscriptions s d)"
  by (simp add: is_subscribed_def get_dapp_subscriptions_def split: option.split)

lemma has_subscribers_iff: "has_subscribers s r \<longleftrightarrow> get_subscribed_dapps s r \<noteq> []"
  by (simp add: has_subscribers_def get_subscribed_dapps_def split: option.split)

lemma is_dapp_registered_iff:
  "is_dapp_registered s d \<longleftrightarrow> d \<in> dom (map_of (registered_dapps s))"
  by (auto simp: is_dapp_registered_def)

lemma mgr_inv_subscribed_registered:
  "mgr_inv s \<Longrightarrow> r \<in> set (get_dapp_subscriptions s d) \<Longrightarrow> is_dapp_registered s d"
proof -
  assume inv: "mgr_inv s" and r: "r \<in> set (get_dapp_subscriptions s d)"
  from r have "d \<in> dom (map_of (dapp_subscriptions s))"
    by (cases "map_of (dapp_subscriptions s) d") (auto simp: get_dapp_subscriptions_def)
  with inv show "is_dapp_registered s d"
    by (simp add: mgr_inv_def is_dapp_registered_iff)
qed

lemma mgr_inv_new [e3_inv]: "mgr_inv new_SubscriptionManager"
  by (simp add: mgr_inv_def new_SubscriptionManager_def get_dapp_subscriptions_def
      get_subscribed_dapps_def id_range_def)

lemma ids_inv_new [e3_inv]: "ids_inv new_SubscriptionManager"
  by (simp add: ids_inv_def new_SubscriptionManager_def)

subsection \<open>Effects of the building blocks\<close>

lemma erase_subscriber_eq:
  "erase_subscriber s d r =
     (get_subscribed_dapps s r \<noteq> [], removeAll d (get_subscribed_dapps s r) \<noteq> [],
      s\<lparr>ran_function_subscribers :=
          AList.update r (removeAll d (get_subscribed_dapps s r))
            (snd (um_index [] (ran_function_subscribers s) r))\<rparr>)"
  by (simp add: erase_subscriber_def get_subscribed_dapps_um split_beta Let_def)

lemma get_subscribed_dapps_erase:
  "get_subscribed_dapps (s\<lparr>ran_function_subscribers :=
       AList.update r xs (snd (um_index [] (ran_function_subscribers s) r))\<rparr>) r'
   = (if r' = r then xs else get_subscribed_dapps s r')"
  by (simp add: get_subscribed_dapps_um um_get_update)

lemma erase_subscription_id_frame [simp]:
  "registered_dapps (erase_subscription_id s k) = registered_dapps s"
  "dapp_subscriptions (erase_subscription_id s k) = dapp_subscriptions s"
  "ran_function_subscribers (erase_subscription_id s k) = ran_function_subscribers s"
  "sm_lifecycle_callback (erase_subscription_id s k) = sm_lifecycle_callback s"
  "next_dapp_id (erase_subscription_id s k) = next_dapp_id s"
  "next_subscription_id (erase_subscription_id s k) = next_subscription_id s"
  "get_dapp_subscriptions (erase_subscription_id s k) d = get_dapp_subscriptions s d"
  "get_subscribed_dapps (erase_subscription_id s k) r = get_subscribed_dapps s r"
  by (simp_all add: erase_subscription_id_def get_dapp_subscriptions_def get_subscribed_dapps_def
      split: option.split)

lemma erase_subscription_id_wf [simp]:
  "um_wf (subscription_ids s) \<Longrightarrow> um_wf (subscription_ids (erase_subscription_id s k))"
  "um_wf (subscription_id_reverse s) \<Longrightarrow> um_wf (subscription_id_reverse (erase_subscription_id s k))"
  by (simp_all add: erase_subscription_id_def split: option.split)

lemma map_of_erase_subscription_id:
  "map_of (subscription_id_reverse (erase_subscription_id s k))
     = (map_of (subscription_id_reverse s))(k := None)"
  "map_of (subscription_ids (erase_subscription_id s k)) i
     = (if map_of (subscription_id_reverse s) k = Some i then None
        else map_of (subscription_ids s) i)"
  by (auto simp: erase_subscription_id_def split: option.split)

text \<open>The effect of the loop of \<^verbatim>\<open>unregister_dapp\<close> on each field.\<close>

lemma unregister_loop_frame [simp]:
  "registered_dapps (fst (unregister_loop d rs s aff)) = registered_dapps s"
  "dapp_subscriptions (fst (unregister_loop d rs s aff)) = dapp_subscriptions s"
  "sm_lifecycle_callback (fst (unregister_loop d rs s aff)) = sm_lifecycle_callback s"
  "next_dapp_id (fst (unregister_loop d rs s aff)) = next_dapp_id s"
  "next_subscription_id (fst (unregister_loop d rs s aff)) = next_subscription_id s"
  by (induction rs arbitrary: s aff) (simp_all add: erase_subscriber_eq Let_def)

lemma unregister_loop_wf [simp]:
  "um_wf (ran_function_subscribers s)
     \<Longrightarrow> um_wf (ran_function_subscribers (fst (unregister_loop d rs s aff)))"
  "um_wf (subscription_ids s) \<Longrightarrow> um_wf (subscription_ids (fst (unregister_loop d rs s aff)))"
  "um_wf (subscription_id_reverse s)
     \<Longrightarrow> um_wf (subscription_id_reverse (fst (unregister_loop d rs s aff)))"
  by (induction rs arbitrary: s aff) (simp_all add: erase_subscriber_eq Let_def)

lemma unregister_loop_subscribers:
  "get_subscribed_dapps (fst (unregister_loop d rs s aff)) r =
    (if r \<in> set rs then removeAll d (get_subscribed_dapps s r) else get_subscribed_dapps s r)"
  by (induction rs arbitrary: s aff)
    (simp_all add: erase_subscriber_eq Let_def get_subscribed_dapps_erase)

lemma unregister_loop_reverse:
  "map_of (subscription_id_reverse (fst (unregister_loop d rs s aff))) k =
     (if k \<in> make_sub_key d ` set rs then None else map_of (subscription_id_reverse s) k)"
  by (induction rs arbitrary: s aff)
    (simp_all add: erase_subscriber_eq Let_def map_of_erase_subscription_id)

lemma unregister_loop_ids:
  "map_of (subscription_ids (fst (unregister_loop d rs s aff))) i =
     (if \<exists>r \<in> set rs. map_of (subscription_id_reverse s) (make_sub_key d r) = Some i then None
      else map_of (subscription_ids s) i)"
  by (induction rs arbitrary: s aff)
    (auto simp: erase_subscriber_eq Let_def map_of_erase_subscription_id)

text \<open>The RAN functions whose only subscriber is \<open>d\<close>.\<close>

definition sole_subscriber :: "SubscriptionManager \<Rightarrow> u32 \<Rightarrow> u32 set" where
  "sole_subscriber s d =
     {r. get_subscribed_dapps s r \<noteq> [] \<and> removeAll d (get_subscribed_dapps s r) = []}"

lemma sole_subscriber_erase:
  "sole_subscriber (erase_subscription_id (s\<lparr>ran_function_subscribers :=
       AList.update r (removeAll d (get_subscribed_dapps s r))
         (snd (um_index [] (ran_function_subscribers s) r))\<rparr>) k) d
   = sole_subscriber s d - {r}"
  by (auto simp: sole_subscriber_def get_subscribed_dapps_erase)

lemma unregister_loop_affected:
  "set (snd (unregister_loop d rs s aff)) =
     set aff \<union> (\<lambda>r. (r, False)) ` (set rs \<inter> sole_subscriber s d)"
proof (induction rs arbitrary: s aff)
  case Nil
  then show ?case by simp
next
  case (Cons r rs)
  define s' where "s' = erase_subscription_id (s\<lparr>ran_function_subscribers :=
       AList.update r (removeAll d (get_subscribed_dapps s r))
         (snd (um_index [] (ran_function_subscribers s) r))\<rparr>) (make_sub_key d r)"
  define aff' where "aff' = (if r \<in> sole_subscriber s d then aff @ [(r, False)] else aff)"
  have step: "unregister_loop d (r # rs) s aff = unregister_loop d rs s' aff'"
    by (simp add: erase_subscriber_eq s'_def aff'_def sole_subscriber_def)
  have sole: "sole_subscriber s' d = sole_subscriber s d - {r}"
    unfolding s'_def by (rule sole_subscriber_erase)
  have "set (snd (unregister_loop d (r # rs) s aff)) =
      set aff' \<union> (\<lambda>r. (r, False)) ` (set rs \<inter> (sole_subscriber s d - {r}))"
    unfolding step by (simp only: Cons sole)
  also have "\<dots> = set aff \<union> (\<lambda>r. (r, False)) ` (set (r # rs) \<inter> sole_subscriber s d)"
    by (auto simp: aff'_def)
  finally show ?case .
qed

subsection \<open>The branches of each operation\<close>

lemma mgr_invD:
  assumes "mgr_inv s"
  shows "um_wf (registered_dapps s)" and "um_wf (dapp_subscriptions s)"
    and "um_wf (ran_function_subscribers s)" and "um_wf (subscription_ids s)"
    and "um_wf (subscription_id_reverse s)"
    and "dom (map_of (dapp_subscriptions s)) = dom (map_of (registered_dapps s))"
    and "\<And>d e. map_of (registered_dapps s) d = Some e \<Longrightarrow> de_dapp_identifier e = d \<and> id_range d"
    and "id_range (next_dapp_id s)" and "id_range (next_subscription_id s)"
    and "\<And>d. distinct (get_dapp_subscriptions s d)"
    and "\<And>r. distinct (get_subscribed_dapps s r)"
    and "\<And>d r. r \<in> set (get_dapp_subscriptions s d) \<longleftrightarrow> d \<in> set (get_subscribed_dapps s r)"
    and "\<And>d r. r \<in> set (get_dapp_subscriptions s d) \<Longrightarrow>
        \<exists>i. id_range i \<and> map_of (subscription_id_reverse s) (make_sub_key d r) = Some i"
  using assms unfolding mgr_inv_def by blast+

text \<open>The state after a new subscription, and after the removal of a subscription.\<close>

definition added :: "SubscriptionManager \<Rightarrow> u32 \<Rightarrow> u32 \<Rightarrow> SubscriptionManager" where
  "added s d r = s\<lparr>next_subscription_id := next_id (next_subscription_id s),
     dapp_subscriptions := AList.update d (r # get_dapp_subscriptions s d) (dapp_subscriptions s),
     ran_function_subscribers := AList.update r (d # get_subscribed_dapps s r)
       (snd (um_index [] (ran_function_subscribers s) r)),
     subscription_ids := AList.update (next_subscription_id s) (d, r) (subscription_ids s),
     subscription_id_reverse :=
       AList.update (make_sub_key d r) (next_subscription_id s) (subscription_id_reverse s)\<rparr>"

definition removed_pair :: "SubscriptionManager \<Rightarrow> u32 \<Rightarrow> u32 \<Rightarrow> SubscriptionManager" where
  "removed_pair s d r = s\<lparr>dapp_subscriptions :=
       AList.update d (removeAll r (get_dapp_subscriptions s d)) (dapp_subscriptions s),
     ran_function_subscribers := AList.update r (removeAll d (get_subscribed_dapps s r))
       (snd (um_index [] (ran_function_subscribers s) r))\<rparr>"

lemma added_frame [simp]:
  "registered_dapps (added s d r) = registered_dapps s"
  "sm_lifecycle_callback (added s d r) = sm_lifecycle_callback s"
  "next_dapp_id (added s d r) = next_dapp_id s"
  "next_subscription_id (added s d r) = next_id (next_subscription_id s)"
  "map_of (dapp_subscriptions (added s d r)) =
     (map_of (dapp_subscriptions s))(d \<mapsto> r # get_dapp_subscriptions s d)"
  "map_of (subscription_ids (added s d r)) =
     (map_of (subscription_ids s))(next_subscription_id s \<mapsto> (d, r))"
  "map_of (subscription_id_reverse (added s d r)) =
     (map_of (subscription_id_reverse s))(make_sub_key d r \<mapsto> next_subscription_id s)"
  "get_dapp_subscriptions (added s d r) d' =
     (if d' = d then r # get_dapp_subscriptions s d else get_dapp_subscriptions s d')"
  "get_subscribed_dapps (added s d r) r' =
     (if r' = r then d # get_subscribed_dapps s r else get_subscribed_dapps s r')"
  by (simp_all add: added_def get_dapp_subscriptions_um get_subscribed_dapps_um um_get_update)

lemma removed_pair_frame [simp]:
  "registered_dapps (removed_pair s d r) = registered_dapps s"
  "sm_lifecycle_callback (removed_pair s d r) = sm_lifecycle_callback s"
  "next_dapp_id (removed_pair s d r) = next_dapp_id s"
  "next_subscription_id (removed_pair s d r) = next_subscription_id s"
  "subscription_ids (removed_pair s d r) = subscription_ids s"
  "subscription_id_reverse (removed_pair s d r) = subscription_id_reverse s"
  "map_of (dapp_subscriptions (removed_pair s d r)) =
     (map_of (dapp_subscriptions s))(d \<mapsto> removeAll r (get_dapp_subscriptions s d))"
  "get_dapp_subscriptions (removed_pair s d r) d' =
     (if d' = d then removeAll r (get_dapp_subscriptions s d) else get_dapp_subscriptions s d')"
  "get_subscribed_dapps (removed_pair s d r) r' =
     (if r' = r then removeAll d (get_subscribed_dapps s r) else get_subscribed_dapps s r')"
  by (simp_all add: removed_pair_def get_dapp_subscriptions_um get_subscribed_dapps_um um_get_update)

lemma mgr_inv_registered_index:
  assumes "mgr_inv s" and "is_dapp_registered s d"
  shows "map_of (dapp_subscriptions s) d = Some (get_dapp_subscriptions s d)"
proof -
  have "d \<in> dom (map_of (dapp_subscriptions s))"
    using assms mgr_invD(6)[OF assms(1)] by (simp add: is_dapp_registered_iff)
  then show ?thesis by (auto simp: get_dapp_subscriptions_def)
qed

lemma add_not_registered:
  "\<not> is_dapp_registered s d \<Longrightarrow> add_subscription s d r = ((DAPP_NOT_REGISTERED, 0), s, [])"
  by (simp add: add_subscription_def is_dapp_registered_def)

lemma add_exists:
  assumes "mgr_inv s" and "r \<in> set (get_dapp_subscriptions s d)"
    and "map_of (subscription_id_reverse s) (make_sub_key d r) = Some i"
  shows "add_subscription s d r = ((SUBSCRIPTION_EXISTS, i), s, [])"
proof -
  have "is_dapp_registered s d"
    using assms mgr_inv_subscribed_registered by blast
  with assms show ?thesis
    using mgr_inv_registered_index[of s d]
    by (simp add: add_subscription_def is_dapp_registered_def um_index_def)
qed

lemma add_new:
  assumes "mgr_inv s" and "is_dapp_registered s d" and "r \<notin> set (get_dapp_subscriptions s d)"
  shows "add_subscription s d r = ((SUCCESS, next_subscription_id s), added s d r,
    (if get_subscribed_dapps s r = [] then check_sm_lifecycle (added s d r) r False else []))"
proof -
  have d: "map_of (dapp_subscriptions s) d = Some (get_dapp_subscriptions s d)"
    using assms mgr_inv_registered_index by blast
  have "d \<notin> set (get_subscribed_dapps s r)"
    using assms mgr_invD(12) by blast
  moreover have "next_id i = (if i + 1 > 100 then 1 else i + 1)" for i
    by (simp add: next_id_def MAX_DAPP_ID_def MIN_DAPP_ID_def)
  ultimately show ?thesis
    using assms d
    by (simp add: add_subscription_def is_dapp_registered_def um_index_def[of _ "dapp_subscriptions s"]
        added_def get_subscribed_dapps_um split_beta Let_def cong: if_cong)
qed

lemma remove_not_subscribed:
  "r \<notin> set (get_dapp_subscriptions s d)
     \<Longrightarrow> remove_subscription s d r = (SUBSCRIPTION_NOT_FOUND, s, [])"
  by (simp add: remove_subscription_def get_dapp_subscriptions_def split: option.splits)

lemma remove_subscribed:
  assumes "r \<in> set (get_dapp_subscriptions s d)"
  shows "remove_subscription s d r =
    (let s' = erase_subscription_id (removed_pair s d r) (make_sub_key d r)
     in (SUCCESS, s', if r \<in> sole_subscriber s d then check_sm_lifecycle s' r True else []))"
proof -
  obtain xs where "map_of (dapp_subscriptions s) d = Some xs" "get_dapp_subscriptions s d = xs"
    using assms by (cases "map_of (dapp_subscriptions s) d") (auto simp: get_dapp_subscriptions_def)
  moreover have "get_subscribed_dapps (s\<lparr>dapp_subscriptions := ds\<rparr>) r = get_subscribed_dapps s r" for ds
    by (simp add: get_subscribed_dapps_def)
  ultimately show ?thesis
    using assms by (simp add: remove_subscription_def erase_subscriber_eq removed_pair_def Let_def
        sole_subscriber_def)
qed

lemma remove_by_id_not_found:
  assumes "\<And>r. map_of (subscription_ids s) i \<noteq> Some (d, r)"
  shows "remove_subscription_by_id s d i = (SUBSCRIPTION_NOT_FOUND, s, [])"
  using assms by (auto simp: remove_subscription_by_id_def split: option.split)

text \<open>
  The state after a removal by identifier. The identifier may be stale (after \<^verbatim>\<open>clear\<close>), so the
  dApp need not have a subscription set.
\<close>

definition removed_by_id :: "SubscriptionManager \<Rightarrow> u32 \<Rightarrow> u32 \<Rightarrow> u32 \<Rightarrow> SubscriptionManager" where
  "removed_by_id s d r i =
     (let s1 = (if map_of (dapp_subscriptions s) d = None
                then s\<lparr>ran_function_subscribers :=
                         AList.update r (removeAll d (get_subscribed_dapps s r))
                           (snd (um_index [] (ran_function_subscribers s) r))\<rparr>
                else removed_pair s d r)
      in s1\<lparr>subscription_id_reverse := AList.delete (make_sub_key d r) (subscription_id_reverse s1),
            subscription_ids := AList.delete i (subscription_ids s1)\<rparr>)"

lemma remove_by_id_found:
  assumes "map_of (subscription_ids s) i = Some (d, r)"
  shows "remove_subscription_by_id s d i =
    (SUCCESS, removed_by_id s d r i,
     if r \<in> sole_subscriber s d then check_sm_lifecycle (removed_by_id s d r i) r True else [])"
proof -
  have "get_subscribed_dapps (s\<lparr>dapp_subscriptions := ds\<rparr>) r = get_subscribed_dapps s r" for ds
    by (simp add: get_subscribed_dapps_def)
  then show ?thesis
    using assms
    by (cases "map_of (dapp_subscriptions s) d")
      (simp_all add: remove_subscription_by_id_def erase_subscriber_eq removed_pair_def
        removed_by_id_def Let_def sole_subscriber_def get_dapp_subscriptions_def)
qed

lemma removed_by_id_frame [simp]:
  "registered_dapps (removed_by_id s d r i) = registered_dapps s"
  "sm_lifecycle_callback (removed_by_id s d r i) = sm_lifecycle_callback s"
  "next_dapp_id (removed_by_id s d r i) = next_dapp_id s"
  "next_subscription_id (removed_by_id s d r i) = next_subscription_id s"
  "dom (map_of (dapp_subscriptions (removed_by_id s d r i))) = dom (map_of (dapp_subscriptions s))"
  "map_of (subscription_ids (removed_by_id s d r i)) = (map_of (subscription_ids s))(i := None)"
  "map_of (subscription_id_reverse (removed_by_id s d r i)) =
     (map_of (subscription_id_reverse s))(make_sub_key d r := None)"
  "get_dapp_subscriptions (removed_by_id s d r i) d' =
     (if d' = d then removeAll r (get_dapp_subscriptions s d) else get_dapp_subscriptions s d')"
  "get_subscribed_dapps (removed_by_id s d r i) r' =
     (if r' = r then removeAll d (get_subscribed_dapps s r) else get_subscribed_dapps s r')"
  by (auto simp: removed_by_id_def removed_pair_def Let_def get_dapp_subscriptions_um
      get_subscribed_dapps_um um_get_update)

definition unregistered :: "SubscriptionManager \<Rightarrow> u32 \<Rightarrow> SubscriptionManager" where
  "unregistered s d =
     (let s1 = fst (unregister_loop d (get_dapp_subscriptions s d) s [])
      in s1\<lparr>dapp_subscriptions := AList.delete d (dapp_subscriptions s1),
            registered_dapps := AList.delete d (registered_dapps s1)\<rparr>)"

lemma unregistered_frame [simp]:
  "map_of (registered_dapps (unregistered s d)) = (map_of (registered_dapps s))(d := None)"
  "map_of (dapp_subscriptions (unregistered s d)) = (map_of (dapp_subscriptions s))(d := None)"
  "sm_lifecycle_callback (unregistered s d) = sm_lifecycle_callback s"
  "next_dapp_id (unregistered s d) = next_dapp_id s"
  "next_subscription_id (unregistered s d) = next_subscription_id s"
  "get_dapp_subscriptions (unregistered s d) d' =
     (if d' = d then [] else get_dapp_subscriptions s d')"
  by (simp_all add: unregistered_def Let_def get_dapp_subscriptions_def)

lemma unregistered_subscribers:
  assumes "mgr_inv s"
  shows "get_subscribed_dapps (unregistered s d) r = removeAll d (get_subscribed_dapps s r)"
proof -
  have "get_subscribed_dapps (unregistered s d) r =
      get_subscribed_dapps (fst (unregister_loop d (get_dapp_subscriptions s d) s [])) r"
    by (simp add: unregistered_def Let_def get_subscribed_dapps_def)
  also have "\<dots> = removeAll d (get_subscribed_dapps s r)"
    using mgr_invD(12)[OF assms, of r d] by (simp add: unregister_loop_subscribers)
  finally show ?thesis .
qed

lemma unregistered_reverse [simp]:
  "map_of (subscription_id_reverse (unregistered s d)) k =
     (if k \<in> make_sub_key d ` set (get_dapp_subscriptions s d) then None
      else map_of (subscription_id_reverse s) k)"
  by (simp add: unregistered_def Let_def unregister_loop_reverse)

lemma unregistered_ids [simp]:
  "map_of (subscription_ids (unregistered s d)) i =
     (if \<exists>r \<in> set (get_dapp_subscriptions s d).
          map_of (subscription_id_reverse s) (make_sub_key d r) = Some i
      then None else map_of (subscription_ids s) i)"
  by (simp add: unregistered_def Let_def unregister_loop_ids)

lemma unregister_not_registered:
  "\<not> is_dapp_registered s d \<Longrightarrow> unregister_dapp s d = (DAPP_NOT_REGISTERED, s, [])"
  by (simp add: unregister_dapp_def is_dapp_registered_def)

lemma unregister_registered:
  assumes "mgr_inv s" and "is_dapp_registered s d"
  shows "unregister_dapp s d = (SUCCESS, unregistered s d,
    concat (map (\<lambda>(r, b). check_sm_lifecycle (unregistered s d) r True)
      (snd (unregister_loop d (get_dapp_subscriptions s d) s []))))"
  using mgr_inv_registered_index[OF assms] assms(2)
  by (auto simp: unregister_dapp_def is_dapp_registered_def unregistered_def split_beta Let_def
      split: option.split)

text \<open>A dApp that is registered is entered with an empty subscription set.\<close>

definition registered_as :: "SubscriptionManager \<Rightarrow> u32 \<Rightarrow> u64 \<Rightarrow> SubscriptionManager" where
  "registered_as s a now = s\<lparr>registered_dapps :=
       AList.update a \<lparr>de_dapp_identifier = a, de_registered_time = now\<rparr> (registered_dapps s),
     dapp_subscriptions := AList.update a [] (dapp_subscriptions s),
     next_dapp_id := next_id a\<rparr>"

lemma register_dapp_cases:
  assumes "mgr_inv s"
  obtains (free) k a where "register_dapp s now = ((SUCCESS, a), registered_as s a now)"
      and "a = (next_id ^^ k) (next_dapp_id s)" and "k < 100"
      and "\<And>j. j < k \<Longrightarrow> is_dapp_registered s ((next_id ^^ j) (next_dapp_id s))"
      and "\<not> is_dapp_registered s a" and "id_range a"
    | (full) "register_dapp s now = ((INTERNAL_ERROR, 0), s)"
      and "\<And>d. id_range d \<Longrightarrow> is_dapp_registered s d"
proof -
  have i: "1 \<le> next_dapp_id s" "next_dapp_id s \<le> 100"
    using mgr_invD(8)[OF assms] by (simp_all add: id_range_def)
  show thesis
  proof (cases rule: find_dapp_id_cases[OF i, of "registered_dapps s"])
    case (1 k a n)
    have "register_dapp s now = ((SUCCESS, a), registered_as s a now)"
      using 1(1,2) by (simp add: register_dapp_def registered_as_def Let_def)
    then show thesis
      using 1 by (intro free[of a k]) (auto simp: is_dapp_registered_def id_range_def)
  next
    case (2 a n)
    then show thesis
      by (intro full) (auto simp: register_dapp_def is_dapp_registered_def id_range_def)
  qed
qed

lemma registered_as_frame [simp]:
  "map_of (registered_dapps (registered_as s a now)) =
     (map_of (registered_dapps s))(a \<mapsto> \<lparr>de_dapp_identifier = a, de_registered_time = now\<rparr>)"
  "map_of (dapp_subscriptions (registered_as s a now)) = (map_of (dapp_subscriptions s))(a \<mapsto> [])"
  "ran_function_subscribers (registered_as s a now) = ran_function_subscribers s"
  "subscription_ids (registered_as s a now) = subscription_ids s"
  "subscription_id_reverse (registered_as s a now) = subscription_id_reverse s"
  "sm_lifecycle_callback (registered_as s a now) = sm_lifecycle_callback s"
  "next_dapp_id (registered_as s a now) = next_id a"
  "next_subscription_id (registered_as s a now) = next_subscription_id s"
  "get_subscribed_dapps (registered_as s a now) r = get_subscribed_dapps s r"
  by (simp_all add: registered_as_def get_subscribed_dapps_def)

lemma registered_as_subscriptions:
  assumes "mgr_inv s" and "\<not> is_dapp_registered s a"
  shows "get_dapp_subscriptions (registered_as s a now) d = get_dapp_subscriptions s d"
proof -
  have "map_of (dapp_subscriptions s) a = None"
    using assms mgr_invD(6)[OF assms(1)] by (metis domIff is_dapp_registered_iff)
  then show ?thesis by (simp add: get_dapp_subscriptions_def)
qed

section \<open>Every operation keeps the invariant\<close>

lemma id_range_next_id: "id_range i \<Longrightarrow> id_range (next_id i)"
  using next_id_range by (simp add: id_range_def)

lemma mgr_inv_registered_as:
  assumes "mgr_inv s" and "\<not> is_dapp_registered s a" and "id_range a"
  shows "mgr_inv (registered_as s a now)"
proof -
  note D = mgr_invD[OF assms(1)]
  have wf: "um_wf (registered_dapps (registered_as s a now))"
    "um_wf (dapp_subscriptions (registered_as s a now))"
    using D(1,2) by (simp_all add: registered_as_def)
  show ?thesis
    unfolding mgr_inv_def
    using wf D assms(3) id_range_next_id registered_as_subscriptions[OF assms(1,2)]
    by (auto split: if_splits)
qed

lemma mgr_inv_added:
  assumes "mgr_inv s" and "is_dapp_registered s d" and "r \<notin> set (get_dapp_subscriptions s d)"
  shows "mgr_inv (added s d r)"
proof -
  note D = mgr_invD[OF assms(1)]
  have wf: "um_wf (dapp_subscriptions (added s d r))" "um_wf (ran_function_subscribers (added s d r))"
    "um_wf (subscription_ids (added s d r))" "um_wf (subscription_id_reverse (added s d r))"
    using D(2-5) by (simp_all add: added_def)
  have dom: "insert d (dom (map_of (registered_dapps s))) = dom (map_of (registered_dapps s))"
    using assms(2) by (auto simp: is_dapp_registered_iff)
  have "d \<notin> set (get_subscribed_dapps s r)" using assms(3) D(12) by blast
  then show ?thesis
    unfolding mgr_inv_def
    using wf D(1) D(6-13) assms(3) id_range_next_id dom by (auto simp: dom_def[symmetric])
qed

lemma mgr_inv_removed:
  assumes inv: "mgr_inv s" and r: "r \<in> set (get_dapp_subscriptions s d)"
  shows "mgr_inv (erase_subscription_id (removed_pair s d r) (make_sub_key d r))"
proof -
  note D = mgr_invD[OF inv]
  have reg: "is_dapp_registered s d" using inv r by (rule mgr_inv_subscribed_registered)
  then have dom: "insert d (dom (map_of (dapp_subscriptions s))) = dom (map_of (registered_dapps s))"
    using D(6) by (auto simp: is_dapp_registered_iff)
  have wf: "um_wf (dapp_subscriptions (removed_pair s d r))"
    "um_wf (ran_function_subscribers (removed_pair s d r))"
    using D(2,3) by (simp_all add: removed_pair_def)
  show ?thesis
    unfolding mgr_inv_def
    using wf D(1) D(4,5) D(7-13) dom by (auto simp: map_of_erase_subscription_id distinct_removeAll)
qed

lemma mgr_inv_removed_by_id:
  assumes inv: "mgr_inv s"
  shows "mgr_inv (removed_by_id s d r i)"
proof -
  note D = mgr_invD[OF inv]
  have wf: "um_wf (dapp_subscriptions (removed_by_id s d r i))"
    "um_wf (ran_function_subscribers (removed_by_id s d r i))"
    "um_wf (subscription_ids (removed_by_id s d r i))"
    "um_wf (subscription_id_reverse (removed_by_id s d r i))"
    using D(2-5) by (simp_all add: removed_by_id_def removed_pair_def Let_def)
  show ?thesis
    unfolding mgr_inv_def
    using wf D(1) D(6-13) by (auto simp: distinct_removeAll)
qed

lemma mgr_inv_unregistered:
  assumes inv: "mgr_inv s"
  shows "mgr_inv (unregistered s d)"
proof -
  note D = mgr_invD[OF inv]
  have wf: "um_wf (registered_dapps (unregistered s d))" "um_wf (dapp_subscriptions (unregistered s d))"
    "um_wf (ran_function_subscribers (unregistered s d))"
    "um_wf (subscription_ids (unregistered s d))"
    "um_wf (subscription_id_reverse (unregistered s d))"
    using D(1-5) by (simp_all add: unregistered_def Let_def)
  show ?thesis
    unfolding mgr_inv_def
    using wf D(6-13)
    by (auto simp: distinct_removeAll unregistered_subscribers[OF inv] split: if_splits)
qed

lemma mgr_inv_clear: "mgr_inv s \<Longrightarrow> mgr_inv (SubscriptionManager_clear s)"
  by (simp add: mgr_inv_def SubscriptionManager_clear_def get_dapp_subscriptions_def
      get_subscribed_dapps_def)

lemma mgr_inv_callback: "mgr_inv s \<Longrightarrow> mgr_inv (set_sm_lifecycle_callback s b)"
  by (simp add: mgr_inv_def set_sm_lifecycle_callback_def get_dapp_subscriptions_def
      get_subscribed_dapps_def)

lemma mgr_inv_add_subscription:
  assumes "mgr_inv s"
  shows "mgr_inv (fst (snd (add_subscription s d r)))"
proof (cases "is_dapp_registered s d")
  case False
  then show ?thesis using assms by (simp add: add_not_registered)
next
  case True
  show ?thesis
  proof (cases "r \<in> set (get_dapp_subscriptions s d)")
    case True
    then obtain i where "map_of (subscription_id_reverse s) (make_sub_key d r) = Some i"
      using mgr_invD(13)[OF assms] by blast
    with assms True show ?thesis by (simp add: add_exists)
  next
    case False
    with assms True show ?thesis by (simp add: add_new mgr_inv_added)
  qed
qed

lemma mgr_inv_register_dapp:
  assumes "mgr_inv s"
  shows "mgr_inv (snd (register_dapp s now))"
  using assms
  by (cases rule: register_dapp_cases[OF assms, where now = now])
    (simp_all add: mgr_inv_registered_as)

lemma mgr_inv_remove_subscription:
  "mgr_inv s \<Longrightarrow> mgr_inv (fst (snd (remove_subscription s d r)))"
  by (cases "r \<in> set (get_dapp_subscriptions s d)")
    (simp_all add: remove_not_subscribed remove_subscribed mgr_inv_removed Let_def)

lemma remove_by_id_cases:
  obtains (found) r where "map_of (subscription_ids s) i = Some (d, r)"
    | (missing) "remove_subscription_by_id s d i = (SUBSCRIPTION_NOT_FOUND, s, [])"
  using remove_by_id_not_found by metis

lemma mgr_inv_remove_by_id:
  "mgr_inv s \<Longrightarrow> mgr_inv (fst (snd (remove_subscription_by_id s d i)))"
  by (cases rule: remove_by_id_cases[of s i d])
    (simp_all add: remove_by_id_found mgr_inv_removed_by_id)

lemma mgr_inv_unregister_dapp: "mgr_inv s \<Longrightarrow> mgr_inv (fst (snd (unregister_dapp s d)))"
  by (cases "is_dapp_registered s d")
    (simp_all add: unregister_not_registered unregister_registered mgr_inv_unregistered)

lemmas mgr_inv_ops [e3_inv] = mgr_inv_add_subscription mgr_inv_register_dapp
  mgr_inv_remove_subscription mgr_inv_remove_by_id mgr_inv_unregister_dapp mgr_inv_clear
  mgr_inv_callback

subsection \<open>The identifier invariant\<close>

lemma ids_invD:
  assumes "ids_inv s"
  shows "\<And>i d r. map_of (subscription_ids s) i = Some (d, r) \<Longrightarrow>
      id_range i \<and> r \<in> set (get_dapp_subscriptions s d)
      \<and> map_of (subscription_id_reverse s) (make_sub_key d r) = Some i"
    and "\<And>k i. map_of (subscription_id_reverse s) k = Some i \<Longrightarrow>
      \<exists>d r. k = make_sub_key d r \<and> r \<in> set (get_dapp_subscriptions s d)"
  using assms unfolding ids_inv_def by blast+

lemma ids_invI:
  assumes "\<And>i d r. map_of (subscription_ids s) i = Some (d, r) \<Longrightarrow>
      id_range i \<and> r \<in> set (get_dapp_subscriptions s d)
      \<and> map_of (subscription_id_reverse s) (make_sub_key d r) = Some i"
    and "\<And>k i. map_of (subscription_id_reverse s) k = Some i \<Longrightarrow>
      \<exists>d r. k = make_sub_key d r \<and> r \<in> set (get_dapp_subscriptions s d)"
  shows "ids_inv s"
  using assms unfolding ids_inv_def by blast

lemma ids_inv_registered_as:
  assumes "mgr_inv s" and "ids_inv s" and "\<not> is_dapp_registered s a"
  shows "ids_inv (registered_as s a now)"
  using assms(2) by (simp add: ids_inv_def registered_as_subscriptions[OF assms(1,3)])

lemma ids_inv_added:
  assumes "mgr_inv s" and "ids_inv s" and "r \<notin> set (get_dapp_subscriptions s d)"
  shows "ids_inv (added s d r)"
proof -
  note D = mgr_invD[OF assms(1)] and I = ids_invD[OF assms(2)]
  show ?thesis
  proof (rule ids_invI)
    fix i d' r'
    assume "map_of (subscription_ids (added s d r)) i = Some (d', r')"
    then consider "i = next_subscription_id s" "d' = d" "r' = r"
      | "map_of (subscription_ids s) i = Some (d', r')"
      by (cases "i = next_subscription_id s") auto
    then show "id_range i \<and> r' \<in> set (get_dapp_subscriptions (added s d r) d') \<and>
        map_of (subscription_id_reverse (added s d r)) (make_sub_key d' r') = Some i"
      using D(9) I(1)[of i d' r'] assms(3) by cases auto
  next
    fix k i
    assume "map_of (subscription_id_reverse (added s d r)) k = Some i"
    then consider "k = make_sub_key d r" | "map_of (subscription_id_reverse s) k = Some i"
      by (cases "k = make_sub_key d r") auto
    then show "\<exists>d' r'. k = make_sub_key d' r' \<and> r' \<in> set (get_dapp_subscriptions (added s d r) d')"
    proof cases
      case 1
      then show ?thesis by - (rule exI[of _ d], rule exI[of _ r], simp)
    next
      case 2
      then obtain d' r' where "k = make_sub_key d' r'" "r' \<in> set (get_dapp_subscriptions s d')"
        using I(2) by blast
      then show ?thesis by - (rule exI[of _ d'], rule exI[of _ r'], auto)
    qed
  qed
qed

lemma ids_inv_erased:
  assumes inv: "ids_inv s"
    and rev: "\<And>k. map_of (subscription_id_reverse s') k =
      (if k \<in> K then None else map_of (subscription_id_reverse s) k)"
    and ids: "\<And>i p. map_of (subscription_ids s') i = Some p \<Longrightarrow>
      map_of (subscription_ids s) i = Some p \<and> make_sub_key (fst p) (snd p) \<notin> K"
    and subs: "\<And>d r. make_sub_key d r \<notin> K \<Longrightarrow> r \<in> set (get_dapp_subscriptions s d) \<Longrightarrow>
      r \<in> set (get_dapp_subscriptions s' d)"
  shows "ids_inv s'"
proof (rule ids_invI)
  note I = ids_invD[OF inv]
  fix i d r
  assume "map_of (subscription_ids s') i = Some (d, r)"
  then have "map_of (subscription_ids s) i = Some (d, r)" "make_sub_key d r \<notin> K"
    using ids by force+
  then show "id_range i \<and> r \<in> set (get_dapp_subscriptions s' d) \<and>
      map_of (subscription_id_reverse s') (make_sub_key d r) = Some i"
    using I(1) subs rev by simp
next
  note I = ids_invD[OF inv]
  fix k i
  assume "map_of (subscription_id_reverse s') k = Some i"
  then have "k \<notin> K" "map_of (subscription_id_reverse s) k = Some i"
    using rev by (auto split: if_splits)
  then show "\<exists>d r. k = make_sub_key d r \<and> r \<in> set (get_dapp_subscriptions s' d)"
    using I(2) subs by blast
qed

lemma ids_inv_removed:
  assumes "ids_inv s" and "r \<in> set (get_dapp_subscriptions s d)"
  shows "ids_inv (erase_subscription_id (removed_pair s d r) (make_sub_key d r))"
  using assms(1)
  by (rule ids_inv_erased[where K = "{make_sub_key d r}"])
    (auto simp: map_of_erase_subscription_id dest: ids_invD(1)[OF assms(1)] split: if_splits)

lemma ids_inv_removed_by_id:
  assumes inv: "ids_inv s" and i: "map_of (subscription_ids s) i = Some (d, r)"
  shows "ids_inv (removed_by_id s d r i)"
  using inv
proof (rule ids_inv_erased[where K = "{make_sub_key d r}"])
  fix j p
  assume j: "map_of (subscription_ids (removed_by_id s d r i)) j = Some p"
  obtain d' r' where p: "p = (d', r')" by fastforce
  have "j \<noteq> i" "map_of (subscription_ids s) j = Some (d', r')"
    using j p by (auto split: if_splits)
  moreover have "make_sub_key d' r' \<noteq> make_sub_key d r"
  proof
    assume eq: "make_sub_key d' r' = make_sub_key d r"
    have "map_of (subscription_id_reverse s) (make_sub_key d r) = Some i"
      using ids_invD(1)[OF inv i] by simp
    moreover have "map_of (subscription_id_reverse s) (make_sub_key d' r') = Some j"
      using ids_invD(1)[OF inv] \<open>map_of (subscription_ids s) j = Some (d', r')\<close> by blast
    ultimately show False using eq \<open>j \<noteq> i\<close> by simp
  qed
  ultimately show "map_of (subscription_ids s) j = Some p
      \<and> make_sub_key (fst p) (snd p) \<notin> {make_sub_key d r}"
    using p by simp
qed auto

lemma ids_inv_unregistered:
  assumes inv: "ids_inv s"
  shows "ids_inv (unregistered s d)"
  using inv
proof (rule ids_inv_erased[where K = "make_sub_key d ` set (get_dapp_subscriptions s d)"])
  fix i p
  assume i: "map_of (subscription_ids (unregistered s d)) i = Some p"
  obtain d' r' where p: "p = (d', r')" by fastforce
  have i': "map_of (subscription_ids s) i = Some (d', r')"
    and no: "\<not> (\<exists>r \<in> set (get_dapp_subscriptions s d).
      map_of (subscription_id_reverse s) (make_sub_key d r) = Some i)"
    using i p by (auto split: if_splits)
  have "map_of (subscription_id_reverse s) (make_sub_key d' r') = Some i"
    using ids_invD(1)[OF inv i'] by simp
  with no have "make_sub_key d' r' \<notin> make_sub_key d ` set (get_dapp_subscriptions s d)"
    by auto
  with p i' show "map_of (subscription_ids s) i = Some p \<and>
      make_sub_key (fst p) (snd p) \<notin> make_sub_key d ` set (get_dapp_subscriptions s d)"
    by simp
qed auto

lemma ids_inv_add_subscription:
  assumes "mgr_inv s" and "ids_inv s"
  shows "ids_inv (fst (snd (add_subscription s d r)))"
proof (cases "is_dapp_registered s d \<and> r \<notin> set (get_dapp_subscriptions s d)")
  case True
  then show ?thesis using assms by (simp add: add_new ids_inv_added)
next
  case False
  then show ?thesis
    using assms add_not_registered add_exists mgr_invD(13)[OF assms(1)] by fastforce
qed

lemma ids_inv_register_dapp:
  assumes "mgr_inv s" and "ids_inv s"
  shows "ids_inv (snd (register_dapp s now))"
  using assms
  by (cases rule: register_dapp_cases[OF assms(1), where now = now])
    (simp_all add: ids_inv_registered_as)

lemma ids_inv_remove_subscription:
  "ids_inv s \<Longrightarrow> ids_inv (fst (snd (remove_subscription s d r)))"
  by (cases "r \<in> set (get_dapp_subscriptions s d)")
    (simp_all add: remove_not_subscribed remove_subscribed ids_inv_removed Let_def)

lemma ids_inv_remove_by_id:
  "ids_inv s \<Longrightarrow> ids_inv (fst (snd (remove_subscription_by_id s d i)))"
  by (cases rule: remove_by_id_cases[of s i d])
    (simp_all add: remove_by_id_found ids_inv_removed_by_id)

lemma ids_inv_unregister_dapp:
  "mgr_inv s \<Longrightarrow> ids_inv s \<Longrightarrow> ids_inv (fst (snd (unregister_dapp s d)))"
  by (cases "is_dapp_registered s d")
    (simp_all add: unregister_not_registered unregister_registered ids_inv_unregistered)

lemma ids_inv_callback: "ids_inv s \<Longrightarrow> ids_inv (set_sm_lifecycle_callback s b)"
  by (simp add: ids_inv_def set_sm_lifecycle_callback_def get_dapp_subscriptions_def)

lemmas ids_inv_ops [e3_inv] = ids_inv_add_subscription ids_inv_register_dapp
  ids_inv_remove_subscription ids_inv_remove_by_id ids_inv_unregister_dapp ids_inv_callback

section \<open>Sequences of operations\<close>

datatype sm_op =
    Op_register u64
  | Op_unregister u32
  | Op_add u32 u32
  | Op_remove u32 u32
  | Op_remove_by_id u32 u32
  | Op_clear

text \<open>One public operation that changes the manager: the result code (SUCCESS for \<^verbatim>\<open>clear\<close>, which returns
  nothing), the returned identifier (0 where the operation returns none), the new state and the calls
  of the lifecycle callback.\<close>

fun sm_step :: "SubscriptionManager \<Rightarrow> sm_op
    \<Rightarrow> ErrorCode \<times> u32 \<times> SubscriptionManager \<times> lifecycle_event list" where
  "sm_step s (Op_register now) =
     (let ((ec, i), s') = register_dapp s now in (ec, i, s', []))"
| "sm_step s (Op_unregister d) =
     (let (ec, s', ev) = unregister_dapp s d in (ec, 0, s', ev))"
| "sm_step s (Op_add d r) =
     (let ((ec, i), s', ev) = add_subscription s d r in (ec, i, s', ev))"
| "sm_step s (Op_remove d r) =
     (let (ec, s', ev) = remove_subscription s d r in (ec, 0, s', ev))"
| "sm_step s (Op_remove_by_id d i) =
     (let (ec, s', ev) = remove_subscription_by_id s d i in (ec, 0, s', ev))"
| "sm_step s Op_clear = (SUCCESS, 0, SubscriptionManager_clear s, [])"

definition sm_next :: "SubscriptionManager \<Rightarrow> sm_op \<Rightarrow> SubscriptionManager" where
  "sm_next s op = fst (snd (snd (sm_step s op)))"

definition sm_events :: "SubscriptionManager \<Rightarrow> sm_op \<Rightarrow> lifecycle_event list" where
  "sm_events s op = snd (snd (snd (sm_step s op)))"

fun sm_run :: "SubscriptionManager \<Rightarrow> sm_op list \<Rightarrow> SubscriptionManager \<times> lifecycle_event list" where
  "sm_run s [] = (s, [])"
| "sm_run s (op # ops) =
     (let (s', evs) = sm_run (sm_next s op) ops in (s', sm_events s op @ evs))"

text \<open>The results that the operations of a run return.\<close>

fun sm_results :: "SubscriptionManager \<Rightarrow> sm_op list \<Rightarrow> (ErrorCode \<times> u32) list" where
  "sm_results s [] = []"
| "sm_results s (op # ops) =
     (fst (sm_step s op), fst (snd (sm_step s op))) # sm_results (sm_next s op) ops"

lemma sm_next_simps [simp]:
  "sm_next s (Op_register now) = snd (register_dapp s now)"
  "sm_next s (Op_unregister d) = fst (snd (unregister_dapp s d))"
  "sm_next s (Op_add d r) = fst (snd (add_subscription s d r))"
  "sm_next s (Op_remove d r) = fst (snd (remove_subscription s d r))"
  "sm_next s (Op_remove_by_id d i) = fst (snd (remove_subscription_by_id s d i))"
  "sm_next s Op_clear = SubscriptionManager_clear s"
  by (simp_all add: sm_next_def split_beta Let_def)

lemma sm_events_simps [simp]:
  "sm_events s (Op_register now) = []"
  "sm_events s (Op_unregister d) = snd (snd (unregister_dapp s d))"
  "sm_events s (Op_add d r) = snd (snd (add_subscription s d r))"
  "sm_events s (Op_remove d r) = snd (snd (remove_subscription s d r))"
  "sm_events s (Op_remove_by_id d i) = snd (snd (remove_subscription_by_id s d i))"
  "sm_events s Op_clear = []"
  by (simp_all add: sm_events_def split_beta Let_def)

definition sm_good :: "SubscriptionManager \<Rightarrow> bool" where
  "sm_good s \<longleftrightarrow> mgr_inv s \<and> ids_inv s"

lemma mgr_inv_next [e3_inv]: "mgr_inv s \<Longrightarrow> mgr_inv (sm_next s op)"
  by (cases op) (simp_all add: e3_inv)

lemma ids_inv_next: "mgr_inv s \<Longrightarrow> ids_inv s \<Longrightarrow> op \<noteq> Op_clear \<Longrightarrow> ids_inv (sm_next s op)"
  by (cases op) (simp_all add: e3_inv)

text \<open>\<^verbatim>\<open>clear\<close> keeps the identifiers of the subscriptions it forgets, so it keeps the first invariant only.\<close>

lemma sm_good_next [e3_inv]: "sm_good s \<Longrightarrow> op \<noteq> Op_clear \<Longrightarrow> sm_good (sm_next s op)"
  by (simp add: sm_good_def mgr_inv_next ids_inv_next)

lemma sm_good_run: "sm_good s \<Longrightarrow> Op_clear \<notin> set ops \<Longrightarrow> sm_good (fst (sm_run s ops))"
  by (induction ops arbitrary: s) (auto simp: split_beta Let_def sm_good_next)

lemma mgr_inv_run: "mgr_inv s \<Longrightarrow> mgr_inv (fst (sm_run s ops))"
  by (induction ops arbitrary: s) (auto simp: split_beta Let_def mgr_inv_next)

lemma sm_good_new: "sm_good (set_sm_lifecycle_callback new_SubscriptionManager b)"
  by (simp add: sm_good_def e3_inv)

lemma sm_good_new': "sm_good new_SubscriptionManager"
  by (simp add: sm_good_def e3_inv)

subsection \<open>The abstract relation\<close>

text \<open>
  The registered dApps and the relation between dApps and RAN functions, as the queries show them.
\<close>

record sub_spec =
  spec_registered :: "u32 set"
  spec_subs :: "(u32 \<times> u32) set"

definition sub_abs :: "SubscriptionManager \<Rightarrow> sub_spec" where
  "sub_abs s = \<lparr>spec_registered = {d. is_dapp_registered s d},
     spec_subs = {(d, r). is_subscribed s d r}\<rparr>"

lemma sub_abs_sel [simp]:
  "spec_registered (sub_abs s) = {d. is_dapp_registered s d}"
  "spec_subs (sub_abs s) = {(d, r). r \<in> set (get_dapp_subscriptions s d)}"
  by (simp_all add: sub_abs_def is_subscribed_iff)

lemma sub_abs_eqI:
  assumes "\<And>d. is_dapp_registered s d \<longleftrightarrow> d \<in> spec_registered A"
    and "\<And>d r. r \<in> set (get_dapp_subscriptions s d) \<longleftrightarrow> (d, r) \<in> spec_subs A"
  shows "sub_abs s = A"
  using assms by (cases A) (auto simp: sub_abs_def is_subscribed_iff)

text \<open>
  What the manager promises, over an abstract state without indexes: the registered dApps, the
  subscriptions, the subscription each identifier was last given to (\<open>ms_owner\<close>), the identifier each
  pair of a dApp and a RAN function was last given (\<open>ms_ids\<close>) and the identifier the next subscription
  gets. Only the choice among the free dApp identifiers is left open. A deletion by identifier deletes
  the subscription the identifier belongs to if that is one of the dApp, and fails otherwise; \<^verbatim>\<open>clear\<close>
  forgets dApps and subscriptions but no identifier.
\<close>

record mgr_spec =
  ms_dapps :: "u32 set"
  ms_subs :: "(u32 \<times> u32) set"
  ms_owner :: "u32 \<rightharpoonup> u32 \<times> u32"
  ms_ids :: "u32 \<times> u32 \<rightharpoonup> u32"
  ms_next :: u32

definition mgr_abs :: "SubscriptionManager \<Rightarrow> mgr_spec" where
  "mgr_abs s = \<lparr>ms_dapps = {d. is_dapp_registered s d}, ms_subs = {(d, r). is_subscribed s d r},
     ms_owner = map_of (subscription_ids s),
     ms_ids = (\<lambda>(d, r). map_of (subscription_id_reverse s) (make_sub_key d r)),
     ms_next = next_subscription_id s\<rparr>"

definition forget_id :: "mgr_spec \<Rightarrow> u32 \<times> u32 \<Rightarrow> u32 \<rightharpoonup> u32 \<times> u32" where
  "forget_id A p = (\<lambda>i. if ms_ids A p = Some i then None else ms_owner A i)"

inductive spec_step :: "mgr_spec \<Rightarrow> sm_op \<Rightarrow> ErrorCode \<Rightarrow> u32 \<Rightarrow> mgr_spec \<Rightarrow> bool" where
  register_ok: "a \<notin> ms_dapps A \<Longrightarrow> id_range a \<Longrightarrow>
     spec_step A (Op_register now) SUCCESS a (A\<lparr>ms_dapps := insert a (ms_dapps A)\<rparr>)"
| register_full: "{d. id_range d} \<subseteq> ms_dapps A \<Longrightarrow> spec_step A (Op_register now) INTERNAL_ERROR 0 A"
| unregister_ok: "d \<in> ms_dapps A \<Longrightarrow>
     spec_step A (Op_unregister d) SUCCESS 0
       (A\<lparr>ms_dapps := ms_dapps A - {d}, ms_subs := ms_subs A - {d} \<times> UNIV,
          ms_owner := (\<lambda>i. if \<exists>r. (d, r) \<in> ms_subs A \<and> ms_ids A (d, r) = Some i then None else ms_owner A i),
          ms_ids := (\<lambda>p. if fst p = d \<and> p \<in> ms_subs A then None else ms_ids A p)\<rparr>)"
| unregister_err: "d \<notin> ms_dapps A \<Longrightarrow> spec_step A (Op_unregister d) DAPP_NOT_REGISTERED 0 A"
| add_ok: "d \<in> ms_dapps A \<Longrightarrow> (d, r) \<notin> ms_subs A \<Longrightarrow> i = ms_next A \<Longrightarrow>
     spec_step A (Op_add d r) SUCCESS i
       (A\<lparr>ms_subs := insert (d, r) (ms_subs A), ms_owner := (ms_owner A)(i \<mapsto> (d, r)),
          ms_ids := (ms_ids A)((d, r) \<mapsto> i), ms_next := next_id i\<rparr>)"
| add_again: "(d, r) \<in> ms_subs A \<Longrightarrow> ms_ids A (d, r) = Some i \<Longrightarrow>
     spec_step A (Op_add d r) SUBSCRIPTION_EXISTS i A"
| add_err: "d \<notin> ms_dapps A \<Longrightarrow> spec_step A (Op_add d r) DAPP_NOT_REGISTERED 0 A"
| remove_ok: "(d, r) \<in> ms_subs A \<Longrightarrow>
     spec_step A (Op_remove d r) SUCCESS 0
       (A\<lparr>ms_subs := ms_subs A - {(d, r)}, ms_owner := forget_id A (d, r), ms_ids := (ms_ids A)((d, r) := None)\<rparr>)"
| remove_err: "(d, r) \<notin> ms_subs A \<Longrightarrow> spec_step A (Op_remove d r) SUBSCRIPTION_NOT_FOUND 0 A"
| remove_id_ok: "ms_owner A i = Some (d, r) \<Longrightarrow>
     spec_step A (Op_remove_by_id d i) SUCCESS 0
       (A\<lparr>ms_subs := ms_subs A - {(d, r)}, ms_owner := (ms_owner A)(i := None),
          ms_ids := (ms_ids A)((d, r) := None)\<rparr>)"
| remove_id_err: "(\<And>r. ms_owner A i \<noteq> Some (d, r)) \<Longrightarrow>
     spec_step A (Op_remove_by_id d i) SUBSCRIPTION_NOT_FOUND 0 A"
| clear: "spec_step A Op_clear SUCCESS 0 (A\<lparr>ms_dapps := {}, ms_subs := {}\<rparr>)"

lemma mgr_abs_sel [simp]:
  "ms_dapps (mgr_abs s) = {d. is_dapp_registered s d}"
  "ms_subs (mgr_abs s) = {(d, r). r \<in> set (get_dapp_subscriptions s d)}"
  "ms_owner (mgr_abs s) = map_of (subscription_ids s)"
  "ms_ids (mgr_abs s) p = map_of (subscription_id_reverse s) (make_sub_key (fst p) (snd p))"
  "ms_next (mgr_abs s) = next_subscription_id s"
  by (simp_all add: mgr_abs_def is_subscribed_iff split_beta)

lemma mgr_abs_eqI:
  assumes "\<And>d. is_dapp_registered s d \<longleftrightarrow> d \<in> ms_dapps A"
    and "\<And>d r. r \<in> set (get_dapp_subscriptions s d) \<longleftrightarrow> (d, r) \<in> ms_subs A"
    and "\<And>i. map_of (subscription_ids s) i = ms_owner A i"
    and "\<And>d r. map_of (subscription_id_reverse s) (make_sub_key d r) = ms_ids A (d, r)"
    and "next_subscription_id s = ms_next A"
  shows "mgr_abs s = A"
  using assms by (cases A) (auto simp: mgr_abs_def is_subscribed_iff fun_eq_iff)

lemma refine_register:
  assumes "mgr_inv s"
  shows "spec_step (mgr_abs s) (Op_register now) (fst (fst (register_dapp s now)))
     (snd (fst (register_dapp s now))) (mgr_abs (snd (register_dapp s now)))"
  using assms
proof (cases rule: register_dapp_cases[OF assms, where now = now])
  case (1 k a)
  have "mgr_abs (registered_as s a now) = (mgr_abs s)\<lparr>ms_dapps := insert a (ms_dapps (mgr_abs s))\<rparr>"
    using registered_as_subscriptions[OF assms 1(5)]
    by (intro mgr_abs_eqI) (auto simp: is_dapp_registered_def)
  then show ?thesis using 1 spec_step.register_ok[of a "mgr_abs s" now] by simp
next
  case 2
  then show ?thesis by (auto intro!: spec_step.register_full)
qed

lemma refine_unregister:
  assumes "mgr_inv s"
  shows "spec_step (mgr_abs s) (Op_unregister d) (fst (unregister_dapp s d)) 0
     (mgr_abs (fst (snd (unregister_dapp s d))))"
proof (cases "is_dapp_registered s d")
  case True
  let ?A = "mgr_abs s"
  have "mgr_abs (unregistered s d) = ?A\<lparr>ms_dapps := ms_dapps ?A - {d}, ms_subs := ms_subs ?A - {d} \<times> UNIV,
      ms_owner := (\<lambda>i. if \<exists>r. (d, r) \<in> ms_subs ?A \<and> ms_ids ?A (d, r) = Some i then None else ms_owner ?A i),
      ms_ids := (\<lambda>p. if fst p = d \<and> p \<in> ms_subs ?A then None else ms_ids ?A p)\<rparr>"
    by (intro mgr_abs_eqI) (auto simp: is_dapp_registered_def)
  then show ?thesis
    using True assms spec_step.unregister_ok[of d "mgr_abs s"] by (simp add: unregister_registered)
next
  case False
  then show ?thesis by (auto simp: unregister_not_registered intro!: spec_step.unregister_err)
qed

lemma refine_add:
  assumes "mgr_inv s"
  shows "spec_step (mgr_abs s) (Op_add d r) (fst (fst (add_subscription s d r)))
     (snd (fst (add_subscription s d r))) (mgr_abs (fst (snd (add_subscription s d r))))"
proof (cases "is_dapp_registered s d")
  case False
  then show ?thesis by (auto simp: add_not_registered intro!: spec_step.add_err)
next
  case reg: True
  show ?thesis
  proof (cases "r \<in> set (get_dapp_subscriptions s d)")
    case True
    then obtain i where i: "map_of (subscription_id_reverse s) (make_sub_key d r) = Some i"
      using mgr_invD(13)[OF assms] by blast
    show ?thesis using True i add_exists[OF assms True i] by (auto intro!: spec_step.add_again)
  next
    case False
    let ?A = "mgr_abs s" and ?i = "next_subscription_id s"
    have "mgr_abs (added s d r) = ?A\<lparr>ms_subs := insert (d, r) (ms_subs ?A),
        ms_owner := (ms_owner ?A)(?i \<mapsto> (d, r)), ms_ids := (ms_ids ?A)((d, r) \<mapsto> ?i), ms_next := next_id ?i\<rparr>"
      by (intro mgr_abs_eqI) (auto simp: is_dapp_registered_def)
    then show ?thesis
      using reg False assms spec_step.add_ok[of d ?A r ?i] by (simp add: add_new)
  qed
qed

lemma refine_remove:
  "spec_step (mgr_abs s) (Op_remove d r) (fst (remove_subscription s d r)) 0
     (mgr_abs (fst (snd (remove_subscription s d r))))"
proof (cases "r \<in> set (get_dapp_subscriptions s d)")
  case True
  let ?A = "mgr_abs s"
  have "mgr_abs (erase_subscription_id (removed_pair s d r) (make_sub_key d r))
      = ?A\<lparr>ms_subs := ms_subs ?A - {(d, r)}, ms_owner := forget_id ?A (d, r), ms_ids := (ms_ids ?A)((d, r) := None)\<rparr>"
    by (intro mgr_abs_eqI) (auto simp: is_dapp_registered_def map_of_erase_subscription_id forget_id_def)
  then show ?thesis
    using True spec_step.remove_ok[of d r ?A] by (simp add: remove_subscribed Let_def)
next
  case False
  then show ?thesis by (auto simp: remove_not_subscribed intro!: spec_step.remove_err)
qed

lemma refine_remove_by_id:
  "spec_step (mgr_abs s) (Op_remove_by_id d i) (fst (remove_subscription_by_id s d i)) 0
     (mgr_abs (fst (snd (remove_subscription_by_id s d i))))"
proof (cases "\<exists>r. map_of (subscription_ids s) i = Some (d, r)")
  case True
  then obtain r where found: "map_of (subscription_ids s) i = Some (d, r)" by blast
  let ?A = "mgr_abs s"
  have "mgr_abs (removed_by_id s d r i) = ?A\<lparr>ms_subs := ms_subs ?A - {(d, r)},
      ms_owner := (ms_owner ?A)(i := None), ms_ids := (ms_ids ?A)((d, r) := None)\<rparr>"
    by (intro mgr_abs_eqI) (auto simp: is_dapp_registered_def)
  then show ?thesis
    using found spec_step.remove_id_ok[of ?A i d r] by (simp add: remove_by_id_found[OF found])
next
  case False
  then have none: "\<And>r. map_of (subscription_ids s) i \<noteq> Some (d, r)" by blast
  show ?thesis
    using spec_step.remove_id_err[of "mgr_abs s" i d] none by (simp add: remove_by_id_not_found[OF none])
qed

lemma refine_clear: "spec_step (mgr_abs s) Op_clear SUCCESS 0 (mgr_abs (SubscriptionManager_clear s))"
proof -
  have "mgr_abs (SubscriptionManager_clear s) = (mgr_abs s)\<lparr>ms_dapps := {}, ms_subs := {}\<rparr>"
    by (intro mgr_abs_eqI)
      (simp_all add: SubscriptionManager_clear_def is_dapp_registered_def get_dapp_subscriptions_def)
  then show ?thesis using spec_step.clear[of "mgr_abs s"] by simp
qed

subsection \<open>Calls of the lifecycle callback\<close>

text \<open>
  Replaying the calls on a set of running RAN functions. A call that starts a running function or
  stops one that is not running has no result.
\<close>

fun replay :: "u32 set \<Rightarrow> lifecycle_event list \<Rightarrow> u32 set option" where
  "replay R [] = Some R"
| "replay R ((r, True) # evs) = (if r \<in> R then None else replay (insert r R) evs)"
| "replay R ((r, False) # evs) = (if r \<in> R then replay (R - {r}) evs else None)"

definition active :: "SubscriptionManager \<Rightarrow> u32 set" where
  "active s = {r. has_subscribers s r}"

lemma active_iff [simp]: "r \<in> active s \<longleftrightarrow> get_subscribed_dapps s r \<noteq> []"
  by (simp add: active_def has_subscribers_iff)

lemma active_list:
  assumes "um_wf (ran_function_subscribers s)"
  shows "set (get_active_ran_functions s) = active s"
proof -
  have "r \<in> set (get_active_ran_functions s) \<longleftrightarrow> r \<in> active s" for r
  proof -
    have "r \<in> set (get_active_ran_functions s) \<longleftrightarrow>
        (\<exists>ds. (r, ds) \<in> set (ran_function_subscribers s) \<and> ds \<noteq> [])"
      by (force simp: get_active_ran_functions_def)
    also have "\<dots> \<longleftrightarrow> (\<exists>ds. map_of (ran_function_subscribers s) r = Some ds \<and> ds \<noteq> [])"
      using assms by (simp add: um_wf_def)
    also have "\<dots> \<longleftrightarrow> r \<in> active s"
      by (auto simp: get_subscribed_dapps_def split: option.split)
    finally show ?thesis .
  qed
  then show ?thesis by blast
qed

lemma replay_append: "replay R (xs @ ys) = Option.bind (replay R xs) (\<lambda>R'. replay R' ys)"
  by (induction R xs rule: replay.induct) auto

lemma replay_stops:
  "distinct rs \<Longrightarrow> set rs \<subseteq> R \<Longrightarrow> replay R (map (\<lambda>r. (r, False)) rs) = Some (R - set rs)"
proof (induction rs arbitrary: R)
  case Nil
  then show ?case by simp
next
  case (Cons r rs)
  have "replay (R - {r}) (map (\<lambda>r. (r, False)) rs) = Some (R - {r} - set rs)"
    using Cons.prems by (intro Cons.IH) auto
  moreover have "R - {r} - set rs = R - set (r # rs)" by auto
  ultimately show ?case using Cons.prems by simp
qed

lemma check_start: "sm_lifecycle_callback s \<Longrightarrow> r \<in> active s \<Longrightarrow> check_sm_lifecycle s r False = [(r, True)]"
  by (simp add: check_sm_lifecycle_def has_subscribers_iff)

lemma check_stop: "sm_lifecycle_callback s \<Longrightarrow> r \<notin> active s \<Longrightarrow> check_sm_lifecycle s r True = [(r, False)]"
  by (simp add: check_sm_lifecycle_def has_subscribers_iff)

lemma sole_subscriber_active: "sole_subscriber s d \<subseteq> active s"
  by (auto simp: sole_subscriber_def)

lemma unregister_loop_distinct:
  assumes "distinct rs" and "distinct aff" and "fst ` set aff \<inter> set rs = {}"
  shows "distinct (snd (unregister_loop d rs s aff))"
  using assms
proof (induction rs arbitrary: s aff)
  case Nil
  then show ?case by simp
next
  case (Cons r rs)
  then have "distinct (snd (unregister_loop d rs s' aff'))"
    if "aff' = aff \<or> aff' = aff @ [(r, False)]" for s' aff'
    using that by (intro Cons.IH) force+
  then show ?case by (simp add: erase_subscriber_eq Let_def)
qed

lemma unregister_affected_list:
  assumes "mgr_inv s"
  shows "\<exists>rs. distinct rs \<and> set rs = sole_subscriber s d
    \<and> snd (unregister_loop d (get_dapp_subscriptions s d) s []) = map (\<lambda>r. (r, False)) rs"
proof -
  define aff where "aff = snd (unregister_loop d (get_dapp_subscriptions s d) s [])"
  have "sole_subscriber s d \<subseteq> set (get_dapp_subscriptions s d)"
    using mgr_invD(12)[OF assms] by (auto simp: sole_subscriber_def filter_empty_conv removeAll_filter_not_eq)
      (metis last_in_set)
  then have set: "set aff = (\<lambda>r. (r, False)) ` sole_subscriber s d"
    unfolding aff_def by (auto simp: unregister_loop_affected)
  have "distinct aff"
    unfolding aff_def using mgr_invD(10)[OF assms] by (intro unregister_loop_distinct) auto
  moreover have eq: "aff = map (\<lambda>r. (r, False)) (map fst aff)"
  proof -
    have "x = (fst x, False)" if "x \<in> set aff" for x
      using that set by auto
    then show ?thesis by (simp add: map_idI)
  qed
  ultimately have "distinct (map fst aff)"
    by (metis distinct_map)
  moreover have "set (map fst aff) = sole_subscriber s d"
    using set by (simp add: image_image)
  ultimately show ?thesis using eq aff_def by metis
qed

lemma lifecycle_unregister:
  assumes "mgr_inv s" and cb: "sm_lifecycle_callback s"
  shows "replay (active s) (snd (snd (unregister_dapp s d)))
    = Some (active (fst (snd (unregister_dapp s d))))"
proof (cases "is_dapp_registered s d")
  case False
  then show ?thesis by (simp add: unregister_not_registered)
next
  case True
  obtain rs where rs: "distinct rs" "set rs = sole_subscriber s d"
      "snd (unregister_loop d (get_dapp_subscriptions s d) s []) = map (\<lambda>r. (r, False)) rs"
    using unregister_affected_list[OF assms(1)] by blast
  have act: "active (unregistered s d) = active s - set rs"
    by (auto simp: unregistered_subscribers[OF assms(1)] rs(2) sole_subscriber_def)
  have "check_sm_lifecycle (unregistered s d) r True = [(r, False)]" if "r \<in> set rs" for r
    using that act cb by (intro check_stop) auto
  then have "snd (snd (unregister_dapp s d)) = map (\<lambda>r. (r, False)) rs"
    using True assms(1) by (simp add: unregister_registered rs(3) comp_def concat_map_single)
  then show ?thesis
    using True assms(1) rs act sole_subscriber_active
    by (simp add: unregister_registered replay_stops)
qed

lemma lifecycle_add:
  assumes "mgr_inv s" and cb: "sm_lifecycle_callback s"
  shows "replay (active s) (snd (snd (add_subscription s d r)))
    = Some (active (fst (snd (add_subscription s d r))))"
proof (cases "is_dapp_registered s d \<and> r \<notin> set (get_dapp_subscriptions s d)")
  case True
  have act: "active (added s d r) = insert r (active s)" by (auto split: if_splits)
  show ?thesis
  proof (cases "get_subscribed_dapps s r = []")
    case True
    have "check_sm_lifecycle (added s d r) r False = [(r, True)]"
      using cb by (intro check_start) auto
    then show ?thesis
      using \<open>is_dapp_registered s d \<and> r \<notin> set (get_dapp_subscriptions s d)\<close> assms(1) True act
      by (simp add: add_new)
  next
    case False
    then show ?thesis
      using \<open>is_dapp_registered s d \<and> r \<notin> set (get_dapp_subscriptions s d)\<close> assms(1) act
      by (auto simp: add_new insert_absorb)
  qed
next
  case False
  then show ?thesis
    using assms(1) add_not_registered add_exists mgr_invD(13)[OF assms(1)] by fastforce
qed

text \<open>Both removals end with the same test, on states that agree on the subscriber sets.\<close>

lemma lifecycle_drop:
  assumes cb: "sm_lifecycle_callback s'"
    and subs: "\<And>r'. get_subscribed_dapps s' r' =
      (if r' = r then removeAll d (get_subscribed_dapps s r) else get_subscribed_dapps s r')"
  shows "replay (active s) (if r \<in> sole_subscriber s d then check_sm_lifecycle s' r True else [])
    = Some (active s')"
proof (cases "r \<in> sole_subscriber s d")
  case True
  then have "r \<notin> active s'" "active s' = active s - {r}" "r \<in> active s"
    using subs by (auto simp: sole_subscriber_def split: if_splits)
  then show ?thesis using True cb by (simp add: check_stop)
next
  case False
  then have "active s' = active s"
    using subs by (auto simp: sole_subscriber_def split: if_splits)
  then show ?thesis using False by simp
qed

lemma lifecycle_remove:
  assumes "sm_lifecycle_callback s"
  shows "replay (active s) (snd (snd (remove_subscription s d r)))
    = Some (active (fst (snd (remove_subscription s d r))))"
proof (cases "r \<in> set (get_dapp_subscriptions s d)")
  case True
  have "replay (active s) (if r \<in> sole_subscriber s d
        then check_sm_lifecycle (erase_subscription_id (removed_pair s d r) (make_sub_key d r)) r True
        else []) = Some (active (erase_subscription_id (removed_pair s d r) (make_sub_key d r)))"
    using assms by (intro lifecycle_drop) simp_all
  then show ?thesis using True by (simp add: remove_subscribed Let_def)
next
  case False
  then show ?thesis by (simp add: remove_not_subscribed)
qed

lemma lifecycle_remove_by_id:
  assumes "sm_lifecycle_callback s"
  shows "replay (active s) (snd (snd (remove_subscription_by_id s d i)))
    = Some (active (fst (snd (remove_subscription_by_id s d i))))"
proof (cases rule: remove_by_id_cases[of s i d])
  case (found r)
  have "replay (active s) (if r \<in> sole_subscriber s d
        then check_sm_lifecycle (removed_by_id s d r i) r True else [])
      = Some (active (removed_by_id s d r i))"
    using assms by (intro lifecycle_drop) simp_all
  then show ?thesis by (simp add: remove_by_id_found[OF found])
next
  case missing
  then show ?thesis by simp
qed

lemma lifecycle_register:
  assumes "mgr_inv s"
  shows "active (snd (register_dapp s now)) = active s"
  by (cases rule: register_dapp_cases[OF assms, where now = now]) (simp_all add: set_eq_iff)

lemma lifecycle_step:
  assumes "sm_good s" and "sm_lifecycle_callback s" and "op \<noteq> Op_clear"
  shows "replay (active s) (sm_events s op) = Some (active (sm_next s op))"
  using assms
  by (cases op) (simp_all add: sm_good_def lifecycle_unregister lifecycle_add lifecycle_remove
      lifecycle_remove_by_id lifecycle_register)

lemma callback_next [simp]:
  assumes "sm_good s"
  shows "sm_lifecycle_callback (sm_next s op) = sm_lifecycle_callback s"
proof (cases op)
  case (Op_register now)
  have "mgr_inv s" using assms by (simp add: sm_good_def)
  then show ?thesis
    unfolding Op_register by (cases rule: register_dapp_cases[OF \<open>mgr_inv s\<close>, where now = now]) simp_all
next
  case (Op_add d r)
  then show ?thesis
    by (simp add: add_subscription_def Let_def split_beta)
qed (use assms in \<open>auto simp: sm_good_def unregister_dapp_def remove_subscription_def
    remove_subscription_by_id_def SubscriptionManager_clear_def erase_subscriber_eq Let_def split_beta
    split: option.split\<close>)

lemma lifecycle_run:
  assumes "sm_good s" and "sm_lifecycle_callback s" and "Op_clear \<notin> set ops"
  shows "replay (active s) (snd (sm_run s ops)) = Some (active (fst (sm_run s ops)))"
  using assms
proof (induction ops arbitrary: s)
  case Nil
  then show ?case by simp
next
  case (Cons op ops)
  then show ?case
    by (auto simp: split_beta Let_def replay_append lifecycle_step sm_good_next)
qed

lemma register_between_lock_and_check:
  assumes "mgr_inv s"
  shows "check_sm_lifecycle (snd (register_dapp s now)) r had = check_sm_lifecycle s r had"
  by (cases rule: register_dapp_cases[OF assms, where now = now])
    (simp_all add: check_sm_lifecycle_def has_subscribers_iff)

subsection \<open>Long runs of registrations\<close>

lemma register_more:
  assumes "mgr_inv s"
  shows "(\<forall>d. id_range d \<longrightarrow> is_dapp_registered s d) \<and> snd (register_dapp s now) = s
    \<or> card {d. is_dapp_registered (snd (register_dapp s now)) d} = Suc (card {d. is_dapp_registered s d})"
  using assms
proof (cases rule: register_dapp_cases[OF assms, where now = now])
  case (1 k a)
  then have "{d. is_dapp_registered (snd (register_dapp s now)) d} = insert a {d. is_dapp_registered s d}"
    by (auto simp: is_dapp_registered_def)
  then show ?thesis using 1(5) by simp
qed simp

lemma registrations:
  fixes now :: u64 and n :: nat
  assumes "mgr_inv s"
  defines "s' \<equiv> fst (sm_run s (replicate n (Op_register now)))"
  shows "(\<forall>d. id_range d \<longrightarrow> is_dapp_registered s' d) \<or> card {d. is_dapp_registered s' d} = n + card {d. is_dapp_registered s d}"
proof -
  have full: "fst (sm_run s (replicate n (Op_register now))) = s" if "snd (register_dapp s now) = s" for s n
    using that by (induction n) (simp_all add: split_beta Let_def)
  show ?thesis
    unfolding s'_def using assms(1)
  proof (induction n arbitrary: s)
    case (Suc n)
    let ?s = "snd (register_dapp s now)"
    have "mgr_inv ?s" using mgr_inv_next[OF Suc.prems, of "Op_register now"] by simp
    from Suc.IH[OF this] register_more[OF Suc.prems, of now] full[of s n] show ?case
      by (auto simp: split_beta Let_def)
  qed simp
qed

lemma hundred_registrations:
  assumes "mgr_inv s" and "id_range d"
  shows "is_dapp_registered (fst (sm_run s (replicate 100 (Op_register now)))) d"
proof -
  let ?s = "fst (sm_run s (replicate 100 (Op_register now)))"
  have inv: "mgr_inv ?s" using mgr_inv_run[OF assms(1)] .
  have "{d. id_range d} \<subseteq> (of_nat :: nat \<Rightarrow> u32) ` {1..100}"
  proof
    fix x :: u32
    assume "x \<in> {d. id_range d}"
    then have "unat x \<in> {1..100}" by (auto simp: id_range_def word_le_nat_alt)
    then show "x \<in> of_nat ` {1..100}" by (metis imageI of_nat_unat ucast_id)
  qed
  then have "card {d. id_range d} \<le> 100" using surj_card_le[of "{1..100::nat}"] by simp
  moreover have "{d. is_dapp_registered ?s d} \<subseteq> {d. id_range d}"
    using mgr_invD(7)[OF inv] by (auto simp: is_dapp_registered_iff)
  ultimately have "card {d. is_dapp_registered ?s d} = 100 \<Longrightarrow> {d. is_dapp_registered ?s d} = {d. id_range d}"
    by (metis card_mono card_subset_eq finite le_antisym)
  moreover have "card {d. is_dapp_registered ?s d} \<le> 100"
    using card_mono[OF _ \<open>{d. is_dapp_registered ?s d} \<subseteq> {d. id_range d}\<close>] \<open>card {d. id_range d} \<le> 100\<close> by simp
  ultimately show ?thesis using registrations[OF assms(1), of 100 now] assms(2) by auto
qed

subsection \<open>Long runs of subscriptions\<close>

lemma sm_run_append:
  "sm_run s (xs @ ys) = (let (s1, e1) = sm_run s xs; (s2, e2) = sm_run s1 ys in (s2, e1 @ e2))"
  by (induction xs arbitrary: s) (simp_all add: split_beta Let_def)

lemma next_id_pow_inj:
  assumes "id_range i" and "(next_id ^^ j) i = (next_id ^^ k) i" and "j < 100" and "k < 100"
  shows "j = k"
proof -
  have r: "1 \<le> i" "i \<le> 100" using assms(1) by (simp_all add: id_range_def)
  have "(unat i - 1 + j) mod 100 = (unat i - 1 + k) mod 100"
    using next_id_pow_unat[OF r, of j] next_id_pow_unat[OF r, of k] assms(2) by simp
  moreover have "unat i - 1 < 100"
    using r by (simp add: word_le_nat_alt)
  ultimately show ?thesis
    using mod_shift_inj[of "unat i - 1" 100 j k] assms(3,4) by blast
qed

text \<open>Up to a hundred subscriptions of one dApp in a row get the identifiers of the cycle in order.\<close>

lemma run_adds:
  assumes good: "sm_good s" and reg: "is_dapp_registered s d" and "distinct rs"
    and "set rs \<inter> set (get_dapp_subscriptions s d) = {}" and "length rs \<le> 100"
  defines "s' \<equiv> fst (sm_run s (map (Op_add d) rs))"
  shows "sm_good s' \<and> is_dapp_registered s' d
    \<and> set (get_dapp_subscriptions s' d) = set rs \<union> set (get_dapp_subscriptions s d)
    \<and> next_subscription_id s' = (next_id ^^ length rs) (next_subscription_id s)
    \<and> (\<forall>k < length rs. map_of (subscription_ids s') ((next_id ^^ k) (next_subscription_id s))
          = Some (d, rs ! k))"
  using assms(3-5) unfolding s'_def
proof (induction rs rule: rev_induct)
  case Nil
  then show ?case using good reg by simp
next
  case (snoc r rs)
  let ?t = "fst (sm_run s (map (Op_add d) rs))"
  let ?n = "next_subscription_id s"
  have IH: "sm_good ?t" "is_dapp_registered ?t d"
      "set (get_dapp_subscriptions ?t d) = set rs \<union> set (get_dapp_subscriptions s d)"
      "next_subscription_id ?t = (next_id ^^ length rs) ?n"
      "\<forall>k < length rs. map_of (subscription_ids ?t) ((next_id ^^ k) ?n) = Some (d, rs ! k)"
    using snoc by auto
  have r: "r \<notin> set (get_dapp_subscriptions ?t d)" using IH(3) snoc.prems by auto
  have inv: "mgr_inv ?t" using IH(1) by (simp add: sm_good_def)
  have run: "fst (sm_run s (map (Op_add d) (rs @ [r]))) = added ?t d r"
    using add_new[OF inv IH(2) r] by (simp add: sm_run_append split_beta Let_def)
  have good': "sm_good (added ?t d r)"
    using inv IH(1,2) r by (simp add: sm_good_def mgr_inv_added ids_inv_added)
  have n: "id_range ?n" using good mgr_invD(9) by (simp add: sm_good_def)
  have "map_of (subscription_ids (added ?t d r)) ((next_id ^^ k) ?n) = Some (d, (rs @ [r]) ! k)"
    if k: "k < length (rs @ [r])" for k
  proof (cases "k = length rs")
    case True
    then show ?thesis using IH(4) by simp
  next
    case False
    then have "k < length rs" using k by simp
    moreover have "(next_id ^^ k) ?n \<noteq> (next_id ^^ length rs) ?n"
      using next_id_pow_inj[OF n, of k "length rs"] snoc.prems(3) calculation by auto
    ultimately show ?thesis using IH(4,5) by (simp add: nth_append)
  qed
  then show ?case
    unfolding run using good' IH(2-4) by (auto simp: is_dapp_registered_def)
qed

lemma sm_results_append: "sm_results s (xs @ ys) = sm_results s xs @ sm_results (fst (sm_run s xs)) ys"
  by (induction xs arbitrary: s) (simp_all add: split_beta Let_def)

lemma run_adds_results:
  assumes "sm_good s" and "is_dapp_registered s d" and "distinct rs"
    and "set rs \<inter> set (get_dapp_subscriptions s d) = {}" and "length rs \<le> 100"
  shows "sm_results s (map (Op_add d) rs)
    = map (\<lambda>k. (SUCCESS, (next_id ^^ k) (next_subscription_id s))) [0 ..< length rs]"
  using assms(3-5)
proof (induction rs rule: rev_induct)
  case (snoc r rs)
  let ?t = "fst (sm_run s (map (Op_add d) rs))"
  have run: "sm_good ?t" "is_dapp_registered ?t d"
      "set (get_dapp_subscriptions ?t d) = set rs \<union> set (get_dapp_subscriptions s d)"
      "next_subscription_id ?t = (next_id ^^ length rs) (next_subscription_id s)"
    using run_adds[OF assms(1,2), of rs] snoc.prems by auto
  have "r \<notin> set (get_dapp_subscriptions ?t d)" using run(3) snoc.prems by auto
  then have "fst (add_subscription ?t d r) = (SUCCESS, (next_id ^^ length rs) (next_subscription_id s))"
    using add_new[of ?t d r] run(1,2,4) by (simp add: sm_good_def)
  then show ?case
    using snoc by (simp add: sm_results_append split_beta Let_def)
qed simp

section \<open>Properties\<close>

text \<open>
  C1: every operation of the subscription manager that changes it, \<^verbatim>\<open>clear\<close> included, implements the
  abstract step with exactly the result code and the identifier of that step, and keeps the
  well-formedness of the indexes. Every operation but \<^verbatim>\<open>clear\<close> also keeps the agreement of the
  identifiers with the subscriptions; \<^verbatim>\<open>clear\<close> leaves the identifiers behind.
\<close>

theorem subscription_manager_refines:
  assumes "mgr_inv s" and "sm_step s op = (ec, i, s', ev)"
  shows "spec_step (mgr_abs s) op ec i (mgr_abs s') \<and> mgr_inv s'
    \<and> (ids_inv s \<and> op \<noteq> Op_clear \<longrightarrow> ids_inv s')
    \<and> (op = Op_clear \<longrightarrow> subscription_ids s' = subscription_ids s
         \<and> subscription_id_reverse s' = subscription_id_reverse s)"
proof -
  have s': "s' = sm_next s op" using assms(2) by (simp add: sm_next_def)
  have "spec_step (mgr_abs s) op ec i (mgr_abs s')"
  proof (cases op)
    case (Op_register now)
    then show ?thesis using assms(2) refine_register[OF assms(1), of now] by (auto simp: split_beta)
  next
    case (Op_unregister d)
    then show ?thesis using assms(2) refine_unregister[OF assms(1), of d] by (auto simp: split_beta)
  next
    case (Op_add d r)
    then show ?thesis using assms(2) refine_add[OF assms(1), of d r] by (auto simp: split_beta)
  next
    case (Op_remove d r)
    then show ?thesis using assms(2) refine_remove[of s d r] by (auto simp: split_beta)
  next
    case (Op_remove_by_id d i)
    then show ?thesis using assms(2) refine_remove_by_id[of s d i] by (auto simp: split_beta)
  next
    case Op_clear
    then show ?thesis using assms(2) refine_clear[of s] by simp
  qed
  then show ?thesis
    using assms(1) s' mgr_inv_next ids_inv_next by (auto simp: SubscriptionManager_clear_def)
qed

theorem subscription_manager_refines_witness:
  "spec_step (mgr_abs new_SubscriptionManager) (Op_register 7) SUCCESS 1
     (mgr_abs (sm_next new_SubscriptionManager (Op_register 7)))
   \<and> ids_inv (sm_next new_SubscriptionManager (Op_register 7))"
proof -
  have "sm_step new_SubscriptionManager (Op_register 7)
      = (SUCCESS, 1, sm_next new_SubscriptionManager (Op_register 7), [])"
    by (simp add: register_dapp_def new_SubscriptionManager_def find_dapp_id.simps MAX_DAPP_ID_def)
  from subscription_manager_refines[OF mgr_inv_new this] ids_inv_new show ?thesis by blast
qed

text \<open>
  C21: registration succeeds exactly when some identifier in 1..100 is free; it then returns
  the first free identifier in cyclic order from the counter, registers it with an empty
  subscription set and leaves every other dApp as it was. Otherwise it returns INTERNAL_ERROR and
  changes nothing.
\<close>

theorem register_dapp_spec:
  assumes "mgr_inv s"
  shows "if \<exists>d. id_range d \<and> \<not> is_dapp_registered s d
    then \<exists>k s'. k < 100
       \<and> register_dapp s now = ((SUCCESS, (next_id ^^ k) (next_dapp_id s)), s')
       \<and> id_range ((next_id ^^ k) (next_dapp_id s))
       \<and> \<not> is_dapp_registered s ((next_id ^^ k) (next_dapp_id s))
       \<and> (\<forall>j < k. is_dapp_registered s ((next_id ^^ j) (next_dapp_id s)))
       \<and> (\<forall>d. is_dapp_registered s' d
              \<longleftrightarrow> is_dapp_registered s d \<or> d = (next_id ^^ k) (next_dapp_id s))
       \<and> (\<forall>d. get_dapp_subscriptions s' d = get_dapp_subscriptions s d)
    else register_dapp s now = ((INTERNAL_ERROR, 0), s)"
proof (cases rule: register_dapp_cases[OF assms, where now = now])
  case (1 k a)
  have "is_dapp_registered (registered_as s a now) d \<longleftrightarrow> is_dapp_registered s d \<or> d = a" for d
    by (simp add: is_dapp_registered_def)
  then show ?thesis
    using 1 registered_as_subscriptions[OF assms 1(5)] by auto
next
  case 2
  then show ?thesis by auto
qed

theorem register_dapp_spec_witness:
  "fst (register_dapp new_SubscriptionManager 3) = (SUCCESS, 1)
   \<and> (\<exists>d. id_range d \<and> \<not> is_dapp_registered new_SubscriptionManager d)
   \<and> (\<exists>k s'. register_dapp new_SubscriptionManager 3
        = ((SUCCESS, (next_id ^^ k) (next_dapp_id new_SubscriptionManager)), s'))"
proof -
  have "\<exists>d. id_range d \<and> \<not> is_dapp_registered new_SubscriptionManager d"
    by (rule exI[of _ 1]) (simp add: id_range_def is_dapp_registered_def new_SubscriptionManager_def)
  moreover have "fst (register_dapp new_SubscriptionManager 3) = (SUCCESS, 1)"
    by (simp add: register_dapp_def new_SubscriptionManager_def find_dapp_id.simps MAX_DAPP_ID_def)
  ultimately show ?thesis
    using register_dapp_spec[OF mgr_inv_new, of 3] by auto
qed

text \<open>
  C6: for any sequence of operations without \<^verbatim>\<open>clear\<close>, made one after the other on a fresh manager with
  its callback set, replaying the callback's calls never starts a RAN function that is running nor
  stops one that is not, and ends with exactly the RAN functions that \<^verbatim>\<open>get_active_ran_functions\<close>
  lists. A \<^verbatim>\<open>clear\<close> at the end makes no call although it leaves no RAN function active: what runs then
  is never stopped through the callback.
\<close>

theorem lifecycle_calls_track_active:
  assumes "Op_clear \<notin> set ops" and "s0 = set_sm_lifecycle_callback new_SubscriptionManager True"
  shows "replay {} (snd (sm_run s0 ops)) = Some (set (get_active_ran_functions (fst (sm_run s0 ops))))
    \<and> snd (sm_run s0 (ops @ [Op_clear])) = snd (sm_run s0 ops)
    \<and> get_active_ran_functions (fst (sm_run s0 (ops @ [Op_clear]))) = []"
proof -
  have good: "sm_good s0" using sm_good_new assms(2) by simp
  have "active s0 = {}"
    by (simp add: assms(2) set_eq_iff get_subscribed_dapps_def set_sm_lifecycle_callback_def
        new_SubscriptionManager_def)
  moreover have "um_wf (ran_function_subscribers (fst (sm_run s0 ops)))"
    using sm_good_run[OF good assms(1)] mgr_invD(3) by (simp add: sm_good_def)
  moreover have "sm_lifecycle_callback s0" by (simp add: assms(2) set_sm_lifecycle_callback_def)
  ultimately have "replay {} (snd (sm_run s0 ops)) = Some (set (get_active_ran_functions (fst (sm_run s0 ops))))"
    using lifecycle_run[OF good _ assms(1)] active_list by simp
  then show ?thesis
    by (simp add: sm_run_append split_beta Let_def get_active_ran_functions_def SubscriptionManager_clear_def)
qed

theorem lifecycle_calls_track_active_witness:
  "let s0 = set_sm_lifecycle_callback new_SubscriptionManager True;
       ops = [Op_register 0, Op_register 0, Op_add 1 9, Op_add 2 9, Op_unregister 1, Op_remove_by_id 2 2]
   in snd (sm_run s0 ops) = [(9, True), (9, False)]
    \<and> replay {} (snd (sm_run s0 ops)) = Some (set (get_active_ran_functions (fst (sm_run s0 ops))))"
proof -
  let ?s = "set_sm_lifecycle_callback new_SubscriptionManager True"
  let ?ops = "[Op_register 0, Op_register 0, Op_add 1 9, Op_add 2 9, Op_unregister 1, Op_remove_by_id 2 2]"
  have "snd (sm_run ?s ?ops) = [(9, True), (9, False)]" by code_simp
  then show ?thesis using lifecycle_calls_track_active[of ?ops ?s] unfolding Let_def by simp
qed

text \<open>
  C22: the identifier returned for a new subscription deletes exactly that subscription:
  deleting by it at once succeeds and gives back the registered dApps and subscriptions there were.
\<close>

theorem add_remove_by_id_roundtrip:
  assumes "sm_good s" and "is_dapp_registered s d" and "\<not> is_subscribed s d r"
    and "add_subscription s d r = ((ec, i), s', ev)"
  shows "ec = SUCCESS \<and> is_subscribed s' d r
    \<and> fst (remove_subscription_by_id s' d i) = SUCCESS
    \<and> sub_abs (fst (snd (remove_subscription_by_id s' d i))) = sub_abs s"
proof -
  have inv: "mgr_inv s" using assms(1) by (simp add: sm_good_def)
  have r: "r \<notin> set (get_dapp_subscriptions s d)" using assms(3) by (simp add: is_subscribed_iff)
  have *: "ec = SUCCESS" "i = next_subscription_id s" "s' = added s d r"
    using assms(4) add_new[OF inv assms(2) r] by simp_all
  have found: "map_of (subscription_ids s') i = Some (d, r)" using * by simp
  have "sub_abs (removed_by_id s' d r i) = sub_abs s"
    using * r by (intro sub_abs_eqI) (auto simp: is_dapp_registered_def)
  then show ?thesis using * remove_by_id_found[OF found] by (simp add: is_subscribed_iff)
qed

theorem add_remove_by_id_roundtrip_witness:
  "\<exists>s' ev i. add_subscription (snd (register_dapp new_SubscriptionManager 0)) 1 9 = ((SUCCESS, i), s', ev)
    \<and> fst (remove_subscription_by_id s' 1 i) = SUCCESS
    \<and> sub_abs (fst (snd (remove_subscription_by_id s' 1 i)))
        = sub_abs (snd (register_dapp new_SubscriptionManager 0))"
proof -
  let ?s = "snd (register_dapp new_SubscriptionManager 0)"
  have good: "sm_good ?s"
    using sm_good_next[OF sm_good_new', of "Op_register 0"] by simp
  have reg: "is_dapp_registered ?s 1" and sub: "\<not> is_subscribed ?s 1 9" by code_simp+
  obtain ec i s' ev where "add_subscription ?s 1 9 = ((ec, i), s', ev)" by (metis prod.exhaust)
  with add_remove_by_id_roundtrip[OF good reg sub this] show ?thesis by metis
qed

text \<open>
  C23: a dApp that makes up to a hundred new subscriptions in a row succeeds with each; the identifiers
  that the calls return are all different and in 1..100, and at the end each of them still deletes the
  subscription it was returned for and nothing else.
\<close>

theorem hundred_subscription_ids:
  assumes "sm_good s" and "is_dapp_registered s d" and "distinct rs"
    and "set rs \<inter> set (get_dapp_subscriptions s d) = {}" and "length rs \<le> 100"
    and "s' = fst (sm_run s (map (Op_add d) rs))" and "results = sm_results s (map (Op_add d) rs)"
  shows "length results = length rs \<and> distinct (map snd results)
    \<and> (\<forall>k < length rs. fst (results ! k) = SUCCESS \<and> id_range (snd (results ! k))
         \<and> is_subscribed s' d (rs ! k)
         \<and> fst (remove_subscription_by_id s' d (snd (results ! k))) = SUCCESS
         \<and> sub_abs (fst (snd (remove_subscription_by_id s' d (snd (results ! k)))))
             = (sub_abs s')\<lparr>spec_subs := spec_subs (sub_abs s') - {(d, rs ! k)}\<rparr>)"
proof -
  let ?n = "next_subscription_id s"
  have n: "id_range ?n" using assms(1) mgr_invD(9) by (simp add: sm_good_def)
  have res: "results = map (\<lambda>k. (SUCCESS, (next_id ^^ k) ?n)) [0 ..< length rs]"
    using run_adds_results[OF assms(1-5)] assms(7) by simp
  have run: "\<And>k. k < length rs \<Longrightarrow> map_of (subscription_ids s') ((next_id ^^ k) ?n) = Some (d, rs ! k)"
    "set (get_dapp_subscriptions s' d) = set rs \<union> set (get_dapp_subscriptions s d)"
    using run_adds[OF assms(1-5)] assms(6) by simp_all
  have "distinct (map snd results)"
    using next_id_pow_inj[OF n] assms(5) by (auto simp: res distinct_map inj_on_def comp_def)
  moreover have "sub_abs (removed_by_id s' d (rs ! k) i)
      = (sub_abs s')\<lparr>spec_subs := spec_subs (sub_abs s') - {(d, rs ! k)}\<rparr>" for k i
    by (intro sub_abs_eqI) (auto simp: is_dapp_registered_def)
  moreover have "id_range ((next_id ^^ k) ?n)" for k
    using n next_id_pow_range by (simp add: id_range_def)
  ultimately show ?thesis
    using run(2) remove_by_id_found[OF run(1)] by (simp add: res is_subscribed_iff)
qed

theorem hundred_subscription_ids_witness:
  "let s = snd (register_dapp new_SubscriptionManager 0);
       s' = fst (sm_run s (map (Op_add 1) [0, 1, 2])); results = sm_results s (map (Op_add 1) [0, 1, 2])
   in results = [(SUCCESS, 1), (SUCCESS, 2), (SUCCESS, 3)] \<and> distinct (map snd results)
    \<and> fst (remove_subscription_by_id s' 1 (snd (results ! 1))) = SUCCESS
    \<and> sub_abs (fst (snd (remove_subscription_by_id s' 1 (snd (results ! 1)))))
        = (sub_abs s')\<lparr>spec_subs := spec_subs (sub_abs s') - {(1, 1)}\<rparr>"
proof -
  let ?s = "snd (register_dapp new_SubscriptionManager 0)" and ?rs = "[0, 1, 2] :: u32 list"
  have good: "sm_good ?s"
    using sm_good_next[OF sm_good_new', of "Op_register 0"] by simp
  have "is_dapp_registered ?s 1" and "set ?rs \<inter> set (get_dapp_subscriptions ?s 1) = {}"
    and r: "sm_results ?s (map (Op_add 1) ?rs) = [(SUCCESS, 1), (SUCCESS, 2), (SUCCESS, 3)]"
    by code_simp+
  from hundred_subscription_ids[OF good this(1) _ this(2) _ refl refl] r show ?thesis
    unfolding Let_def by (auto dest: spec[of _ 1])
qed

text \<open>
  C24: the identifier counter does not look whether the identifier it hands out is in use. When
  it comes round to the identifier of a live subscription, a new subscription gets the same
  identifier, and the earlier subscriber can no longer delete its subscription by identifier although
  it is still subscribed.
\<close>

theorem subscription_id_reuse:
  assumes "sm_good s" and "is_dapp_registered s d'" and "\<not> is_subscribed s d' r'" and "d \<noteq> d'"
    and "map_of (subscription_ids s) (next_subscription_id s) = Some (d, r)"
    and "add_subscription s d' r' = ((ec, i), s', ev)"
  shows "ec = SUCCESS \<and> map_of (subscription_id_reverse s) (make_sub_key d r) = Some i
    \<and> is_subscribed s' d r
    \<and> remove_subscription_by_id s' d i = (SUBSCRIPTION_NOT_FOUND, s', [])"
proof -
  have inv: "mgr_inv s" "ids_inv s" using assms(1) by (simp_all add: sm_good_def)
  have r': "r' \<notin> set (get_dapp_subscriptions s d')" using assms(3) by (simp add: is_subscribed_iff)
  have *: "ec = SUCCESS" "i = next_subscription_id s" "s' = added s d' r'"
    using assms(6) add_new[OF inv(1) assms(2) r'] by simp_all
  have "r \<in> set (get_dapp_subscriptions s d)"
    "map_of (subscription_id_reverse s) (make_sub_key d r) = Some i"
    using inv(2) assms(5) * by (auto simp: ids_inv_def)
  moreover have "remove_subscription_by_id s' d i = (SUBSCRIPTION_NOT_FOUND, s', [])"
    using * assms(4) by (intro remove_by_id_not_found) auto
  ultimately show ?thesis using * assms(4) by (simp add: is_subscribed_iff)
qed

lemma two_dapps:
  "let s = fst (sm_run new_SubscriptionManager [Op_register 0, Op_register 0])
   in sm_good s \<and> is_dapp_registered s 1 \<and> is_dapp_registered s 2
    \<and> get_dapp_subscriptions s 1 = [] \<and> get_dapp_subscriptions s 2 = []
    \<and> next_subscription_id s = 1"
proof -
  let ?s = "fst (sm_run new_SubscriptionManager [Op_register 0, Op_register 0])"
  have "is_dapp_registered ?s 1" "is_dapp_registered ?s 2" "get_dapp_subscriptions ?s 1 = []"
    "get_dapp_subscriptions ?s 2 = []" "next_subscription_id ?s = 1"
    by code_simp+
  moreover have "Op_clear \<notin> set [Op_register 0, Op_register 0]" by simp
  ultimately show ?thesis using sm_good_run[OF sm_good_new'] unfolding Let_def by blast
qed

lemma run_adds_frame:
  assumes "mgr_inv s"
  shows "let s' = fst (sm_run s (map (Op_add d) rs))
    in registered_dapps s' = registered_dapps s
     \<and> (\<forall>d'. d' \<noteq> d \<longrightarrow> get_dapp_subscriptions s' d' = get_dapp_subscriptions s d')"
  using assms
proof (induction rs arbitrary: s)
  case Nil
  then show ?case by simp
next
  case (Cons r rs)
  let ?t = "sm_next s (Op_add d r)"
  have inv: "mgr_inv ?t" using Cons.prems by (simp add: e3_inv)
  have "registered_dapps ?t = registered_dapps s
     \<and> (\<forall>d'. d' \<noteq> d \<longrightarrow> get_dapp_subscriptions ?t d' = get_dapp_subscriptions s d')"
  proof (cases "is_dapp_registered s d \<and> r \<notin> set (get_dapp_subscriptions s d)")
    case True
    then show ?thesis using add_new[OF Cons.prems, of d r] by simp
  next
    case False
    then have "fst (snd (add_subscription s d r)) = s"
      using add_not_registered[of s d r] add_exists[OF Cons.prems, of r d]
        mgr_invD(13)[OF Cons.prems, of r d] by auto
    then show ?thesis by simp
  qed
  then show ?case using Cons.IH[OF inv] by (simp add: split_beta Let_def)
qed

theorem subscription_id_reuse_witness:
  "\<exists>s s' i ev. sm_good s \<and> is_subscribed s 1 0 \<and> add_subscription s 2 0 = ((SUCCESS, i), s', ev)
     \<and> map_of (subscription_id_reverse s) (make_sub_key 1 0) = Some i
     \<and> is_subscribed s' 1 0 \<and> remove_subscription_by_id s' 1 i = (SUBSCRIPTION_NOT_FOUND, s', [])"
proof -
  let ?rs = "map of_nat [0 ..< 100] :: u32 list"
  define s0 where "s0 = fst (sm_run new_SubscriptionManager [Op_register 0, Op_register 0])"
  define s where "s = fst (sm_run s0 (map (Op_add 1) ?rs))"
  have s0: "sm_good s0" "is_dapp_registered s0 1" "is_dapp_registered s0 2"
    "get_dapp_subscriptions s0 1 = []" "get_dapp_subscriptions s0 2 = []" "next_subscription_id s0 = 1"
    using two_dapps by (simp_all add: s0_def Let_def)
  have dist: "distinct ?rs"
    by (auto simp: distinct_map inj_on_def of_nat_inverse dest!: arg_cong[of _ _ unat])
  note run = run_adds[OF s0(1,2) dist, folded s_def, unfolded s0(4,6), simplified]
  have ids: "\<forall>k < 100. map_of (subscription_ids s) ((next_id ^^ k) 1) = Some (1, of_nat k)"
    using run by (simp add: s_def)
  have r: "sm_good s" "0 \<in> set (get_dapp_subscriptions s 1)"
      "next_subscription_id s = (next_id ^^ 100) 1" "map_of (subscription_ids s) 1 = Some (1, 0)"
    using run ids[rule_format, of 0] by (auto simp: s_def image_iff intro!: bexI[of _ 0])
  have "unat ((next_id ^^ 100) 1) = 1" using next_id_pow_unat[of 1 100] by simp
  then have n: "(next_id ^^ 100) 1 = 1" by (metis unat_1 word_unat_eq_iff)
  have "is_dapp_registered s 2" "\<not> is_subscribed s 2 0"
    using run_adds_frame[of s0 1 ?rs] s0 by (simp_all add: s_def sm_good_def Let_def
        is_dapp_registered_def is_subscribed_iff)
  moreover have "map_of (subscription_ids s) (next_subscription_id s) = Some (1, 0)"
    using r(3,4) n by simp
  moreover obtain ec i s' ev where "add_subscription s 2 0 = ((ec, i), s', ev)" by (metis prod.exhaust)
  ultimately show ?thesis
    using subscription_id_reuse[OF r(1), of 2 0 1 0 ec i s' ev] r(1,2)
    by (auto simp: is_subscribed_iff)
qed

text \<open>
  \<^verbatim>\<open>clear\<close> forgets the dApps and both subscription indexes but not the identifier maps: an
  identifier of a subscription from before is still accepted for deletion, although its dApp is not
  registered any more.
\<close>

lemma clear_keeps_identifiers:
  assumes "ids_inv s" and "map_of (subscription_ids s) i = Some (d, r)"
  shows "is_subscribed s d r
    \<and> \<not> is_dapp_registered (SubscriptionManager_clear s) d
    \<and> \<not> is_subscribed (SubscriptionManager_clear s) d r
    \<and> dapp_count (SubscriptionManager_clear s) = 0
    \<and> fst (remove_subscription_by_id (SubscriptionManager_clear s) d i) = SUCCESS"
proof -
  have "map_of (subscription_ids (SubscriptionManager_clear s)) i = Some (d, r)"
    using assms(2) by (simp add: SubscriptionManager_clear_def)
  from remove_by_id_found[OF this] show ?thesis
    using assms by (auto simp: ids_inv_def is_subscribed_iff is_dapp_registered_def dapp_count_def
        get_dapp_subscriptions_def SubscriptionManager_clear_def um_keys_def)
qed

lemma clear_keeps_identifiers_witness:
  "\<exists>s. is_subscribed s 1 9 \<and> \<not> is_dapp_registered (SubscriptionManager_clear s) 1
     \<and> fst (remove_subscription_by_id (SubscriptionManager_clear s) 1 1) = SUCCESS"
proof -
  let ?s = "fst (sm_run new_SubscriptionManager [Op_register 0, Op_add 1 9])"
  have "Op_clear \<notin> set [Op_register 0, Op_add 1 9]" by simp
  then have "ids_inv ?s" using sm_good_run[OF sm_good_new'] unfolding sm_good_def by blast
  moreover have "map_of (subscription_ids ?s) 1 = Some (1, 9)" by code_simp
  ultimately show ?thesis using clear_keeps_identifiers[of ?s 1 1 9] by blast
qed
end
