(* ===== verification/Mpmc_Queue.thy ===== *)
theory Mpmc_Queue
  imports E3_Prelude
begin

text \<open>
  The bounded ring buffer of \<^verbatim>\<open>include/libe3/mpmc_queue.hpp\<close>, one call at a time: the constructor
  with its rounding loop, \<^verbatim>\<open>try_push\<close>, \<^verbatim>\<open>try_pop\<close>, \<^verbatim>\<open>size_approx\<close> and \<^verbatim>\<open>empty_approx\<close>.
  Positions and sequence numbers are 64 bit words that wrap. The retry loops of the source are
  \<^theory_text>\<open>partial_function (option)\<close>, so that a call that never returns has the value \<^const>\<open>None\<close>; the
  refinement lemmas prove that calls return. The interleavings of several producers and consumers
  are the subject of the theory \<^verbatim>\<open>Mpmc_Concurrent\<close>.

  A slot's data is left in place when it is moved out of; nothing below depends on the value a
  moved-from or default-constructed slot holds, because the representation relation constrains only
  the slots between tail and head.
\<close>

section \<open>State and operations\<close>

record 'a Slot =
  slot_sequence :: size_t
  slot_data :: 'a

record 'a MpmcQueue =
  q_buffer :: "'a Slot list"
  q_capacity :: size_t
  q_mask :: size_t
  q_head :: size_t
  q_tail :: size_t

text \<open>The loop \<^verbatim>\<open>while (capacity_ < min_capacity) capacity_ <<= 1\<close>.\<close>

partial_function (option) round_capacity :: "size_t \<Rightarrow> size_t \<Rightarrow> size_t option" where
  "round_capacity min_capacity capacity =
     (if capacity < min_capacity then round_capacity min_capacity (push_bit 1 capacity)
      else Some capacity)"

definition init_slots :: "'a \<Rightarrow> nat \<Rightarrow> 'a Slot list" where
  "init_slots dflt n = map (\<lambda>i. \<lparr>slot_sequence = of_nat i, slot_data = dflt\<rparr>) [0 ..< n]"

text \<open>
  The block that \<^verbatim>\<open>::operator new(sizeof(Slot) * capacity_, ...)\<close> allocates, with \<open>sz\<close> for \<^verbatim>\<open>sizeof(Slot)\<close>: the
  product is a \<^verbatim>\<open>size_t\<close> that wraps, and then the block is too small for the slots.
\<close>

definition slots_fit :: "size_t \<Rightarrow> size_t \<Rightarrow> bool" where
  "slots_fit sz cap \<longleftrightarrow> unat (sz * cap) = unat sz * unat cap"

text \<open>
  The constructor. It has no result when the rounding loop does not end, or when the loop over the
  slots writes past the block. A block that cannot be had is reported by an exception of \<^verbatim>\<open>operator new\<close>,
  which is not modelled.
\<close>

definition new_MpmcQueue :: "size_t \<Rightarrow> 'a \<Rightarrow> size_t \<Rightarrow> 'a MpmcQueue option" where
  "new_MpmcQueue sz dflt min_capacity =
     (case round_capacity min_capacity 2 of
        None \<Rightarrow> None
      | Some cap \<Rightarrow>
          if \<not> slots_fit sz cap then None
          else Some \<lparr>q_buffer = init_slots dflt (unat cap), q_capacity = cap,
                     q_mask = cap - 1, q_head = 0, q_tail = 0\<rparr>)"

definition slot_index :: "'a MpmcQueue \<Rightarrow> size_t \<Rightarrow> nat" where
  "slot_index q pos = unat (pos AND q_mask q)"

definition slot_at :: "'a MpmcQueue \<Rightarrow> size_t \<Rightarrow> 'a Slot" where
  "slot_at q pos = q_buffer q ! slot_index q pos"

text \<open>
  \<^verbatim>\<open>static_cast<intptr_t>(seq) - static_cast<intptr_t>(pos)\<close>. C++ leaves a subtraction undefined whose
  exact difference is no \<^verbatim>\<open>intptr_t\<close>; \<open>diff_defined\<close> says when it is one. \<open>seq_diff\<close> is the difference where
  it is defined (\<open>seq_diff_defined\<close>) and the wrapped one elsewhere, which is what the machine computes;
  \<open>diff_exact\<close> shows that it is defined while both counters are below \<open>2 ^ 63\<close>.
\<close>

definition diff_defined :: "size_t \<Rightarrow> size_t \<Rightarrow> bool" where
  "diff_defined seq pos \<longleftrightarrow> - (2 ^ 63) \<le> sint seq - sint pos \<and> sint seq - sint pos < 2 ^ 63"

definition seq_diff :: "size_t \<Rightarrow> size_t \<Rightarrow> int" where
  "seq_diff seq pos = sint (seq - pos)"

definition slot_store_data :: "'a MpmcQueue \<Rightarrow> size_t \<Rightarrow> 'a \<Rightarrow> 'a MpmcQueue" where
  "slot_store_data q pos x =
     q\<lparr>q_buffer := (q_buffer q)[slot_index q pos := (slot_at q pos)\<lparr>slot_data := x\<rparr>]\<rparr>"

definition slot_store_sequence :: "'a MpmcQueue \<Rightarrow> size_t \<Rightarrow> size_t \<Rightarrow> 'a MpmcQueue" where
  "slot_store_sequence q pos n =
     q\<lparr>q_buffer := (q_buffer q)[slot_index q pos := (slot_at q pos)\<lparr>slot_sequence := n\<rparr>]\<rparr>"

partial_function (option) try_push_loop ::
    "'a MpmcQueue \<Rightarrow> 'a \<Rightarrow> size_t \<Rightarrow> (bool \<times> 'a MpmcQueue) option" where
  "try_push_loop q x pos =
     (let diff = seq_diff (slot_sequence (slot_at q pos)) pos
      in if diff = 0 then
           (if q_head q = pos then
              (let q1 = q\<lparr>q_head := pos + 1\<rparr>;
                   q2 = slot_store_data q1 pos x;
                   q3 = slot_store_sequence q2 pos (pos + 1)
               in Some (True, q3))
            else try_push_loop q x (q_head q))
         else if diff < 0 then Some (False, q)
         else try_push_loop q x (q_head q))"

definition try_push :: "'a MpmcQueue \<Rightarrow> 'a \<Rightarrow> (bool \<times> 'a MpmcQueue) option" where
  "try_push q x = try_push_loop q x (q_head q)"

partial_function (option) try_pop_loop ::
    "'a MpmcQueue \<Rightarrow> 'a \<Rightarrow> size_t \<Rightarrow> ((bool \<times> 'a) \<times> 'a MpmcQueue) option" where
  "try_pop_loop q d pos =
     (let diff = seq_diff (slot_sequence (slot_at q pos)) (pos + 1)
      in if diff = 0 then
           (if q_tail q = pos then
              (let q1 = q\<lparr>q_tail := pos + 1\<rparr>;
                   d' = slot_data (slot_at q1 pos);
                   q2 = slot_store_sequence q1 pos (pos + q_capacity q)
               in Some ((True, d'), q2))
            else try_pop_loop q d (q_tail q))
         else if diff < 0 then Some ((False, d), q)
         else try_pop_loop q d (q_tail q))"

text \<open>The second argument is the value the caller's variable has before the call.\<close>

definition try_pop :: "'a MpmcQueue \<Rightarrow> 'a \<Rightarrow> ((bool \<times> 'a) \<times> 'a MpmcQueue) option" where
  "try_pop q d = try_pop_loop q d (q_tail q)"

definition size_approx :: "'a MpmcQueue \<Rightarrow> size_t" where
  "size_approx q = (if q_head q \<ge> q_tail q then q_head q - q_tail q else 0)"

definition empty_approx :: "'a MpmcQueue \<Rightarrow> bool" where
  "empty_approx q \<longleftrightarrow> size_approx q = 0"

section \<open>Machine arithmetic of positions\<close>

lemma seq_diff_int: "seq_diff (word_of_int a) (word_of_int b) = signed_take_bit 63 (a - b)"
  unfolding seq_diff_def wi_hom_sub by (subst sint_sbintrunc') simp

lemma signed_take_bit_63: "- (2 ^ 63) \<le> n \<Longrightarrow> n < 2 ^ 63 \<Longrightarrow> signed_take_bit 63 n = (n :: int)"
  by (subst signed_take_bit_int_eq_self_iff) simp

lemma int_63: "n < 2 ^ 63 \<Longrightarrow> - (2 ^ 63) \<le> int n \<and> int n < 2 ^ 63"
  by simp

lemma word_of_int_unat: "word_of_int (int (unat w)) = (w :: size_t)"
  by simp

lemma seq_diff_exact:
  assumes "unat seq < 2 ^ 63" and "unat pos < 2 ^ 63"
  shows "seq_diff seq pos = sint seq - sint pos \<and> seq_diff seq pos = int (unat seq) - int (unat pos)"
proof -
  have *: "sint w = int (unat w)" if "unat w < 2 ^ 63" for w :: size_t
  proof -
    have "sint w = signed_take_bit 63 (int (unat w))"
      using sint_sbintrunc'[of "int (unat w)", where 'a = 64] unfolding word_of_int_unat by simp
    also have "\<dots> = int (unat w)" using int_63[OF that] by (intro signed_take_bit_63) blast+
    finally show ?thesis .
  qed
  have "seq_diff seq pos = signed_take_bit 63 (int (unat seq) - int (unat pos))"
    using seq_diff_int[of "int (unat seq)" "int (unat pos)"] unfolding word_of_int_unat .
  also have "\<dots> = int (unat seq) - int (unat pos)"
    using assms[THEN int_63] by (intro signed_take_bit_63) linarith+
  finally show ?thesis using assms * by simp
qed

lemma diff_exact:
  assumes "unat seq < 2 ^ 63" and "unat pos < 2 ^ 63"
  shows "diff_defined seq pos"
  using seq_diff_exact[OF assms] assms[THEN int_63] unfolding diff_defined_def by linarith

lemma seq_diff_defined:
  assumes "diff_defined seq pos"
  shows "seq_diff seq pos = sint seq - sint pos"
proof -
  have "seq_diff (word_of_int (sint seq)) (word_of_int (sint pos)) = signed_take_bit 63 (sint seq - sint pos)"
    by (rule seq_diff_int)
  then show ?thesis using assms signed_take_bit_63[of "sint seq - sint pos"] by (simp add: diff_defined_def)
qed

lemma seq_diff_0 [simp]: "seq_diff seq pos = 0 \<longleftrightarrow> seq = pos"
proof
  assume "seq_diff seq pos = 0"
  then have "seq - pos = 0" unfolding seq_diff_def by (metis signed_0 signed_word_eqI)
  then show "seq = pos" by simp
qed (simp add: seq_diff_def)

lemma unat_of_nat_64: "unat (of_nat n :: size_t) = n mod 2 ^ 64"
  by (simp add: unat_of_nat)

lemma mod_pow_64: "k \<le> 64 \<Longrightarrow> n mod 2 ^ 64 mod 2 ^ k = n mod (2 :: nat) ^ k"
  by (rule mod_mod_cancel) (rule le_imp_power_dvd)

lemma unat_and_mask:
  assumes "k \<le> 64"
  shows "unat ((of_nat p :: size_t) AND (2 ^ k - 1)) = p mod 2 ^ k"
proof -
  have "(of_nat p :: size_t) AND (2 ^ k - 1) = take_bit k (of_nat p)"
    by (simp only: take_bit_eq_mask mask_eq_exp_minus_1)
  then have "unat ((of_nat p :: size_t) AND (2 ^ k - 1)) = take_bit k (unat (of_nat p :: size_t))"
    by (simp only: unsigned_take_bit_eq)
  also have "\<dots> = p mod 2 ^ 64 mod 2 ^ k"
    by (simp only: unat_of_nat_64 take_bit_eq_mod)
  finally show ?thesis using mod_pow_64[OF assms] by simp
qed

lemma seq_diff_behind:
  assumes "0 < n" and "n \<le> 2 ^ 63"
  shows "seq_diff (of_nat p) (of_nat (p + n)) < 0"
proof -
  have "seq_diff (of_nat p) (of_nat (p + n)) = signed_take_bit 63 (int p - int (p + n))"
    using seq_diff_int[of "int p" "int (p + n)"] by simp
  also have "\<dots> = - int n"
    using assms by (subst signed_take_bit_63) auto
  finally show ?thesis using assms by simp
qed

section \<open>Representation\<close>

text \<open>
  \<open>ring_rel q k t xs\<close>: the queue has \<open>2 ^ k\<close> slots, its tail is position \<open>t\<close> counted without
  wrap-around, and it holds the items \<open>xs\<close>, oldest first. The slot of an occupied position carries
  the position plus one and the item, the slot of a free position carries the position itself.
\<close>

definition ring_rel :: "'a MpmcQueue \<Rightarrow> nat \<Rightarrow> nat \<Rightarrow> 'a list \<Rightarrow> bool" where
  "ring_rel q k t xs \<longleftrightarrow>
     1 \<le> k \<and> k \<le> 63 \<and> q_capacity q = 2 ^ k \<and> q_mask q = 2 ^ k - 1 \<and> length (q_buffer q) = 2 ^ k
   \<and> q_tail q = of_nat t \<and> q_head q = of_nat (t + length xs) \<and> length xs \<le> 2 ^ k
   \<and> (\<forall>i < length xs. q_buffer q ! ((t + i) mod 2 ^ k)
         = \<lparr>slot_sequence = of_nat (t + i + 1), slot_data = xs ! i\<rparr>)
   \<and> (\<forall>i. length xs \<le> i \<and> i < 2 ^ k \<longrightarrow>
         slot_sequence (q_buffer q ! ((t + i) mod 2 ^ k)) = of_nat (t + i))"

lemma ring_relD:
  assumes "ring_rel q k t xs"
  shows "1 \<le> k" and "k \<le> 63" and "q_capacity q = 2 ^ k" and "q_mask q = 2 ^ k - 1"
    and "length (q_buffer q) = 2 ^ k" and "q_tail q = of_nat t" and "q_head q = of_nat (t + length xs)"
    and "length xs \<le> 2 ^ k"
    and "\<And>i. i < length xs \<Longrightarrow> q_buffer q ! ((t + i) mod 2 ^ k)
         = \<lparr>slot_sequence = of_nat (t + i + 1), slot_data = xs ! i\<rparr>"
    and "\<And>i. length xs \<le> i \<Longrightarrow> i < 2 ^ k \<Longrightarrow>
         slot_sequence (q_buffer q ! ((t + i) mod 2 ^ k)) = of_nat (t + i)"
  using assms unfolding ring_rel_def by blast+

lemma slot_index_ring:
  assumes "ring_rel q k t xs"
  shows "slot_index q (of_nat p) = p mod 2 ^ k"
  using ring_relD(2,4)[OF assms] unat_and_mask[of k p] by (simp add: slot_index_def)

lemma pow_le_63: "k \<le> 63 \<Longrightarrow> (2 :: nat) ^ k \<le> 2 ^ 63"
  by (rule power_increasing) simp_all

text \<open>Different positions of one window of \<open>n\<close> positions have different slots.\<close>

lemma window_slot_inj: "i < n \<Longrightarrow> j < n \<Longrightarrow> (t + i) mod n = (t + j) mod n \<Longrightarrow> i = (j :: nat)"
  by (metis mod_shift_inj mod_add_left_eq mod_less_divisor gr_zeroI not_less_zero)

subsection \<open>Pushing\<close>

definition ring_pushed :: "'a MpmcQueue \<Rightarrow> nat \<Rightarrow> nat \<Rightarrow> 'a \<Rightarrow> 'a MpmcQueue" where
  "ring_pushed q k p x = q\<lparr>q_head := of_nat (p + 1),
     q_buffer := (q_buffer q)[p mod 2 ^ k := \<lparr>slot_sequence = of_nat (p + 1), slot_data = x\<rparr>]\<rparr>"

lemma slot_upd [simp]:
  "(a :: 'a Slot)\<lparr>slot_data := x, slot_sequence := n\<rparr> = \<lparr>slot_sequence = n, slot_data = x\<rparr>"
  by (cases a) simp

lemma try_push_room:
  assumes rel: "ring_rel q k t xs" and room: "length xs < 2 ^ k"
  shows "try_push q x = Some (True, ring_pushed q k (t + length xs) x)"
proof -
  let ?p = "t + length xs"
  have h: "q_head q = of_nat ?p" using ring_relD(7)[OF rel] .
  have idx: "slot_index q (of_nat ?p) = ?p mod 2 ^ k" by (rule slot_index_ring[OF rel])
  have seq: "slot_sequence (slot_at q (of_nat ?p)) = of_nat ?p"
    using ring_relD(10)[OF rel order.refl room] by (simp only: slot_at_def idx)
  have len: "?p mod 2 ^ k < length (q_buffer q)" using ring_relD(5)[OF rel] by simp
  show ?thesis
    unfolding try_push_def h
    apply (subst try_push_loop.simps)
    using seq idx len h
    by (simp add: slot_store_data_def slot_store_sequence_def slot_index_def slot_at_def ring_pushed_def
        add.commute add.left_commute)
qed

lemma ring_rel_pushed:
  assumes rel: "ring_rel q k t xs" and room: "length xs < 2 ^ k"
  shows "ring_rel (ring_pushed q k (t + length xs) x) k t (xs @ [x])"
proof -
  note D = ring_relD[OF rel]
  have ne: "(t + length xs) mod 2 ^ k \<noteq> (t + i) mod 2 ^ k" if "i < 2 ^ k" "i \<noteq> length xs" for i
    using window_slot_inj[OF that(1) room] that(2) by metis
  show ?thesis
    unfolding ring_rel_def
    using D room ne by (auto simp: ring_pushed_def nth_append nth_list_update less_Suc_eq)
qed

lemma try_push_full:
  assumes rel: "ring_rel q k t xs" and full: "length xs = 2 ^ k"
  shows "try_push q x = Some (False, q)"
proof -
  let ?p = "t + length xs"
  note D = ring_relD[OF rel]
  have idx: "slot_index q (of_nat ?p) = ?p mod 2 ^ k" by (rule slot_index_ring[OF rel])
  have "?p mod 2 ^ k = (t + 0) mod 2 ^ k" using full by simp
  then have seq: "slot_sequence (slot_at q (of_nat ?p)) = of_nat (t + 1)"
    using D(9)[of 0] full unfolding slot_at_def idx by simp
  have len: "1 < length xs" using full D(1) one_less_power[of "2 :: nat" k] by simp
  have "length xs - 1 \<le> 2 ^ 63" using full pow_le_63[OF D(2)] by linarith
  then have "seq_diff (of_nat (t + 1)) (of_nat (t + 1 + (length xs - 1))) < 0"
    using len by (intro seq_diff_behind) simp_all
  then have neg: "seq_diff (of_nat (t + 1)) (of_nat ?p) < 0"
    using len by simp
  then have "of_nat (t + 1) \<noteq> (of_nat ?p :: size_t)" by (metis less_irrefl seq_diff_0)
  then show ?thesis
    unfolding try_push_def D(7)
    by (subst try_push_loop.simps) (use seq neg in \<open>simp add: Let_def\<close>)
qed

subsection \<open>Popping\<close>

definition ring_popped :: "'a MpmcQueue \<Rightarrow> nat \<Rightarrow> nat \<Rightarrow> 'a \<Rightarrow> 'a MpmcQueue" where
  "ring_popped q k t x = q\<lparr>q_tail := of_nat (t + 1),
     q_buffer := (q_buffer q)[t mod 2 ^ k := \<lparr>slot_sequence = of_nat (t + 2 ^ k), slot_data = x\<rparr>]\<rparr>"

lemma slot_upd_sequence [simp]:
  "\<lparr>slot_sequence = m, slot_data = x\<rparr>\<lparr>slot_sequence := n\<rparr> = \<lparr>slot_sequence = n, slot_data = x\<rparr>"
  by simp

lemma try_pop_item:
  assumes rel: "ring_rel q k t (x # xs)"
  shows "try_pop q d = Some ((True, x), ring_popped q k t x)"
proof -
  note D = ring_relD[OF rel]
  have idx: "slot_index q (of_nat t) = t mod 2 ^ k" by (rule slot_index_ring[OF rel])
  have slot: "slot_at q (of_nat t) = \<lparr>slot_sequence = of_nat (t + 1), slot_data = x\<rparr>"
    using D(9)[of 0] unfolding slot_at_def idx by simp
  show ?thesis
    unfolding try_pop_def D(6)
    apply (subst try_pop_loop.simps)
    using slot idx D(3,6)
    by (simp add: slot_store_sequence_def slot_index_def slot_at_def ring_popped_def
        add.commute add.left_commute)
qed

lemma ring_rel_popped:
  assumes rel: "ring_rel q k t (x # xs)"
  shows "ring_rel (ring_popped q k t x) k (t + 1) xs"
proof -
  note D = ring_relD[OF rel]
  have ne: "t mod 2 ^ k \<noteq> (t + (i + 1)) mod 2 ^ k" if "i + 1 < 2 ^ k" for i
    using window_slot_inj[OF that, of 0 t] that by fastforce
  have occ: "q_buffer (ring_popped q k t x) ! ((t + 1 + i) mod 2 ^ k)
         = \<lparr>slot_sequence = of_nat (t + 1 + i + 1), slot_data = xs ! i\<rparr>" if "i < length xs" for i
    using D(9)[of "i + 1"] ne[of i] that D(8) by (simp add: ring_popped_def ac_simps)
  have fr: "slot_sequence (q_buffer (ring_popped q k t x) ! ((t + 1 + i) mod 2 ^ k)) = of_nat (t + 1 + i)"
    if i: "length xs \<le> i" "i < 2 ^ k" for i
  proof (cases "i + 1 = 2 ^ k")
    case True
    then have *: "t + 1 + i = t + 2 ^ k" by linarith
    show ?thesis unfolding * using D(5) by (simp add: ring_popped_def)
  next
    case False
    then have "i + 1 < 2 ^ k" using i by linarith
    then show ?thesis using D(10)[of "i + 1"] ne[of i] i by (simp add: ring_popped_def ac_simps)
  qed
  have len: "length xs \<le> 2 ^ k" and hd: "q_head (ring_popped q k t x) = of_nat (t + 1 + length xs)"
    using D(7,8) by (simp_all add: ring_popped_def)
  show ?thesis
    unfolding ring_rel_def using D(1-5) occ fr len hd by (simp add: ring_popped_def)
qed

lemma try_pop_empty:
  assumes rel: "ring_rel q k t []"
  shows "try_pop q d = Some ((False, d), q)"
proof -
  note D = ring_relD[OF rel]
  have idx: "slot_index q (of_nat t) = t mod 2 ^ k" by (rule slot_index_ring[OF rel])
  have seq: "slot_sequence (slot_at q (of_nat t)) = of_nat t"
    using D(10)[of 0] unfolding slot_at_def idx by simp
  have "seq_diff (of_nat t) (of_nat (t + 1)) < 0" by (rule seq_diff_behind) simp_all
  then show ?thesis
    unfolding try_pop_def D(6)
    by (subst try_pop_loop.simps) (use seq in \<open>simp add: Let_def add.commute\<close>)
qed

subsection \<open>The constructor\<close>

lemma push_bit_pow: "push_bit 1 (2 ^ j :: size_t) = 2 ^ Suc j"
  by (simp add: push_bit_eq_mult)

text \<open>The rounding loop returns for every request up to \<open>2 ^ 63\<close>, with the least power of two
  from the start value on that is large enough.\<close>

lemma round_capacity_result:
  assumes "min_capacity \<le> 2 ^ 63" and "j \<le> 63"
  shows "\<exists>k. round_capacity min_capacity (2 ^ j) = Some (2 ^ k) \<and> j \<le> k \<and> k \<le> 63
     \<and> min_capacity \<le> 2 ^ k \<and> (\<forall>i. j \<le> i \<and> i < k \<longrightarrow> 2 ^ i < min_capacity)"
  using assms(2)
proof (induction "63 - j" arbitrary: j)
  case 0
  then have "j = 63" by simp
  then show ?case
    using assms(1) by (intro exI[of _ 63]) (subst round_capacity.simps, auto simp: not_less)
next
  case (Suc n)
  show ?case
  proof (cases "2 ^ j < min_capacity")
    case True
    have "Suc j \<le> 63" and "n = 63 - Suc j" using Suc.hyps(2) by simp_all
    from Suc.hyps(1)[OF this(2,1)] obtain k where k:
      "round_capacity min_capacity (2 ^ Suc j) = Some (2 ^ k)" "Suc j \<le> k" "k \<le> 63"
      "min_capacity \<le> 2 ^ k" "\<forall>i. Suc j \<le> i \<and> i < k \<longrightarrow> 2 ^ i < min_capacity" by blast
    have "round_capacity min_capacity (2 ^ j) = Some (2 ^ k)"
      using k(1) True by (subst round_capacity.simps) (simp only: push_bit_pow if_True)
    then show ?thesis
      using k(2-5) True by (intro exI[of _ k]) (metis Suc_leI Suc_leD le_neq_implies_less)
  next
    case False
    then show ?thesis
      using Suc.prems by (intro exI[of _ j]) (subst round_capacity.simps, auto simp: not_less)
  qed
qed

abbreviation pow_or_0 :: "size_t set" where
  "pow_or_0 \<equiv> insert 0 ((\<lambda>j. 2 ^ j) ` {..63})"

lemma push_bit_pow_or_0:
  assumes "c \<in> pow_or_0"
  shows "push_bit 1 c \<in> pow_or_0"
proof (cases "c = 0")
  case False
  then obtain j where j: "c = 2 ^ j" "j \<le> 63" using assms by auto
  then show ?thesis
    using push_bit_pow[of j] by (cases "j = 63") (auto intro!: image_eqI[of _ _ "Suc j"])
qed simp

lemma round_capacity_partial:
  assumes "round_capacity m c = Some y" and "c \<in> pow_or_0"
  shows "m \<le> y \<and> y \<in> pow_or_0"
proof -
  have "c \<in> pow_or_0 \<longrightarrow> m \<le> y \<and> y \<in> pow_or_0"
  proof (rule round_capacity.raw_induct[where
        P = "\<lambda>m c y. c \<in> pow_or_0 \<longrightarrow> m \<le> y \<and> y \<in> pow_or_0", OF _ assms(1)], goal_cases)
    case (1 rc m c y)
    show ?case
    proof (cases "c < m")
      case True
      then have "rc m (push_bit 1 c) = Some y" using 1(2) by simp
      from 1(1)[OF this] show ?thesis using push_bit_pow_or_0 by blast
    next
      case False
      then have "y = c" using 1(2) by simp
      moreover have "m \<le> c" using False by (simp add: not_less)
      ultimately show ?thesis by blast
    qed
  qed
  then show ?thesis using assms(2) by blast
qed

lemma unat_pow: "i \<le> 63 \<Longrightarrow> unat ((2 :: size_t) ^ i) = 2 ^ i"
  using pow_le_63[of i] unat_of_nat_64[of "2 ^ i"] by simp

lemma round_capacity_diverges:
  assumes "min_capacity > 2 ^ 63"
  shows "round_capacity min_capacity 2 = None"
proof (rule ccontr)
  assume "round_capacity min_capacity 2 \<noteq> None"
  then obtain y where y: "round_capacity min_capacity 2 = Some y" by blast
  have "2 \<in> pow_or_0" by (auto intro!: image_eqI[of _ _ 1])
  from round_capacity_partial[OF y this] have le: "min_capacity \<le> y"
    and "y = 0 \<or> (\<exists>j \<le> 63. y = 2 ^ j)" by auto
  then have "unat y \<le> 2 ^ 63" using unat_pow pow_le_63 by fastforce
  moreover have "unat ((2 :: size_t) ^ 63) < unat y"
    using le assms by (simp only: word_less_nat_alt word_le_nat_alt)
  ultimately show False unfolding unat_pow[OF order.refl] by linarith
qed

lemma slots_fit_iff: "slots_fit sz cap \<longleftrightarrow> unat sz * unat cap < 2 ^ 64"
proof -
  have "unat (sz * cap) = unat sz * unat cap mod 2 ^ 64" by (simp add: unat_word_ariths(2))
  then show ?thesis unfolding slots_fit_def by (metis mod_less mod_less_divisor zero_less_power zero_less_numeral)
qed

lemma new_queue_result:
  assumes "min_capacity \<le> 2 ^ 63"
  shows "\<exists>k q. 1 \<le> k \<and> k \<le> 63 \<and> unat min_capacity \<le> 2 ^ k \<and> (k = 1 \<or> 2 ^ (k - 1) < unat min_capacity)
     \<and> ring_rel q k 0 [] \<and> new_MpmcQueue sz dflt min_capacity = (if unat sz * 2 ^ k < 2 ^ 64 then Some q else None)"
proof -
  obtain k where k: "round_capacity min_capacity 2 = Some (2 ^ k)" "1 \<le> k" "k \<le> 63"
      "min_capacity \<le> 2 ^ k" "\<forall>i. 1 \<le> i \<and> i < k \<longrightarrow> 2 ^ i < min_capacity"
    using round_capacity_result[OF assms, of 1] by auto
  let ?q = "\<lparr>q_buffer = init_slots dflt (2 ^ k), q_capacity = 2 ^ k, q_mask = 2 ^ k - 1,
      q_head = 0, q_tail = 0\<rparr>"
  have "new_MpmcQueue sz dflt min_capacity = (if unat sz * 2 ^ k < 2 ^ 64 then Some ?q else None)"
    using k(1) unat_pow[OF k(3)] by (simp add: new_MpmcQueue_def slots_fit_iff)
  moreover have "ring_rel ?q k 0 []"
    using k(2,3) by (simp add: ring_rel_def init_slots_def)
  moreover have "unat min_capacity \<le> 2 ^ k"
    using k(4) unat_pow[OF k(3)] by (simp add: word_le_nat_alt)
  moreover have "k = 1 \<or> 2 ^ (k - 1) < unat min_capacity"
  proof (cases "k = 1")
    case False
    then have "2 ^ (k - 1) < min_capacity" using k(2) k(5)[rule_format, of "k - 1"] by linarith
    then show ?thesis using unat_pow[of "k - 1"] k(3) by (simp add: word_less_nat_alt)
  qed simp
  ultimately show ?thesis using k(2,3) by blast
qed

lemma ring_rel_new:
  assumes "new_MpmcQueue sz dflt min_capacity = Some q"
  obtains k where "ring_rel q k 0 []" and "1 \<le> k" and "k \<le> 63" and "unat min_capacity \<le> 2 ^ k"
    and "k = 1 \<or> 2 ^ (k - 1) < unat min_capacity" and "unat sz * 2 ^ k < 2 ^ 64"
proof -
  have "min_capacity \<le> 2 ^ 63"
    using assms round_capacity_diverges[of min_capacity] by (cases "min_capacity \<le> 2 ^ 63") (auto simp: new_MpmcQueue_def)
  from new_queue_result[OF this, of sz dflt] assms that show thesis by (auto split: if_splits)
qed

lemma size_approx_ring:
  assumes "ring_rel q k t xs" and "t + length xs < 2 ^ 64"
  shows "size_approx q = of_nat (length xs)"
proof -
  have "unat (q_tail q) = t" "unat (q_head q) = t + length xs"
    using ring_relD(6,7)[OF assms(1)] assms(2) unat_of_nat_64[of t] unat_of_nat_64[of "t + length xs"]
    by simp_all
  then show ?thesis
    using ring_relD(6,7)[OF assms(1)] by (simp add: size_approx_def word_le_nat_alt)
qed

section \<open>The interface of a bounded queue\<close>

text \<open>
  What the response queue relies on: an abstraction to a list of bounded length, on which push
  appends unless the list is full and pop takes the first element unless there is none, and every
  call returns.
\<close>

datatype 'a fifo_op = Push 'a | Pop

datatype 'a fifo_out = Pushed bool | Popped "'a option"

fun fifo_run :: "('q \<Rightarrow> 'a \<Rightarrow> (bool \<times> 'q) option) \<Rightarrow> ('q \<Rightarrow> 'a \<Rightarrow> ((bool \<times> 'a) \<times> 'q) option)
    \<Rightarrow> 'a \<Rightarrow> 'q \<Rightarrow> 'a fifo_op list \<Rightarrow> ('a fifo_out list \<times> 'q) option" where
  "fifo_run push pop d q [] = Some ([], q)"
| "fifo_run push pop d q (Push x # ops) =
     (case push q x of None \<Rightarrow> None
      | Some (b, q') \<Rightarrow> map_option (\<lambda>(os, q''). (Pushed b # os, q'')) (fifo_run push pop d q' ops))"
| "fifo_run push pop d q (Pop # ops) =
     (case pop q d of None \<Rightarrow> None
      | Some ((b, y), q') \<Rightarrow>
          map_option (\<lambda>(os, q''). (Popped (if b then Some y else None) # os, q''))
            (fifo_run push pop d q' ops))"

fun fifo_spec :: "nat \<Rightarrow> 'a list \<Rightarrow> 'a fifo_op list \<Rightarrow> 'a fifo_out list \<times> 'a list" where
  "fifo_spec n xs [] = ([], xs)"
| "fifo_spec n xs (Push x # ops) =
     (let (os, ys) = fifo_spec n (if length xs < n then xs @ [x] else xs) ops
      in (Pushed (length xs < n) # os, ys))"
| "fifo_spec n xs (Pop # ops) =
     (case xs of
        [] \<Rightarrow> (let (os, ys) = fifo_spec n [] ops in (Popped None # os, ys))
      | x # xs' \<Rightarrow> (let (os, ys) = fifo_spec n xs' ops in (Popped (Some x) # os, ys)))"

locale bounded_fifo =
  fixes rep :: "'q \<Rightarrow> 'a list \<Rightarrow> bool"
    and cap :: "'q \<Rightarrow> nat"
    and push :: "'q \<Rightarrow> 'a \<Rightarrow> (bool \<times> 'q) option"
    and pop :: "'q \<Rightarrow> 'a \<Rightarrow> ((bool \<times> 'a) \<times> 'q) option"
  assumes rep_bound: "rep q xs \<Longrightarrow> length xs \<le> cap q"
    and push_room: "rep q xs \<Longrightarrow> length xs < cap q \<Longrightarrow>
        \<exists>q'. push q x = Some (True, q') \<and> rep q' (xs @ [x]) \<and> cap q' = cap q"
    and push_full: "rep q xs \<Longrightarrow> length xs = cap q \<Longrightarrow> push q x = Some (False, q)"
    and pop_item: "rep q (x # xs) \<Longrightarrow>
        \<exists>q'. pop q d = Some ((True, x), q') \<and> rep q' xs \<and> cap q' = cap q"
    and pop_empty: "rep q [] \<Longrightarrow> pop q d = Some ((False, d), q)"
begin

lemma push_cases:
  assumes "rep q xs"
  shows "\<exists>q'. push q x = Some (length xs < cap q, q')
     \<and> rep q' (if length xs < cap q then xs @ [x] else xs) \<and> cap q' = cap q"
  using push_room[OF assms, of x] push_full[OF assms, of x] rep_bound[OF assms] assms
  by (cases "length xs < cap q") auto

lemma run_refines:
  "rep q xs \<Longrightarrow> \<exists>q'. fifo_run push pop d q ops = Some (fst (fifo_spec (cap q) xs ops), q')
     \<and> rep q' (snd (fifo_spec (cap q) xs ops)) \<and> cap q' = cap q"
proof (induction ops arbitrary: q xs)
  case Nil
  then show ?case by simp
next
  case (Cons op ops)
  show ?case
  proof (cases op)
    case (Push x)
    obtain q1 where q1: "push q x = Some (length xs < cap q, q1)"
      "rep q1 (if length xs < cap q then xs @ [x] else xs)" "cap q1 = cap q"
      using push_cases[OF Cons.prems] by blast
    show ?thesis
      using Cons.IH[OF q1(2)] q1 Push by (auto simp: split_beta Let_def)
  next
    case Pop
    show ?thesis
    proof (cases xs)
      case Nil
      then show ?thesis using Cons.IH[OF Cons.prems] Cons.prems pop_empty[of q d] Pop
        by (auto simp: split_beta Let_def)
    next
      case (Cons x xs')
      obtain q1 where q1: "pop q d = Some ((True, x), q1)" "rep q1 xs'" "cap q1 = cap q"
        using pop_item Cons.prems Cons by blast
      show ?thesis using Cons.IH[OF q1(2)] q1 Pop Cons by (auto simp: split_beta Let_def)
    qed
  qed
qed

end

definition mpmc_rep :: "'a MpmcQueue \<Rightarrow> 'a list \<Rightarrow> bool" where
  "mpmc_rep q xs \<longleftrightarrow> (\<exists>k t. ring_rel q k t xs)"

definition mpmc_cap :: "'a MpmcQueue \<Rightarrow> nat" where
  "mpmc_cap q = unat (q_capacity q)"

lemma mpmc_cap_ring: "ring_rel q k t xs \<Longrightarrow> mpmc_cap q = 2 ^ k"
  using ring_relD(2,3) unat_pow by (metis mpmc_cap_def)

lemma mpmc_repE:
  assumes "mpmc_rep q xs"
  obtains k t where "ring_rel q k t xs" and "mpmc_cap q = 2 ^ k"
  using assms mpmc_cap_ring unfolding mpmc_rep_def by blast

interpretation mpmc: bounded_fifo mpmc_rep mpmc_cap try_push try_pop
proof (unfold_locales, goal_cases)
  case (1 q xs)
  then show ?case using ring_relD(8) by (metis mpmc_repE)
next
  case (2 q xs x)
  from 2(1) obtain k t where r: "ring_rel q k t xs" "mpmc_cap q = 2 ^ k" by (rule mpmc_repE)
  then have "length xs < 2 ^ k" using 2(2) by simp
  from try_push_room[OF r(1) this] ring_rel_pushed[OF r(1) this] r(2) show ?case
    by (auto simp: mpmc_rep_def mpmc_cap_def ring_pushed_def)
next
  case (3 q xs x)
  then show ?case using try_push_full by (metis mpmc_repE)
next
  case (4 q x xs d)
  then obtain k t where r: "ring_rel q k t (x # xs)" by (rule mpmc_repE)
  from try_pop_item[OF r] ring_rel_popped[OF r] show ?case
    by (auto simp: mpmc_rep_def mpmc_cap_def ring_popped_def)
next
  case (5 q d)
  then show ?case using try_pop_empty by (metis mpmc_repE)
qed

section \<open>The subtraction is defined\<close>

text \<open>
  Every subtraction that the calls of a run make. A call that is not disturbed makes one.
\<close>

fun run_defined :: "'a MpmcQueue \<Rightarrow> 'a \<Rightarrow> 'a fifo_op list \<Rightarrow> bool" where
  "run_defined q d [] = True"
| "run_defined q d (Push x # ops) =
     (diff_defined (slot_sequence (slot_at q (q_head q))) (q_head q)
      \<and> (case try_push q x of None \<Rightarrow> True | Some (b, q') \<Rightarrow> run_defined q' d ops))"
| "run_defined q d (Pop # ops) =
     (diff_defined (slot_sequence (slot_at q (q_tail q))) (q_tail q + 1)
      \<and> (case try_pop q d of None \<Rightarrow> True | Some (r, q') \<Rightarrow> run_defined q' d ops))"

lemma unat_small: "n < 2 ^ 63 \<Longrightarrow> unat (of_nat n :: size_t) = n"
  using unat_of_nat_64[of n] by simp

lemma diff_small: "m < 2 ^ 63 \<Longrightarrow> n < 2 ^ 63 \<Longrightarrow> diff_defined (of_nat m) (of_nat n)"
  by (rule diff_exact) (simp_all add: unat_small)

lemma push_diff:
  assumes rel: "ring_rel q k t xs" and b: "t + 2 ^ k + 1 < 2 ^ 63"
  shows "diff_defined (slot_sequence (slot_at q (q_head q))) (q_head q)"
proof -
  note D = ring_relD[OF rel]
  let ?p = "t + length xs"
  have idx: "slot_at q (q_head q) = q_buffer q ! (?p mod 2 ^ k)"
    by (simp add: slot_at_def D(7) slot_index_ring[OF rel] del: of_nat_add)
  have p: "?p < 2 ^ 63" using D(8) b by simp
  show ?thesis
  proof (cases "length xs < 2 ^ k")
    case True
    then have "slot_sequence (slot_at q (q_head q)) = of_nat ?p" using D(10)[OF order.refl True] idx by simp
    then show ?thesis using diff_small[OF p p] D(7) by (simp del: of_nat_add)
  next
    case False
    then have full: "length xs = 2 ^ k" using D(8) by simp
    then have "?p mod 2 ^ k = (t + 0) mod 2 ^ k" by simp
    then have "slot_sequence (slot_at q (q_head q)) = of_nat (t + 1)"
      using D(9)[of 0] idx full by (simp del: of_nat_add of_nat_Suc)
    then show ?thesis using diff_small[of "t + 1" ?p] p b D(7) by (simp del: of_nat_add of_nat_Suc)
  qed
qed

lemma pop_diff:
  assumes rel: "ring_rel q k t xs" and b: "t + 2 ^ k + 1 < 2 ^ 63"
  shows "diff_defined (slot_sequence (slot_at q (q_tail q))) (q_tail q + 1)"
proof -
  note D = ring_relD[OF rel]
  have idx: "slot_at q (q_tail q) = q_buffer q ! ((t + 0) mod 2 ^ k)"
    by (simp add: slot_at_def D(6) slot_index_ring[OF rel])
  have "slot_sequence (slot_at q (q_tail q)) = of_nat (if xs = [] then t else t + 1)"
    using D(9)[of 0] D(10)[of 0] idx by (cases xs) simp_all
  moreover have "q_tail q + 1 = of_nat (t + 1)" using D(6) by simp
  ultimately show ?thesis using diff_small[of "if xs = [] then t else t + 1" "t + 1"] b by (simp del: of_nat_add of_nat_Suc)
qed

lemma run_is_defined:
  "ring_rel q k t xs \<Longrightarrow> t + 2 ^ k + length ops < 2 ^ 63 \<Longrightarrow> run_defined q d ops"
proof (induction ops arbitrary: q t xs)
  case (Cons op ops)
  have b: "t + 2 ^ k + 1 < 2 ^ 63" using Cons.prems(2) by simp
  show ?case
  proof (cases op)
    case (Push x)
    show ?thesis
    proof (cases "length xs < 2 ^ k")
      case True
      then show ?thesis
        using Push push_diff[OF Cons.prems(1) b] try_push_room[OF Cons.prems(1) True] Cons.prems(2)
          Cons.IH[OF ring_rel_pushed[OF Cons.prems(1) True]] by simp
    next
      case False
      then have "length xs = 2 ^ k" using ring_relD(8)[OF Cons.prems(1)] by simp
      then show ?thesis
        using Push push_diff[OF Cons.prems(1) b] try_push_full[OF Cons.prems(1)] Cons.prems(2)
          Cons.IH[OF Cons.prems(1)] by simp
    qed
  next
    case Pop
    show ?thesis
    proof (cases xs)
      case Nil
      then show ?thesis
        using Pop pop_diff[OF Cons.prems(1) b] try_pop_empty[of q k t d] Cons.prems Cons.IH[OF Cons.prems(1)] by simp
    next
      case (Cons x xs')
      then show ?thesis
        using Pop pop_diff[OF Cons.prems(1) b] try_pop_item[of q k t x xs' d] ring_rel_popped[of q k t x xs']
          Cons.prems Cons.IH by simp
    qed
  qed
qed simp

section \<open>Properties\<close>

text \<open>
  C5: any sequence of pushes and pops on a newly constructed queue returns from every call and gives the
  results of a first-in first-out list bounded by the capacity, which is the least power of two from
  2 on that holds the requested number of items, as long as the number of calls and the capacity together
  stay below \<open>2 ^ 63\<close>; then no call makes a subtraction that C++ leaves undefined.
\<close>

theorem mpmc_queue_fifo:
  assumes "new_MpmcQueue sz dflt min_capacity = Some q" and "mpmc_cap q + length ops < 2 ^ 63"
  shows "run_defined q d ops
     \<and> (\<exists>k q'. mpmc_cap q = 2 ^ k
     \<and> 1 \<le> k \<and> unat min_capacity \<le> 2 ^ k \<and> (k = 1 \<or> 2 ^ (k - 1) < unat min_capacity)
     \<and> fifo_run try_push try_pop d q ops = Some (fst (fifo_spec (2 ^ k) [] ops), q')
     \<and> mpmc_rep q' (snd (fifo_spec (2 ^ k) [] ops)))"
proof -
  obtain k where k: "ring_rel q k 0 []" "1 \<le> k" "unat min_capacity \<le> 2 ^ k" "k = 1 \<or> 2 ^ (k - 1) < unat min_capacity"
    using ring_rel_new[OF assms(1)] by blast
  have rep: "mpmc_rep q []" using k(1) by (auto simp: mpmc_rep_def)
  have cap: "mpmc_cap q = 2 ^ k" by (rule mpmc_cap_ring[OF k(1)])
  from mpmc.run_refines[OF rep, of d ops] obtain q' where
    "fifo_run try_push try_pop d q ops = Some (fst (fifo_spec (2 ^ k) [] ops), q')"
    "mpmc_rep q' (snd (fifo_spec (2 ^ k) [] ops))"
    unfolding cap by blast
  with k cap assms(2) run_is_defined[OF k(1), of ops d] show ?thesis by auto
qed

lemma new_queue_3: "\<exists>q. new_MpmcQueue 24 (0 :: int) 3 = Some q \<and> mpmc_cap q \<le> 4"
proof -
  have "(3 :: size_t) \<le> 2 ^ 63" and u: "unat (3 :: size_t) = 3" "unat (24 :: size_t) = 24" by simp_all
  from new_queue_result[OF this(1), of 24 "0 :: int"] obtain k q where k: "k = 1 \<or> 2 ^ (k - 1) < (3 :: nat)"
    "new_MpmcQueue 24 (0 :: int) 3 = (if 24 * (2 :: nat) ^ k < 2 ^ 64 then Some q else None)"
    "ring_rel q k 0 []"
    unfolding u by blast
  have "k < 3"
  proof (rule ccontr)
    assume "\<not> k < 3"
    then have "(2 :: nat) ^ 2 \<le> 2 ^ (k - 1)" by (intro power_increasing) simp_all
    then show False using k(1) \<open>\<not> k < 3\<close> by simp
  qed
  then have "(2 :: nat) ^ k \<le> 2 ^ 2" by (intro power_increasing) simp_all
  then show ?thesis using k(2) mpmc_cap_ring[OF k(3)] by simp
qed

theorem mpmc_queue_fifo_witness:
  "\<exists>q k q'. new_MpmcQueue 24 0 3 = Some q \<and> mpmc_cap q = 2 ^ k \<and> 3 \<le> (2 :: nat) ^ k
     \<and> run_defined q 0 [Push 7, Pop, Pop]
     \<and> fifo_run try_push try_pop 0 q [Push (7 :: int), Pop, Pop]
         = Some ([Pushed True, Popped (Some 7), Popped None], q')"
proof -
  obtain q where q: "new_MpmcQueue 24 (0 :: int) 3 = Some q" "mpmc_cap q + length [Push (7 :: int), Pop, Pop] < 2 ^ 63"
    using new_queue_3 by fastforce
  have u: "unat (3 :: size_t) = 3" by simp
  from mpmc_queue_fifo[OF q, of 0] q(1) show ?thesis unfolding u by auto
qed

text \<open>
  C27: construction returns exactly when the requested number of slots can be rounded up to a power
  of two of at most \<open>2 ^ 63\<close> and the bytes of that many slots can be counted in a \<^verbatim>\<open>size_t\<close>. Otherwise the
  doubling shifts the capacity to zero and does not end, or the size of the block wraps and the
  initialisation writes past it. The exception for a block that cannot be had is left aside.
\<close>

theorem new_MpmcQueue_returns:
  "(\<exists>q. new_MpmcQueue sz dflt min_capacity = Some q) \<longleftrightarrow>
     (\<exists>k. 1 \<le> k \<and> k \<le> 63 \<and> unat min_capacity \<le> 2 ^ k \<and> (k = 1 \<or> 2 ^ (k - 1) < unat min_capacity)
        \<and> unat sz * 2 ^ k < 2 ^ 64)"
proof (intro iffI)
  assume "\<exists>q. new_MpmcQueue sz dflt min_capacity = Some q"
  then show "\<exists>k. 1 \<le> k \<and> k \<le> 63 \<and> unat min_capacity \<le> 2 ^ k \<and> (k = 1 \<or> 2 ^ (k - 1) < unat min_capacity)
      \<and> unat sz * 2 ^ k < 2 ^ 64" using ring_rel_new by metis
next
  assume "\<exists>k. 1 \<le> k \<and> k \<le> 63 \<and> unat min_capacity \<le> 2 ^ k \<and> (k = 1 \<or> 2 ^ (k - 1) < unat min_capacity)
      \<and> unat sz * 2 ^ k < 2 ^ 64"
  then obtain k where k: "1 \<le> k" "k \<le> 63" "unat min_capacity \<le> 2 ^ k" "unat sz * 2 ^ k < 2 ^ 64" by blast
  have "unat min_capacity \<le> 2 ^ 63" using k(3) pow_le_63[OF k(2)] by linarith
  then have "min_capacity \<le> 2 ^ 63" using unat_pow[of 63] by (simp add: word_le_nat_alt)
  from new_queue_result[OF this, of sz dflt] obtain j q where j: "j = 1 \<or> 2 ^ (j - 1) < unat min_capacity"
    "new_MpmcQueue sz dflt min_capacity = (if unat sz * 2 ^ j < 2 ^ 64 then Some q else None)" by blast
  have "j \<le> k"
  proof (rule ccontr)
    assume "\<not> j \<le> k"
    then have "(2 :: nat) ^ k \<le> 2 ^ (j - 1)" by (intro power_increasing) simp_all
    then show False using j(1) k(1,3) \<open>\<not> j \<le> k\<close> by linarith
  qed
  then have "unat sz * 2 ^ j \<le> unat sz * (2 :: nat) ^ k" by (intro mult_left_mono power_increasing) simp_all
  then have "unat sz * 2 ^ j < 2 ^ 64" using k(4) by (rule le_less_trans)
  then show "\<exists>q. new_MpmcQueue sz dflt min_capacity = Some q" using j(2) by simp
qed

end
