(* ===== verification/Mpmc_Concurrent.thy ===== *)
theory Mpmc_Concurrent
  imports Mpmc_Queue "HOL-Library.Multiset"
begin

text \<open>
  The ring buffer of \<^verbatim>\<open>include/libe3/mpmc_queue.hpp\<close> under any interleaving of any number of
  producers and consumers. Each atomic access of \<^verbatim>\<open>try_push\<close> and \<^verbatim>\<open>try_pop\<close> is one step of
  \<open>mpmc_step\<close>: loading a position, loading a slot's sequence number (with the branch on it), the
  compare-and-exchange, the access to the slot's data and the store of the new sequence number. A
  weak compare-and-exchange may fail spuriously, which is the Boolean argument of the step function.
  Steps interleave under sequential consistency; the acquire loads and release stores of the source
  order the accesses to a slot's data, and the counters are only compared and exchanged.

  Ghost components of the state record the items in the order their positions were claimed, the
  number of positions claimed by consumers, and the results of finished pops with their positions.
\<close>

section \<open>Thread programs\<close>

datatype 'a pc =
    Push_load 'a                \<comment> \<open>about to load \<^verbatim>\<open>head_\<close>\<close>
  | Push_seq 'a size_t          \<comment> \<open>about to load the sequence of the slot of \<^verbatim>\<open>pos\<close>\<close>
  | Push_cas 'a size_t          \<comment> \<open>\<^verbatim>\<open>diff == 0\<close>, about to exchange \<^verbatim>\<open>head_\<close>\<close>
  | Push_write 'a size_t        \<comment> \<open>position claimed, about to move the data in\<close>
  | Push_publish size_t         \<comment> \<open>about to store the sequence\<close>
  | Push_done bool              \<comment> \<open>returned\<close>
  | Pop_load
  | Pop_seq size_t
  | Pop_cas size_t
  | Pop_read size_t
  | Pop_publish size_t 'a
  | Pop_done "'a option"

fun mpmc_step :: "bool \<Rightarrow> 'a MpmcQueue \<Rightarrow> 'a pc \<Rightarrow> 'a MpmcQueue \<times> 'a pc" where
  "mpmc_step ok q (Push_load x) = (q, Push_seq x (q_head q))"
| "mpmc_step ok q (Push_seq x pos) =
     (let diff = seq_diff (slot_sequence (slot_at q pos)) pos
      in if diff = 0 then (q, Push_cas x pos)
         else if diff < 0 then (q, Push_done False)
         else (q, Push_load x))"
| "mpmc_step ok q (Push_cas x pos) =
     (if ok \<and> q_head q = pos then (q\<lparr>q_head := pos + 1\<rparr>, Push_write x pos)
      else (q, Push_seq x (q_head q)))"
| "mpmc_step ok q (Push_write x pos) = (slot_store_data q pos x, Push_publish pos)"
| "mpmc_step ok q (Push_publish pos) = (slot_store_sequence q pos (pos + 1), Push_done True)"
| "mpmc_step ok q (Push_done b) = (q, Push_done b)"
| "mpmc_step ok q Pop_load = (q, Pop_seq (q_tail q))"
| "mpmc_step ok q (Pop_seq pos) =
     (let diff = seq_diff (slot_sequence (slot_at q pos)) (pos + 1)
      in if diff = 0 then (q, Pop_cas pos)
         else if diff < 0 then (q, Pop_done None)
         else (q, Pop_load))"
| "mpmc_step ok q (Pop_cas pos) =
     (if ok \<and> q_tail q = pos then (q\<lparr>q_tail := pos + 1\<rparr>, Pop_read pos)
      else (q, Pop_seq (q_tail q)))"
| "mpmc_step ok q (Pop_read pos) = (q, Pop_publish pos (slot_data (slot_at q pos)))"
| "mpmc_step ok q (Pop_publish pos v) =
     (slot_store_sequence q pos (pos + q_capacity q), Pop_done (Some v))"
| "mpmc_step ok q (Pop_done r) = (q, Pop_done r)"

section \<open>Interleavings\<close>

record 'a conc =
  cq :: "'a MpmcQueue"
  pcs :: "nat \<Rightarrow> 'a pc"
  items :: "'a list"
  taken :: nat
  results :: "(nat \<times> 'a) list"

fun returned :: "'a pc \<Rightarrow> bool" where
  "returned (Push_done b) \<longleftrightarrow> True"
| "returned (Pop_done r) \<longleftrightarrow> True"
| "returned _ \<longleftrightarrow> False"

text \<open>The ghost updates of one step of a thread from program point \<open>p\<close> to \<open>p'\<close>.\<close>

definition record_step :: "'a pc \<Rightarrow> 'a pc \<Rightarrow> 'a conc \<Rightarrow> 'a conc" where
  "record_step p p' c =
     (case p of
        Push_cas x pos \<Rightarrow> (case p' of Push_write _ _ \<Rightarrow> c\<lparr>items := items c @ [x]\<rparr> | _ \<Rightarrow> c)
      | Pop_cas pos \<Rightarrow> (case p' of Pop_read _ \<Rightarrow> c\<lparr>taken := taken c + 1\<rparr> | _ \<Rightarrow> c)
      | Pop_publish pos v \<Rightarrow> c\<lparr>results := results c @ [(unat pos, v)]\<rparr>
      | _ \<Rightarrow> c)"

definition conc_thread :: "nat \<Rightarrow> bool \<Rightarrow> 'a conc \<Rightarrow> 'a conc" where
  "conc_thread t ok c =
     (let (q', p') = mpmc_step ok (cq c) (pcs c t)
      in record_step (pcs c t) p' (c\<lparr>cq := q', pcs := (pcs c)(t := p')\<rparr>))"

inductive conc_step :: "'a conc \<Rightarrow> 'a conc \<Rightarrow> bool" where
  call_push: "returned (pcs c t) \<Longrightarrow> conc_step c (c\<lparr>pcs := (pcs c)(t := Push_load x)\<rparr>)"
| call_pop: "returned (pcs c t) \<Longrightarrow> conc_step c (c\<lparr>pcs := (pcs c)(t := Pop_load)\<rparr>)"
| thread: "conc_step c (conc_thread t ok c)"

definition conc_init :: "'a MpmcQueue \<Rightarrow> 'a conc" where
  "conc_init q = \<lparr>cq = q, pcs = (\<lambda>t. Push_done False), items = [], taken = 0, results = []\<rparr>"

inductive conc_reach :: "'a MpmcQueue \<Rightarrow> 'a conc \<Rightarrow> bool" for q where
  init: "conc_reach q (conc_init q)"
| step: "conc_reach q c \<Longrightarrow> conc_step c c' \<Longrightarrow> conc_reach q c'"

section \<open>The invariant\<close>

text \<open>The position a thread has claimed and not yet published, as a producer and as a consumer.\<close>

fun wpos :: "'a pc \<Rightarrow> size_t option" where
  "wpos (Push_write x pos) = Some pos"
| "wpos (Push_publish pos) = Some pos"
| "wpos _ = None"

fun ppos :: "'a pc \<Rightarrow> size_t option" where
  "ppos (Pop_read pos) = Some pos"
| "ppos (Pop_publish pos v) = Some pos"
| "ppos _ = None"

definition writing :: "'a conc \<Rightarrow> nat \<Rightarrow> bool" where
  "writing c p \<longleftrightarrow> (\<exists>t. wpos (pcs c t) = Some (of_nat p))"

definition popping :: "'a conc \<Rightarrow> nat \<Rightarrow> bool" where
  "popping c p \<longleftrightarrow> (\<exists>t. ppos (pcs c t) = Some (of_nat p))"

definition slot_of :: "nat \<Rightarrow> 'a conc \<Rightarrow> nat \<Rightarrow> 'a Slot" where
  "slot_of k c p = q_buffer (cq c) ! (p mod 2 ^ k)"

abbreviation hpos :: "'a conc \<Rightarrow> nat" where
  "hpos c \<equiv> length (items c)"

text \<open>The shape of the queue and its counters.\<close>

definition geometry :: "nat \<Rightarrow> 'a conc \<Rightarrow> bool" where
  "geometry k c \<longleftrightarrow> 1 \<le> k \<and> k \<le> 62 \<and> q_capacity (cq c) = 2 ^ k \<and> q_mask (cq c) = 2 ^ k - 1
     \<and> length (q_buffer (cq c)) = 2 ^ k \<and> q_head (cq c) = of_nat (hpos c)
     \<and> q_tail (cq c) = of_nat (taken c) \<and> taken c \<le> hpos c \<and> hpos c \<le> taken c + 2 ^ k"

text \<open>Claimed positions lie where they should and belong to one thread each.\<close>

definition claims_ok :: "nat \<Rightarrow> 'a conc \<Rightarrow> bool" where
  "claims_ok k c \<longleftrightarrow>
     (\<forall>t w. wpos (pcs c t) = Some w \<longrightarrow> taken c \<le> unat w \<and> unat w < hpos c)
   \<and> (\<forall>t w. ppos (pcs c t) = Some w \<longrightarrow> unat w < taken c \<and> hpos c \<le> unat w + 2 ^ k)
   \<and> (\<forall>t t' w. wpos (pcs c t) = Some w \<and> wpos (pcs c t') = Some w \<longrightarrow> t = t')
   \<and> (\<forall>t t' w. ppos (pcs c t) = Some w \<and> ppos (pcs c t') = Some w \<longrightarrow> t = t')"

text \<open>What the slots hold: occupied, being vacated, free.\<close>

definition slots_ok :: "nat \<Rightarrow> 'a conc \<Rightarrow> bool" where
  "slots_ok k c \<longleftrightarrow>
     (\<forall>p. taken c \<le> p \<and> p < hpos c \<longrightarrow>
        (if writing c p then slot_sequence (slot_of k c p) = of_nat p
         else slot_of k c p = \<lparr>slot_sequence = of_nat (p + 1), slot_data = items c ! p\<rparr>))
   \<and> (\<forall>p. p < taken c \<and> popping c p \<longrightarrow>
        slot_of k c p = \<lparr>slot_sequence = of_nat (p + 1), slot_data = items c ! p\<rparr>)
   \<and> (\<forall>p. hpos c \<le> p \<and> p < taken c + 2 ^ k \<and> (\<forall>p'. p' + 2 ^ k = p \<longrightarrow> \<not> popping c p') \<longrightarrow>
        slot_sequence (slot_of k c p) = of_nat p)"

text \<open>What a thread knows at its program point.\<close>

fun local_ok :: "nat \<Rightarrow> 'a conc \<Rightarrow> 'a pc \<Rightarrow> bool" where
  "local_ok k c (Push_seq x w) \<longleftrightarrow> unat w \<le> hpos c"
| "local_ok k c (Push_cas x w) \<longleftrightarrow> unat w \<le> hpos c \<and>
     (unat w = hpos c \<longrightarrow> hpos c < taken c + 2 ^ k
        \<and> slot_sequence (slot_of k c (hpos c)) = of_nat (hpos c))"
| "local_ok k c (Push_write x w) \<longleftrightarrow> items c ! unat w = x"
| "local_ok k c (Push_publish w) \<longleftrightarrow> slot_data (slot_of k c (unat w)) = items c ! unat w"
| "local_ok k c (Pop_seq w) \<longleftrightarrow> unat w \<le> taken c"
| "local_ok k c (Pop_cas w) \<longleftrightarrow> unat w \<le> taken c \<and>
     (unat w = taken c \<longrightarrow> taken c < hpos c \<and> \<not> writing c (taken c))"
| "local_ok k c (Pop_publish w v) \<longleftrightarrow> v = items c ! unat w"
| "local_ok k c p \<longleftrightarrow> True"

definition results_ok :: "'a conc \<Rightarrow> bool" where
  "results_ok c \<longleftrightarrow> distinct (map fst (results c))
     \<and> (\<forall>p v. (p, v) \<in> set (results c) \<longrightarrow> p < taken c \<and> v = items c ! p)
     \<and> (\<forall>p < taken c. p \<in> fst ` set (results c) \<longleftrightarrow> \<not> popping c p)"

definition conc_inv :: "nat \<Rightarrow> 'a conc \<Rightarrow> bool" where
  "conc_inv k c \<longleftrightarrow> geometry k c \<and> claims_ok k c \<and> slots_ok k c
     \<and> (\<forall>t. local_ok k c (pcs c t)) \<and> results_ok c"

section \<open>Preservation\<close>

lemma mod_neq: "a < b \<Longrightarrow> b < a + n \<Longrightarrow> a mod n \<noteq> b mod (n :: nat)"
  using window_slot_inj[of 0 n "b - a" a] by force

lemma of_nat_eq_64: "a < 2 ^ 64 \<Longrightarrow> b < 2 ^ 64 \<Longrightarrow> of_nat a = (of_nat b :: size_t) \<longleftrightarrow> a = b"
  by (metis unat_of_nat_64 mod_less)

lemma ex_upd_claim:
  "f (g t) = None \<Longrightarrow>
     (\<exists>u. f ((g(t := p)) u) = Some w) \<longleftrightarrow> f p = Some w \<or> (\<exists>u. f (g u) = Some w)"
  by (metis fun_upd_apply option.distinct(1))

lemma ex_upd_release:
  assumes "f (g t) = Some w0" and "f p = None" and "\<And>u. f (g u) = Some w0 \<Longrightarrow> u = t"
  shows "(\<exists>u. f ((g(t := p)) u) = Some w) \<longleftrightarrow> (\<exists>u. f (g u) = Some w) \<and> w \<noteq> w0"
  using assms by (metis fun_upd_apply option.distinct(1) option.inject)

definition small :: "nat \<Rightarrow> 'a conc \<Rightarrow> bool" where
  "small k c \<longleftrightarrow> hpos c + 2 ^ k < 2 ^ 63"

lemma pc_frame:
  assumes eq: "wpos p' = wpos (pcs c t)" "ppos p' = ppos (pcs c t)"
  shows "writing (c\<lparr>pcs := (pcs c)(t := p')\<rparr>) = writing c"
    and "popping (c\<lparr>pcs := (pcs c)(t := p')\<rparr>) = popping c"
    and "local_ok k (c\<lparr>pcs := (pcs c)(t := p')\<rparr>) = local_ok k c"
proof -
  show w: "writing (c\<lparr>pcs := (pcs c)(t := p')\<rparr>) = writing c"
    unfolding writing_def fun_eq_iff using eq by auto
  show "popping (c\<lparr>pcs := (pcs c)(t := p')\<rparr>) = popping c"
    unfolding popping_def fun_eq_iff using eq by auto
  show "local_ok k (c\<lparr>pcs := (pcs c)(t := p')\<rparr>) = local_ok k c"
  proof
    fix p show "local_ok k (c\<lparr>pcs := (pcs c)(t := p')\<rparr>) p = local_ok k c p"
      using w by (cases p) (simp_all add: slot_of_def)
  qed
qed

lemma conc_inv_pc:
  assumes inv: "conc_inv k c" and eq: "wpos p' = wpos (pcs c t)" "ppos p' = ppos (pcs c t)"
    and loc: "local_ok k c p'"
  shows "conc_inv k (c\<lparr>pcs := (pcs c)(t := p')\<rparr>)"
proof -
  let ?c = "c\<lparr>pcs := (pcs c)(t := p')\<rparr>"
  note fr = pc_frame[OF eq]
  have same: "wpos (pcs ?c u) = wpos (pcs c u)" "ppos (pcs ?c u) = ppos (pcs c u)"
    "taken ?c = taken c" "items ?c = items c" "slot_of k ?c p = slot_of k c p" for u p
    using eq by (simp_all add: slot_of_def)
  have "claims_ok k ?c" using inv unfolding conc_inv_def claims_ok_def same by blast
  moreover have "slots_ok k ?c" using inv unfolding conc_inv_def slots_ok_def fr same
    by blast
  moreover have "geometry k ?c" using inv unfolding conc_inv_def geometry_def by simp
  moreover have "results_ok ?c" using inv unfolding conc_inv_def results_ok_def fr by simp
  moreover have "local_ok k ?c (pcs ?c u)" for u
    using inv loc unfolding conc_inv_def fr by simp
  ultimately show ?thesis unfolding conc_inv_def by blast
qed

lemma geometryD:
  assumes "geometry k c"
  shows "1 \<le> k" "k \<le> 62" "q_capacity (cq c) = 2 ^ k" "q_mask (cq c) = 2 ^ k - 1"
    "length (q_buffer (cq c)) = 2 ^ k" "q_head (cq c) = of_nat (hpos c)"
    "q_tail (cq c) = of_nat (taken c)" "taken c \<le> hpos c" "hpos c \<le> taken c + 2 ^ k"
  using assms unfolding geometry_def by blast+

lemma conc_invD:
  assumes "conc_inv k c"
  shows "geometry k c" "claims_ok k c" "slots_ok k c" "\<And>t. local_ok k c (pcs c t)" "results_ok c"
  using assms unfolding conc_inv_def by blast+

lemma claimsD:
  assumes "claims_ok k c"
  shows "\<And>t w. wpos (pcs c t) = Some w \<Longrightarrow> taken c \<le> unat w \<and> unat w < hpos c"
    and "\<And>t w. ppos (pcs c t) = Some w \<Longrightarrow> unat w < taken c \<and> hpos c \<le> unat w + 2 ^ k"
    and "\<And>t t' w. wpos (pcs c t) = Some w \<Longrightarrow> wpos (pcs c t') = Some w \<Longrightarrow> t = t'"
    and "\<And>t t' w. ppos (pcs c t) = Some w \<Longrightarrow> ppos (pcs c t') = Some w \<Longrightarrow> t = t'"
  using assms unfolding claims_ok_def by blast+

lemma slotsD:
  assumes "slots_ok k c"
  shows "\<And>p. taken c \<le> p \<Longrightarrow> p < hpos c \<Longrightarrow> writing c p \<Longrightarrow>
        slot_sequence (slot_of k c p) = of_nat p"
    and "\<And>p. taken c \<le> p \<Longrightarrow> p < hpos c \<Longrightarrow> \<not> writing c p \<Longrightarrow>
        slot_of k c p = \<lparr>slot_sequence = of_nat (p + 1), slot_data = items c ! p\<rparr>"
    and "\<And>p. p < taken c \<Longrightarrow> popping c p \<Longrightarrow>
        slot_of k c p = \<lparr>slot_sequence = of_nat (p + 1), slot_data = items c ! p\<rparr>"
    and "\<And>p. hpos c \<le> p \<Longrightarrow> p < taken c + 2 ^ k \<Longrightarrow> (\<And>p'. p' + 2 ^ k = p \<Longrightarrow> \<not> popping c p') \<Longrightarrow>
        slot_sequence (slot_of k c p) = of_nat p"
  using assms unfolding slots_ok_def by metis+

lemma claim_nat:
  assumes "claims_ok k c" and "small k c"
  shows "\<And>t w. wpos (pcs c t) = Some w \<Longrightarrow> w = of_nat (unat w)"
    and "\<And>p. writing c p \<Longrightarrow> p < 2 ^ 64 \<Longrightarrow> taken c \<le> p \<and> p < hpos c"
    and "\<And>p. popping c p \<Longrightarrow> p < 2 ^ 64 \<Longrightarrow> p < taken c \<and> hpos c \<le> p + 2 ^ k"
  using claimsD(1,2)[OF assms(1)] unat_of_nat_64 unfolding writing_def popping_def
  by (simp, metis mod_less, metis mod_less)

text \<open>The slot at a position as the operations address it.\<close>

lemma slot_at_nat:
  assumes "geometry k c"
  shows "slot_index (cq c) (of_nat p) = p mod 2 ^ k" and "slot_at (cq c) (of_nat p) = slot_of k c p"
proof -
  show i: "slot_index (cq c) (of_nat p) = p mod 2 ^ k"
    using geometryD(2,4)[OF assms] unat_and_mask[of k p] by (simp add: slot_index_def)
  show "slot_at (cq c) (of_nat p) = slot_of k c p"
    unfolding slot_at_def slot_of_def i by (rule refl)
qed

subsection \<open>The window of positions\<close>

text \<open>The sequence number of a slot, by the position of the current window that falls on it.\<close>

lemma window_sequence:
  assumes inv: "conc_inv k c" and sm: "small k c" and p: "taken c \<le> p" "p < taken c + 2 ^ k"
  obtains (free) "hpos c \<le> p" and "unat (slot_sequence (slot_of k c p)) = p"
    | (written) "p < hpos c" and "writing c p" and "unat (slot_sequence (slot_of k c p)) = p"
    | (ready) "p < hpos c" and "\<not> writing c p" and "unat (slot_sequence (slot_of k c p)) = p + 1"
    | (vacating) p' where "hpos c \<le> p" and "p' + 2 ^ k = p" and "p' < taken c" and "popping c p'"
        and "unat (slot_sequence (slot_of k c p)) = p' + 1"
proof -
  note I = conc_invD[OF inv] and G = geometryD[OF conc_invD(1)[OF inv]]
  note S = slotsD[OF I(3)]
  have b: "p + 1 < 2 ^ 64" using sm p G(8) by (simp add: small_def)
  have u: "unat (of_nat n :: size_t) = n" if "n \<le> p + 1" for n
    using b that unat_of_nat_64[of n] by simp
  show thesis
  proof (cases "p < hpos c")
    case True
    then show thesis
      using S(1)[OF p(1) True] S(2)[OF p(1) True] u[of p] u[of "p + 1"] written ready
      by (cases "writing c p") simp_all
  next
    case False
    show thesis
    proof (cases "\<exists>p'. p' + 2 ^ k = p \<and> popping c p'")
      case True
      then obtain p' where p': "p' + 2 ^ k = p" "popping c p'" by blast
      have "slot_of k c p = slot_of k c p'" unfolding slot_of_def p'(1)[symmetric] by simp
      moreover have "p' < taken c" using p'(1) p(2) by simp
      moreover have "unat (of_nat (p' + 1) :: size_t) = p' + 1" using u[of "p' + 1"] p'(1) by simp
      ultimately show thesis using vacating[of p'] p' S(3)[of p'] False by simp
    next
      case no: False
      then show thesis using S(4)[of p] p False u[of p] free by simp
    qed
  qed
qed

lemma capacity_gt_1: "geometry k c \<Longrightarrow> 1 < (2 :: nat) ^ k"
  using geometryD(1)[of k c] one_less_power[of "2 :: nat" k] by simp

text \<open>A slot whose sequence says that the head may be claimed is not being vacated.\<close>

lemma head_slot_vacated:
  assumes inv: "conc_inv k c" and sm: "small k c"
    and seq: "slot_sequence (slot_of k c (hpos c)) = of_nat (hpos c)" and p: "popping c p" "p < taken c"
  shows "p + 2 ^ k \<noteq> hpos c"
proof
  assume e: "p + 2 ^ k = hpos c"
  note I = conc_invD[OF inv]
  have "slot_of k c (hpos c) = slot_of k c p" unfolding slot_of_def e[symmetric] by simp
  then have "of_nat (p + 1) = (of_nat (hpos c) :: size_t)" using slotsD(3)[OF I(3) p(2,1)] seq by simp
  moreover have "p + 1 < hpos c" using e capacity_gt_1[OF I(1)] by linarith
  ultimately show False using of_nat_eq_64[of "p + 1" "hpos c"] sm by (simp add: small_def)
qed

lemma popping_window:
  assumes inv: "conc_inv k c" and sm: "small k c" and p: "popping c p" "p < taken c"
  shows "hpos c \<le> p + 2 ^ k"
  using claim_nat(3)[OF conc_invD(2)[OF inv] sm p(1)] p(2) sm geometryD(8)[OF conc_invD(1)[OF inv]]
  by (simp add: small_def)

lemma claimed_cong:
  shows "(\<And>u. wpos (pcs c' u) = wpos (pcs c u)) \<Longrightarrow> writing c' = writing c"
    and "(\<And>u. ppos (pcs c' u) = ppos (pcs c u)) \<Longrightarrow> popping c' = popping c"
  by (simp_all add: writing_def popping_def fun_eq_iff)

subsection \<open>A producer claims a position\<close>

abbreviation push_claimed :: "'a conc \<Rightarrow> nat \<Rightarrow> 'a \<Rightarrow> 'a conc" where
  "push_claimed c t x \<equiv> c\<lparr>cq := (cq c)\<lparr>q_head := of_nat (hpos c) + 1\<rparr>,
      pcs := (pcs c)(t := Push_write x (of_nat (hpos c))), items := items c @ [x]\<rparr>"

lemma push_claimed_frame:
  assumes "pcs c t = Push_cas x (of_nat (hpos c))"
  shows "slot_of k (push_claimed c t x) p = slot_of k c p"
    and "p < hpos c \<Longrightarrow> items (push_claimed c t x) ! p = items c ! p"
    and "writing (push_claimed c t x) p \<longleftrightarrow> writing c p \<or> of_nat p = (of_nat (hpos c) :: size_t)"
    and "popping (push_claimed c t x) = popping c"
  using assms ex_upd_claim[of wpos "pcs c" t] ex_upd_claim[of ppos "pcs c" t]
  by (auto simp: slot_of_def nth_append writing_def popping_def fun_eq_iff)

lemma push_claim_room:
  assumes inv: "conc_inv k c" and sm: "small k c" and t: "pcs c t = Push_cas x (of_nat (hpos c))"
  shows "unat (of_nat (hpos c) :: size_t) = hpos c" and "hpos c < taken c + 2 ^ k"
    and "slot_sequence (slot_of k c (hpos c)) = of_nat (hpos c)"
    and "p < hpos c \<Longrightarrow> of_nat p \<noteq> (of_nat (hpos c) :: size_t)"
proof -
  have h: "hpos c < 2 ^ 64" using sm by (simp add: small_def)
  then show u: "unat (of_nat (hpos c) :: size_t) = hpos c" using unat_of_nat_64[of "hpos c"] by simp
  show "hpos c < taken c + 2 ^ k" and "slot_sequence (slot_of k c (hpos c)) = of_nat (hpos c)"
    using conc_invD(4)[OF inv, of t] u unfolding t by simp_all
  show "p < hpos c \<Longrightarrow> of_nat p \<noteq> (of_nat (hpos c) :: size_t)" using h of_nat_eq_64[of p "hpos c"] by simp
qed

lemma push_claim_claims:
  assumes inv: "conc_inv k c" and sm: "small k c" and t: "pcs c t = Push_cas x (of_nat (hpos c))"
  shows "claims_ok k (push_claimed c t x)" (is "claims_ok k ?c")
  unfolding claims_ok_def
proof (intro conjI allI impI)
  note I = conc_invD[OF inv] and C = claimsD[OF conc_invD(2)[OF inv]] and R = push_claim_room[OF inv sm t]
  {
    fix u w assume "wpos (pcs ?c u) = Some w"
    then show "taken ?c \<le> unat w" "unat w < hpos ?c"
      using C(1)[of u w] R(1) geometryD(8)[OF I(1)] by (auto split: if_splits)
  next
    fix u w assume "ppos (pcs ?c u) = Some w"
    then have w: "ppos (pcs c u) = Some w" by (auto split: if_splits)
    then have "popping c (unat w)" unfolding popping_def by auto
    then show "unat w < taken ?c" "hpos ?c \<le> unat w + 2 ^ k"
      using C(2)[OF w] head_slot_vacated[OF inv sm R(3), of "unat w"] by auto
  next
    fix u u' w assume "wpos (pcs ?c u) = Some w \<and> wpos (pcs ?c u') = Some w"
    then show "u = u'" using C(3)[of u w u'] C(1)[of u w] C(1)[of u' w] R(1) by (auto split: if_splits)
  next
    fix u u' w assume "ppos (pcs ?c u) = Some w \<and> ppos (pcs ?c u') = Some w"
    then show "u = u'" using C(4)[of u w u'] by (auto split: if_splits)
  }
qed

lemma push_claim_slots:
  assumes inv: "conc_inv k c" and sm: "small k c" and t: "pcs c t = Push_cas x (of_nat (hpos c))"
  shows "slots_ok k (push_claimed c t x)" (is "slots_ok k ?c")
  unfolding slots_ok_def push_claimed_frame(1,4)[OF t]
proof (intro conjI allI impI)
  note I = conc_invD[OF inv] and S = slotsD[OF conc_invD(3)[OF inv]]
    and R = push_claim_room[OF inv sm t] and F = push_claimed_frame[OF t]
  {
    fix p assume p: "taken ?c \<le> p \<and> p < hpos ?c"
    then consider "p = hpos c" | "p < hpos c" by force
    then show "if writing ?c p then slot_sequence (slot_of k c p) = of_nat p
        else slot_of k c p = \<lparr>slot_sequence = of_nat (p + 1), slot_data = items ?c ! p\<rparr>"
      using p R(3) R(4)[of p] S(1,2)[of p] F(2,3)[of p] by cases simp_all
  next
    fix p assume "p < taken ?c \<and> popping c p"
    then show "slot_of k c p = \<lparr>slot_sequence = of_nat (p + 1), slot_data = items ?c ! p\<rparr>"
      using S(3)[of p] F(2)[of p] geometryD(8)[OF I(1)] by simp
  next
    fix p assume "hpos ?c \<le> p \<and> p < taken ?c + 2 ^ k \<and> (\<forall>p'. p' + 2 ^ k = p \<longrightarrow> \<not> popping c p')"
    then show "slot_sequence (slot_of k c p) = of_nat p" using S(4)[of p] by simp
  }
qed

lemma push_claim_local:
  assumes inv: "conc_inv k c" and sm: "small k c" and t: "pcs c t = Push_cas x (of_nat (hpos c))"
  shows "local_ok k (push_claimed c t x) (pcs (push_claimed c t x) u)" (is "local_ok k ?c _")
proof (cases "u = t")
  case True
  then show ?thesis using push_claim_room(1)[OF inv sm t] by simp
next
  case False
  note I = conc_invD[OF inv] and C = claimsD[OF conc_invD(2)[OF inv]] and F = push_claimed_frame[OF t]
  have "\<not> writing ?c (taken c)" if "taken c < hpos c" "\<not> writing c (taken c)"
    using that F(3)[of "taken c"] push_claim_room(4)[OF inv sm t, of "taken c"] by simp
  then show ?thesis
    using False I(4)[of u] C(1)[of u] C(2)[of u] geometryD(8)[OF I(1)]
    by (cases "pcs c u") (auto simp: F(1) nth_append)
qed

lemma conc_inv_push_claim:
  assumes inv: "conc_inv k c" and sm: "small k c" and t: "pcs c t = Push_cas x (of_nat (hpos c))"
  shows "conc_inv k (push_claimed c t x)" (is "conc_inv k ?c")
proof -
  note I = conc_invD[OF inv] and G = geometryD[OF conc_invD(1)[OF inv]]
  have "v = items ?c ! p" if "(p, v) \<in> set (results c)" for p v
  proof -
    have "p < taken c \<and> v = items c ! p" using that I(5) unfolding results_ok_def by blast
    then show ?thesis using G(8) by (simp add: nth_append)
  qed
  then have "results_ok ?c" using I(5) unfolding results_ok_def push_claimed_frame(4)[OF t] by simp
  moreover have "geometry k ?c" using G push_claim_room(2)[OF inv sm t] unfolding geometry_def by simp
  ultimately show ?thesis
    unfolding conc_inv_def
    using push_claim_claims[OF inv sm t] push_claim_slots[OF inv sm t] push_claim_local[OF inv sm t]
    by blast
qed

subsection \<open>A producer writes and publishes\<close>

lemma slot_of_store:
  assumes "geometry k c"
  shows "slot_of k (c\<lparr>cq := slot_store_data (cq c) (of_nat w) x, pcs := ps\<rparr>) p =
      (if p mod 2 ^ k = w mod 2 ^ k then (slot_of k c w)\<lparr>slot_data := x\<rparr> else slot_of k c p)"
    and "slot_of k (c\<lparr>cq := slot_store_sequence (cq c) (of_nat w) n, pcs := ps\<rparr>) p =
      (if p mod 2 ^ k = w mod 2 ^ k then (slot_of k c w)\<lparr>slot_sequence := n\<rparr> else slot_of k c p)"
  using geometryD(5)[OF assms] slot_at_nat[OF assms, of w]
  by (auto simp: slot_of_def slot_store_data_def slot_store_sequence_def nth_list_update)

lemma geometry_store:
  assumes "geometry k c"
  shows "geometry k (c\<lparr>cq := slot_store_data (cq c) w x, pcs := ps\<rparr>)"
    and "geometry k (c\<lparr>cq := slot_store_sequence (cq c) w n, pcs := ps\<rparr>)"
  using assms by (simp_all add: geometry_def slot_store_data_def slot_store_sequence_def)

text \<open>Positions in one window have different slots; the windows that matter below.\<close>

lemma slot_neq:
  assumes "geometry k c"
  shows "taken c \<le> w \<Longrightarrow> w < hpos c \<Longrightarrow> taken c \<le> p \<Longrightarrow> p < hpos c \<Longrightarrow> p \<noteq> w \<Longrightarrow>
      p mod 2 ^ k \<noteq> w mod 2 ^ k"
    and "taken c \<le> w \<Longrightarrow> w < hpos c \<Longrightarrow> p < taken c \<Longrightarrow> hpos c \<le> p + 2 ^ k \<Longrightarrow>
      p mod 2 ^ k \<noteq> w mod 2 ^ k"
    and "taken c \<le> w \<Longrightarrow> w < hpos c \<Longrightarrow> hpos c \<le> p \<Longrightarrow> p < taken c + 2 ^ k \<Longrightarrow>
      p mod 2 ^ k \<noteq> w mod 2 ^ k"
    and "w < taken c \<Longrightarrow> hpos c \<le> w + 2 ^ k \<Longrightarrow> p < taken c \<Longrightarrow> hpos c \<le> p + 2 ^ k \<Longrightarrow> p \<noteq> w \<Longrightarrow>
      p mod 2 ^ k \<noteq> w mod 2 ^ k"
    and "w < taken c \<Longrightarrow> hpos c \<le> w + 2 ^ k \<Longrightarrow> hpos c \<le> p \<Longrightarrow> p < taken c + 2 ^ k \<Longrightarrow>
      p \<noteq> w + 2 ^ k \<Longrightarrow> p mod 2 ^ k \<noteq> w mod 2 ^ k"
  using geometryD(8,9)[OF assms] mod_neq[of p w "2 ^ k"] mod_neq[of w p "2 ^ k"]
    mod_neq[of p "w + 2 ^ k" "2 ^ k"] mod_neq[of "w + 2 ^ k" p "2 ^ k"]
  by (cases "p < w"; force)+

abbreviation push_written :: "'a conc \<Rightarrow> nat \<Rightarrow> 'a \<Rightarrow> nat \<Rightarrow> 'a conc" where
  "push_written c t x w \<equiv> c\<lparr>cq := slot_store_data (cq c) (of_nat w) x,
      pcs := (pcs c)(t := Push_publish (of_nat w))\<rparr>"

lemma push_written_frame:
  assumes "pcs c t = Push_write x (of_nat w)"
  shows "wpos (pcs (push_written c t x w) u) = wpos (pcs c u)"
    and "ppos (pcs (push_written c t x w) u) = ppos (pcs c u)"
    and "taken (push_written c t x w) = taken c" and "items (push_written c t x w) = items c"
    and "results (push_written c t x w) = results c"
    and "writing (push_written c t x w) = writing c" and "popping (push_written c t x w) = popping c"
  using assms by (auto intro!: claimed_cong)

text \<open>A producer's claimed position lies among the items.\<close>

lemma push_position:
  assumes inv: "conc_inv k c" and t: "wpos (pcs c t) = Some (of_nat w)" and w64: "w < 2 ^ 64"
  shows "unat (of_nat w :: size_t) = w" and "taken c \<le> w" and "w < hpos c" and "writing c w"
proof -
  show u: "unat (of_nat w :: size_t) = w" using w64 unat_of_nat_64[of w] by simp
  show "taken c \<le> w" "w < hpos c" using claimsD(1)[OF conc_invD(2)[OF inv] t] u by simp_all
  show "writing c w" unfolding writing_def using t by blast
qed

lemma push_write_slots:
  assumes inv: "conc_inv k c" and sm: "small k c" and t: "pcs c t = Push_write x (of_nat w)"
    and w64: "w < 2 ^ 64"
  shows "slots_ok k (push_written c t x w)" (is "slots_ok k ?c")
  unfolding slots_ok_def push_written_frame[OF t]
proof (intro conjI allI impI)
  note I = conc_invD[OF inv] and N = slot_neq[OF conc_invD(1)[OF inv]] and S = slotsD[OF conc_invD(3)[OF inv]]
  note sl = slot_of_store(1)[OF I(1)]
  have "wpos (pcs c t) = Some (of_nat w)" using t by simp
  note W = push_position[OF inv this w64]
  {
    fix p assume p: "taken c \<le> p \<and> p < hpos c"
    show "if writing c p then slot_sequence (slot_of k ?c p) = of_nat p
        else slot_of k ?c p = \<lparr>slot_sequence = of_nat (p + 1), slot_data = items c ! p\<rparr>"
      using S(1,2)[of p] p N(1)[OF W(2,3), of p] W(4) by (cases "p = w") (auto simp: sl)
  next
    fix p assume p: "p < taken c \<and> popping c p"
    then show "slot_of k ?c p = \<lparr>slot_sequence = of_nat (p + 1), slot_data = items c ! p\<rparr>"
      using S(3)[of p] N(2)[OF W(2,3), of p] popping_window[OF inv sm, of p] by (simp add: sl)
  next
    fix p assume "hpos c \<le> p \<and> p < taken c + 2 ^ k \<and> (\<forall>p'. p' + 2 ^ k = p \<longrightarrow> \<not> popping c p')"
    then show "slot_sequence (slot_of k ?c p) = of_nat p"
      using S(4)[of p] N(3)[OF W(2,3), of p] by (simp add: sl)
  }
qed

lemma push_write_local:
  assumes inv: "conc_inv k c" and t: "pcs c t = Push_write x (of_nat w)" and w64: "w < 2 ^ 64"
  shows "local_ok k (push_written c t x w) (pcs (push_written c t x w) u)" (is "local_ok k ?c _")
proof (cases "u = t")
  case True
  then show ?thesis using conc_invD(4)[OF inv, of t] t w64 unat_of_nat_64[of w]
    by (simp add: slot_of_store(1)[OF conc_invD(1)[OF inv]])
next
  case False
  note I = conc_invD[OF inv] and N = slot_neq[OF conc_invD(1)[OF inv]] and C = claimsD[OF conc_invD(2)[OF inv]]
  note sl = slot_of_store(1)[OF I(1)]
  have wt: "wpos (pcs c t) = Some (of_nat w)" using t by simp
  note W = push_position[OF inv wt w64]
  have pub: "unat v mod 2 ^ k \<noteq> w mod 2 ^ k" if "pcs c u = Push_publish v" for v
  proof -
    have "v \<noteq> of_nat w" using C(3)[of u "of_nat w" t] that t False by auto
    then have "unat v \<noteq> w" by auto
    then show ?thesis using N(1)[OF W(2,3), of "unat v"] C(1)[of u v] that by simp
  qed
  have cas: "slot_sequence (slot_of k ?c (hpos c)) = slot_sequence (slot_of k c (hpos c))"
    using sl by (auto simp: slot_of_def)
  show ?thesis
    using False I(4)[of u] push_written_frame(6)[OF t] pub cas by (cases "pcs c u") (simp_all add: sl)
qed

lemma conc_inv_push_write:
  assumes inv: "conc_inv k c" and sm: "small k c" and t: "pcs c t = Push_write x (of_nat w)"
    and w64: "w < 2 ^ 64"
  shows "conc_inv k (push_written c t x w)" (is "conc_inv k ?c")
proof -
  note I = conc_invD[OF inv] and F = push_written_frame[OF t]
  have "claims_ok k ?c" using I(2) unfolding claims_ok_def F .
  moreover have "results_ok ?c" using I(5) unfolding results_ok_def F .
  ultimately show ?thesis
    unfolding conc_inv_def
    using geometry_store(1)[OF I(1)] push_write_slots[OF inv sm t w64] push_write_local[OF inv t w64]
    by blast
qed

abbreviation push_published :: "'a conc \<Rightarrow> nat \<Rightarrow> nat \<Rightarrow> 'a conc" where
  "push_published c t w \<equiv> c\<lparr>cq := slot_store_sequence (cq c) (of_nat w) (of_nat w + 1),
      pcs := (pcs c)(t := Push_done True)\<rparr>"

lemma push_published_frame:
  assumes inv: "conc_inv k c" and t: "pcs c t = Push_publish (of_nat w)"
  shows "ppos (pcs (push_published c t w) u) = ppos (pcs c u)"
    and "taken (push_published c t w) = taken c" and "items (push_published c t w) = items c"
    and "results (push_published c t w) = results c"
    and "popping (push_published c t w) = popping c"
    and "writing (push_published c t w) p \<longleftrightarrow> writing c p \<and> of_nat p \<noteq> (of_nat w :: size_t)"
proof -
  have "\<And>u. wpos (pcs c u) = Some (of_nat w) \<Longrightarrow> u = t"
    using claimsD(3)[OF conc_invD(2)[OF inv], of _ "of_nat w" t] t by simp
  then show "writing (push_published c t w) p \<longleftrightarrow> writing c p \<and> of_nat p \<noteq> (of_nat w :: size_t)"
    unfolding writing_def using ex_upd_release[of wpos "pcs c" t "of_nat w" "Push_done True"] t by auto
qed (use t in \<open>auto intro!: claimed_cong(2)\<close>)

lemma push_publish_slots:
  assumes inv: "conc_inv k c" and sm: "small k c" and t: "pcs c t = Push_publish (of_nat w)"
    and w64: "w < 2 ^ 64"
  shows "slots_ok k (push_published c t w)" (is "slots_ok k ?c")
  unfolding slots_ok_def push_published_frame(1-5)[OF inv t]
proof (intro conjI allI impI)
  note I = conc_invD[OF inv] and N = slot_neq[OF conc_invD(1)[OF inv]] and S = slotsD[OF conc_invD(3)[OF inv]]
  note sl = slot_of_store(2)[OF I(1)] and wr = push_published_frame(6)[OF inv t]
  have "wpos (pcs c t) = Some (of_nat w)" using t by simp
  note W = push_position[OF inv this w64]
  have "slot_data (slot_of k c w) = items c ! w" using I(4)[of t] W(1) t by simp
  then have new: "slot_of k ?c w = \<lparr>slot_sequence = of_nat (w + 1), slot_data = items c ! w\<rparr>"
    by (cases "slot_of k c w") (simp add: sl add.commute)
  {
    fix p assume p: "taken c \<le> p \<and> p < hpos c"
    have "of_nat p \<noteq> (of_nat w :: size_t)" if "p \<noteq> w"
      using of_nat_eq_64[of p w] that w64 sm p by (auto simp: small_def)
    then show "if writing ?c p then slot_sequence (slot_of k ?c p) = of_nat p
        else slot_of k ?c p = \<lparr>slot_sequence = of_nat (p + 1), slot_data = items c ! p\<rparr>"
      using new S(1,2)[of p] p N(1)[OF W(2,3), of p] wr[of p] by (cases "p = w") (simp_all add: sl)
  next
    fix p assume p: "p < taken c \<and> popping c p"
    then show "slot_of k ?c p = \<lparr>slot_sequence = of_nat (p + 1), slot_data = items c ! p\<rparr>"
      using S(3)[of p] N(2)[OF W(2,3), of p] popping_window[OF inv sm, of p] by (simp add: sl)
  next
    fix p assume "hpos c \<le> p \<and> p < taken c + 2 ^ k \<and> (\<forall>p'. p' + 2 ^ k = p \<longrightarrow> \<not> popping c p')"
    then show "slot_sequence (slot_of k ?c p) = of_nat p"
      using S(4)[of p] N(3)[OF W(2,3), of p] by (simp add: sl)
  }
qed

lemma push_publish_local:
  assumes inv: "conc_inv k c" and t: "pcs c t = Push_publish (of_nat w)" and w64: "w < 2 ^ 64"
  shows "local_ok k (push_published c t w) (pcs (push_published c t w) u)" (is "local_ok k ?c _")
proof -
  note I = conc_invD[OF inv] and sl = slot_of_store(2)[OF conc_invD(1)[OF inv]]
  have "wpos (pcs c t) = Some (of_nat w)" using t by simp
  note W = push_position[OF inv this w64]
  have "slot_data (slot_of k ?c p) = slot_data (slot_of k c p)" for p
    using sl by (auto simp: slot_of_def)
  moreover have "slot_of k ?c (hpos c) = slot_of k c (hpos c)" if "hpos c < taken c + 2 ^ k"
    using slot_neq(3)[OF I(1) W(2,3), of "hpos c"] that by (simp add: sl)
  ultimately show ?thesis
    using I(4)[of u] push_published_frame(6)[OF inv t] by (cases "u = t"; cases "pcs c u") auto
qed

lemma conc_inv_push_publish:
  assumes inv: "conc_inv k c" and sm: "small k c" and t: "pcs c t = Push_publish (of_nat w)"
    and w64: "w < 2 ^ 64"
  shows "conc_inv k (push_published c t w)" (is "conc_inv k ?c")
proof -
  note I = conc_invD[OF inv] and F = push_published_frame[OF inv t]
  have "claims_ok k ?c" using I(2) unfolding claims_ok_def by auto
  moreover have "results_ok ?c" using I(5) unfolding results_ok_def F(1-5) .
  ultimately show ?thesis
    unfolding conc_inv_def
    using geometry_store(2)[OF I(1)] push_publish_slots[OF inv sm t w64] push_publish_local[OF inv t w64]
    by blast
qed

subsection \<open>A consumer claims and publishes\<close>

lemma results_okD:
  assumes "results_ok c"
  shows "distinct (map fst (results c))"
    and "\<And>p v. (p, v) \<in> set (results c) \<Longrightarrow> p < taken c \<and> v = items c ! p"
    and "\<And>p. p < taken c \<Longrightarrow> p \<in> fst ` set (results c) \<longleftrightarrow> \<not> popping c p"
  using assms unfolding results_ok_def by blast+

abbreviation pop_claimed :: "'a conc \<Rightarrow> nat \<Rightarrow> 'a conc" where
  "pop_claimed c t \<equiv> c\<lparr>cq := (cq c)\<lparr>q_tail := of_nat (taken c) + 1\<rparr>,
      pcs := (pcs c)(t := Pop_read (of_nat (taken c))), taken := taken c + 1\<rparr>"

lemma pop_claimed_frame:
  assumes "pcs c t = Pop_cas (of_nat (taken c))"
  shows "wpos (pcs (pop_claimed c t) u) = wpos (pcs c u)" and "items (pop_claimed c t) = items c"
    and "results (pop_claimed c t) = results c" and "taken (pop_claimed c t) = taken c + 1"
    and "slot_of k (pop_claimed c t) p = slot_of k c p" and "writing (pop_claimed c t) = writing c"
    and "popping (pop_claimed c t) p \<longleftrightarrow> popping c p \<or> of_nat p = (of_nat (taken c) :: size_t)"
  using assms ex_upd_claim[of ppos "pcs c" t]
  by (auto simp: slot_of_def popping_def intro!: claimed_cong(1))

lemma pop_claim_item:
  assumes inv: "conc_inv k c" and sm: "small k c" and t: "pcs c t = Pop_cas (of_nat (taken c))"
  shows "unat (of_nat (taken c) :: size_t) = taken c" and "taken c < hpos c" and "\<not> writing c (taken c)"
    and "wpos (pcs c u) = Some w \<Longrightarrow> unat w \<noteq> taken c"
    and "p < 2 ^ 64 \<Longrightarrow> of_nat p = (of_nat (taken c) :: size_t) \<longleftrightarrow> p = taken c" and "taken c < 2 ^ 64"
proof -
  show t64: "taken c < 2 ^ 64" using sm geometryD(8)[OF conc_invD(1)[OF inv]] by (simp add: small_def)
  show ut: "unat (of_nat (taken c) :: size_t) = taken c" using t64 unat_of_nat_64[of "taken c"] by simp
  show "taken c < hpos c" and nw: "\<not> writing c (taken c)"
    using conc_invD(4)[OF inv, of t] ut unfolding t by simp_all
  show "p < 2 ^ 64 \<Longrightarrow> of_nat p = (of_nat (taken c) :: size_t) \<longleftrightarrow> p = taken c"
    using of_nat_eq_64[OF _ t64] .
  show "unat w \<noteq> taken c" if "wpos (pcs c u) = Some w"
  proof
    assume "unat w = taken c"
    then have "w = of_nat (taken c)" using ut by (metis word_unat_eq_iff)
    then show False using that nw unfolding writing_def by blast
  qed
qed

lemma pop_claim_claims:
  assumes inv: "conc_inv k c" and sm: "small k c" and t: "pcs c t = Pop_cas (of_nat (taken c))"
  shows "claims_ok k (pop_claimed c t)" (is "claims_ok k ?c")
  unfolding claims_ok_def pop_claimed_frame(1)[OF t]
proof (intro conjI allI impI)
  note C = claimsD[OF conc_invD(2)[OF inv]] and R = pop_claim_item[OF inv sm t]
  {
    fix u w assume w: "wpos (pcs c u) = Some w"
    then show "taken ?c \<le> unat w" "unat w < hpos ?c" using C(1)[OF w] R(4)[OF w] by auto
  next
    fix u w assume "ppos (pcs ?c u) = Some w"
    then show "unat w < taken ?c" "hpos ?c \<le> unat w + 2 ^ k"
      using C(2)[of u w] R(1) geometryD(9)[OF conc_invD(1)[OF inv]] by (auto split: if_splits)
  next
    fix u u' w assume "wpos (pcs c u) = Some w \<and> wpos (pcs c u') = Some w"
    then show "u = u'" using C(3) by blast
  next
    fix u u' w assume "ppos (pcs ?c u) = Some w \<and> ppos (pcs ?c u') = Some w"
    then show "u = u'" using C(4)[of u w u'] C(2)[of u w] C(2)[of u' w] R(1) by (auto split: if_splits)
  }
qed

lemma pop_claim_slots:
  assumes inv: "conc_inv k c" and sm: "small k c" and t: "pcs c t = Pop_cas (of_nat (taken c))"
  shows "slots_ok k (pop_claimed c t)" (is "slots_ok k ?c")
  unfolding slots_ok_def pop_claimed_frame(1-6)[OF t]
proof (intro conjI allI impI)
  note S = slotsD[OF conc_invD(3)[OF inv]] and R = pop_claim_item[OF inv sm t] and po = pop_claimed_frame(7)[OF t]
  {
    fix p assume p: "taken c + 1 \<le> p \<and> p < hpos c"
    then show "if writing c p then slot_sequence (slot_of k c p) = of_nat p
        else slot_of k c p = \<lparr>slot_sequence = of_nat (p + 1), slot_data = items c ! p\<rparr>"
      using S(1,2)[of p] by simp
  next
    fix p assume p: "p < taken c + 1 \<and> popping ?c p"
    then have "p = taken c \<or> p < taken c \<and> popping c p" using po[of p] R(5)[of p] R(6) by auto
    then show "slot_of k c p = \<lparr>slot_sequence = of_nat (p + 1), slot_data = items c ! p\<rparr>"
      using S(3)[of p] S(2)[of p] R(2,3) by blast
  next
    fix p assume p: "hpos c \<le> p \<and> p < taken c + 1 + 2 ^ k \<and> (\<forall>p'. p' + 2 ^ k = p \<longrightarrow> \<not> popping ?c p')"
    then have "p \<noteq> taken c + 2 ^ k" using po by blast
    then show "slot_sequence (slot_of k c p) = of_nat p" using p S(4)[of p] po by simp
  }
qed

lemma pop_claim_results:
  assumes inv: "conc_inv k c" and sm: "small k c" and t: "pcs c t = Pop_cas (of_nat (taken c))"
  shows "results_ok (pop_claimed c t)" (is "results_ok ?c")
proof -
  note R = results_okD[OF conc_invD(5)[OF inv]] and Q = pop_claim_item[OF inv sm t]
  have "taken c \<notin> fst ` set (results c)" using R(2) by fastforce
  then have "p \<in> fst ` set (results c) \<longleftrightarrow> \<not> popping ?c p" if "p < taken c + 1" for p
    using that R(3)[of p] pop_claimed_frame(7)[OF t, of p] Q(5)[of p] Q(6) by (cases "p = taken c") auto
  then show ?thesis using R(1,2) unfolding results_ok_def pop_claimed_frame(2-4)[OF t] by fastforce
qed

lemma conc_inv_pop_claim:
  assumes inv: "conc_inv k c" and sm: "small k c" and t: "pcs c t = Pop_cas (of_nat (taken c))"
  shows "conc_inv k (pop_claimed c t)" (is "conc_inv k ?c")
proof -
  note I = conc_invD[OF inv]
  have "geometry k ?c" using I(1) pop_claim_item(2)[OF inv sm t] unfolding geometry_def by simp
  moreover have "local_ok k ?c (pcs ?c u)" for u
  proof (cases "u = t")
    case False
    have "unat v \<le> taken c" if "pcs c u = Pop_cas v" for v using I(4)[of u] that by simp
    then show ?thesis using False I(4)[of u] pop_claimed_frame(6)[OF t]
      by (cases "pcs c u") (auto simp: slot_of_def)
  qed simp
  ultimately show ?thesis
    unfolding conc_inv_def
    using pop_claim_claims[OF inv sm t] pop_claim_slots[OF inv sm t] pop_claim_results[OF inv sm t]
    by blast
qed

abbreviation pop_published :: "'a conc \<Rightarrow> nat \<Rightarrow> nat \<Rightarrow> 'a \<Rightarrow> 'a conc" where
  "pop_published c t w v \<equiv>
     c\<lparr>cq := slot_store_sequence (cq c) (of_nat w) (of_nat w + q_capacity (cq c)),
       pcs := (pcs c)(t := Pop_done (Some v)), results := results c @ [(w, v)]\<rparr>"

lemma pop_published_frame:
  assumes inv: "conc_inv k c" and t: "pcs c t = Pop_publish (of_nat w) v"
  shows "wpos (pcs (pop_published c t w v) u) = wpos (pcs c u)"
    and "taken (pop_published c t w v) = taken c" and "items (pop_published c t w v) = items c"
    and "writing (pop_published c t w v) = writing c"
    and "popping (pop_published c t w v) p \<longleftrightarrow> popping c p \<and> of_nat p \<noteq> (of_nat w :: size_t)"
    and "slot_of k (pop_published c t w v) p = (if p mod 2 ^ k = w mod 2 ^ k
      then (slot_of k c w)\<lparr>slot_sequence := of_nat (w + 2 ^ k)\<rparr> else slot_of k c p)"
proof -
  note I = conc_invD[OF inv]
  have "\<And>u. ppos (pcs c u) = Some (of_nat w) \<Longrightarrow> u = t"
    using claimsD(4)[OF I(2), of _ "of_nat w" t] t by simp
  then show "popping (pop_published c t w v) p \<longleftrightarrow> popping c p \<and> of_nat p \<noteq> (of_nat w :: size_t)"
    unfolding popping_def
    using ex_upd_release[of ppos "pcs c" t "of_nat w" "Pop_done (Some v)"] t by auto
  show "slot_of k (pop_published c t w v) p = (if p mod 2 ^ k = w mod 2 ^ k
      then (slot_of k c w)\<lparr>slot_sequence := of_nat (w + 2 ^ k)\<rparr> else slot_of k c p)"
    using slot_of_store(2)[OF I(1), where w = w and n = "of_nat w + q_capacity (cq c)" and p = p]
      geometryD(3)[OF I(1)] by (simp add: slot_of_def)
qed (use t in \<open>auto intro!: claimed_cong(1)\<close>)

text \<open>A consumer's claimed position precedes the tail, and its slot has not been reused.\<close>

lemma pop_position:
  assumes inv: "conc_inv k c" and sm: "small k c" and t: "pcs c t = Pop_publish (of_nat w) v"
    and w64: "w < 2 ^ 64"
  shows "w < taken c" and "hpos c \<le> w + 2 ^ k" and "popping c w" and "v = items c ! w"
    and "p < taken c \<Longrightarrow> of_nat p = (of_nat w :: size_t) \<longleftrightarrow> p = w"
proof -
  note I = conc_invD[OF inv]
  have u: "unat (of_nat w :: size_t) = w" using w64 unat_of_nat_64[of w] by simp
  show "w < taken c" "hpos c \<le> w + 2 ^ k" using claimsD(2)[OF I(2), of t] t u by auto
  show "popping c w" unfolding popping_def using t by (auto intro: exI[of _ t])
  show "v = items c ! w" using I(4)[of t] u t by simp
  show "p < taken c \<Longrightarrow> of_nat p = (of_nat w :: size_t) \<longleftrightarrow> p = w"
    using of_nat_eq_64[of p w] w64 sm geometryD(8)[OF I(1)] by (auto simp: small_def)
qed

lemma pop_publish_slots:
  assumes inv: "conc_inv k c" and sm: "small k c" and t: "pcs c t = Pop_publish (of_nat w) v"
    and w64: "w < 2 ^ 64"
  shows "slots_ok k (pop_published c t w v)" (is "slots_ok k ?c")
  unfolding slots_ok_def pop_published_frame(1-4)[OF inv t]
proof (intro conjI allI impI)
  note N = slot_neq[OF conc_invD(1)[OF inv]] and S = slotsD[OF conc_invD(3)[OF inv]]
    and W = pop_position[OF inv sm t w64]
  note po = pop_published_frame(5)[OF inv t] and sl = pop_published_frame(6)[OF inv t]
  {
    fix p assume p: "taken c \<le> p \<and> p < hpos c"
    then show "if writing c p then slot_sequence (slot_of k ?c p) = of_nat p
        else slot_of k ?c p = \<lparr>slot_sequence = of_nat (p + 1), slot_data = items c ! p\<rparr>"
      using S(1,2)[of p] N(2)[of p w] W(1,2) by (simp add: sl)
  next
    fix p assume p: "p < taken c \<and> popping ?c p"
    then have "popping c p" "p \<noteq> w" using po[of p] W(5)[of p] by blast+
    then show "slot_of k ?c p = \<lparr>slot_sequence = of_nat (p + 1), slot_data = items c ! p\<rparr>"
      using p S(3)[of p] N(4)[OF W(1,2), of p] popping_window[OF inv sm, of p] by (simp add: sl)
  next
    fix p assume p: "hpos c \<le> p \<and> p < taken c + 2 ^ k \<and> (\<forall>p'. p' + 2 ^ k = p \<longrightarrow> \<not> popping ?c p')"
    have "\<not> popping c p'" if "p' + 2 ^ k = p" "p \<noteq> w + 2 ^ k" for p'
      using that p po[of p'] W(5)[of p'] by auto
    then show "slot_sequence (slot_of k ?c p) = of_nat p"
      using p S(4)[of p] N(5)[OF W(1,2), of p] by (cases "p = w + 2 ^ k") (simp_all add: sl)
  }
qed

lemma pop_publish_local:
  assumes inv: "conc_inv k c" and sm: "small k c" and t: "pcs c t = Pop_publish (of_nat w) v"
    and w64: "w < 2 ^ 64"
  shows "local_ok k (pop_published c t w v) (pcs (pop_published c t w v) u)" (is "local_ok k ?c _")
proof (cases "u = t")
  case False
  note I = conc_invD[OF inv] and W = pop_position[OF inv sm t w64] and sl = pop_published_frame(6)[OF inv t]
  have "slot_data (slot_of k ?c p) = slot_data (slot_of k c p)" for p
    using sl[of p] by (auto simp: slot_of_def)
  moreover have "slot_of k ?c (hpos c) = slot_of k c (hpos c)"
    if "hpos c < taken c + 2 ^ k" "slot_sequence (slot_of k c (hpos c)) = of_nat (hpos c)"
    using slot_neq(5)[OF I(1) W(1,2), of "hpos c"] head_slot_vacated[OF inv sm that(2) W(3,1)] that
    by (simp add: sl)
  ultimately show ?thesis
    using False I(4)[of u] pop_published_frame(4)[OF inv t] by (cases "pcs c u") auto
qed simp

lemma pop_publish_results:
  assumes inv: "conc_inv k c" and sm: "small k c" and t: "pcs c t = Pop_publish (of_nat w) v"
    and w64: "w < 2 ^ 64"
  shows "results_ok (pop_published c t w v)" (is "results_ok ?c")
proof -
  note R = results_okD[OF conc_invD(5)[OF inv]] and W = pop_position[OF inv sm t w64]
  have "w \<notin> fst ` set (results c)" using R(3)[OF W(1)] W(3) by blast
  moreover have "p \<in> fst ` set (results ?c) \<longleftrightarrow> \<not> popping ?c p" if "p < taken c" for p
  proof -
    have "p \<in> fst ` set (results ?c) \<longleftrightarrow> p = w \<or> p \<in> fst ` set (results c)" by auto
    then show ?thesis using R(3)[OF that] pop_published_frame(5)[OF inv t, of p] W(5)[OF that] by blast
  qed
  ultimately show ?thesis
    unfolding results_ok_def pop_published_frame(2,3)[OF inv t] using R(1,2) W(1,4) by simp
qed

lemma conc_inv_pop_publish:
  assumes inv: "conc_inv k c" and sm: "small k c" and t: "pcs c t = Pop_publish (of_nat w) v"
    and w64: "w < 2 ^ 64"
  shows "conc_inv k (pop_published c t w v)" (is "conc_inv k ?c")
proof -
  note I = conc_invD[OF inv]
  have "geometry k ?c" using geometry_store(2)[OF I(1)] by (simp add: geometry_def)
  moreover have "claims_ok k ?c"
    using I(2) unfolding claims_ok_def pop_published_frame(1)[OF inv t] by auto
  ultimately show ?thesis
    unfolding conc_inv_def
    using pop_publish_slots[OF inv sm t w64] pop_publish_local[OF inv sm t w64]
      pop_publish_results[OF inv sm t w64] by blast
qed

subsection \<open>All steps\<close>

text \<open>What a thread has learnt when the sequence number of its slot is the one it waits for.\<close>

lemma push_seq_to_cas:
  assumes inv: "conc_inv k c" and sm: "small k c"
    and w: "slot_sequence (slot_of k c (unat w)) = w" "unat w \<le> hpos c"
  shows "local_ok k c (Push_cas x w)"
proof -
  note G = geometryD[OF conc_invD(1)[OF inv]] and k1 = capacity_gt_1[OF conc_invD(1)[OF inv]]
  have "hpos c < taken c + 2 ^ k" if h: "unat w = hpos c"
  proof (rule ccontr)
    assume "\<not> hpos c < taken c + 2 ^ k"
    then have e: "hpos c = taken c + 2 ^ k" using G(9) by simp
    have "slot_of k c (unat w) = slot_of k c (taken c)" unfolding h e slot_of_def by simp
    then have s: "unat (slot_sequence (slot_of k c (taken c))) = hpos c" using w(1) h by simp
    have "taken c < taken c + 2 ^ k" by simp
    with inv sm order.refl show False
      by (cases rule: window_sequence) (use s e k1 in auto)
  qed
  moreover have "slot_sequence (slot_of k c (hpos c)) = of_nat (hpos c)" if "unat w = hpos c"
    using w(1) that[symmetric] by simp
  ultimately show ?thesis using w(2) by simp
qed

lemma pop_seq_to_cas:
  assumes inv: "conc_inv k c" and sm: "small k c"
    and w: "slot_sequence (slot_of k c (unat w)) = w + 1" "unat w \<le> taken c"
  shows "local_ok k c (Pop_cas w)"
proof -
  note G = geometryD[OF conc_invD(1)[OF inv]]
  have "taken c < hpos c \<and> \<not> writing c (taken c)" if e: "unat w = taken c"
  proof -
    have "w + 1 = of_nat (taken c + 1)" unfolding e[symmetric] by (simp add: add.commute)
    moreover have "taken c + 1 < 2 ^ 64"
      using sm G(8) capacity_gt_1[OF conc_invD(1)[OF inv]] unfolding small_def by simp
    ultimately have s: "unat (slot_sequence (slot_of k c (taken c))) = taken c + 1"
      using w(1) e unat_of_nat_64[of "taken c + 1"] by (simp add: add.commute)
    have "taken c < taken c + 2 ^ k" by simp
    with inv sm order.refl show ?thesis
      by (cases rule: window_sequence) (use s in auto)
  qed
  then show ?thesis using w(2) by simp
qed

lemma record_step_simps [simp]:
  "record_step (Push_load x) p c = c" "record_step (Push_seq x w) p c = c"
  "record_step (Push_cas x w) (Push_write y v) c = c\<lparr>items := items c @ [x]\<rparr>"
  "record_step (Push_cas x w) (Push_seq y v) c = c"
  "record_step (Push_write x w) p c = c" "record_step (Push_publish w) p c = c" "record_step (Push_done b) p c = c"
  "record_step Pop_load p c = c" "record_step (Pop_seq w) p c = c"
  "record_step (Pop_cas w) (Pop_read v) c = c\<lparr>taken := taken c + 1\<rparr>"
  "record_step (Pop_cas w) (Pop_seq v) c = c"
  "record_step (Pop_read w) p c = c"
  "record_step (Pop_publish w y) p c = c\<lparr>results := results c @ [(unat w, y)]\<rparr>" "record_step (Pop_done r) p c = c"
  by (simp_all add: record_step_def)

lemma record_step_frame [simp]:
  "cq (record_step p p' c) = cq c" "pcs (record_step p p' c) = pcs c"
  by (simp_all add: record_step_def split: pc.split)

lemma items_record_step: "hpos c \<le> hpos (record_step p p' c)"
  by (simp add: record_step_def split: pc.split)

lemma conc_step_items: "conc_step c c' \<Longrightarrow> hpos c \<le> hpos c'"
  by (erule conc_step.cases)
    (auto simp: conc_thread_def split_beta Let_def intro: order.trans[OF _ items_record_step])

lemma position_facts:
  assumes inv: "conc_inv k c" and sm: "small k c"
  shows "unat (q_head (cq c)) = hpos c" and "unat (q_tail (cq c)) = taken c"
    and "slot_at (cq c) w = slot_of k c (unat w)" and "unat (w :: size_t) < 2 ^ 64"
  using geometryD(6-8)[OF conc_invD(1)[OF inv]] sm unat_of_nat_64[of "hpos c"] unat_of_nat_64[of "taken c"]
    slot_at_nat(2)[OF conc_invD(1)[OF inv], of "unat w"] unsigned_less[of w]
  by (simp_all add: small_def)

lemma conc_inv_seq:
  assumes inv: "conc_inv k c" and sm: "small k c"
    and t: "pcs c t = Push_seq x w \<or> pcs c t = Pop_seq w"
  shows "conc_inv k (conc_thread t ok c)"
proof -
  note I = conc_invD[OF inv] and sl = position_facts(3)[OF inv sm]
  from t show ?thesis
  proof
    assume "pcs c t = Push_seq x w"
    then show ?thesis
      using I(4)[of t] conc_inv_pc[OF inv, of _ t] push_seq_to_cas[OF inv sm, of w x]
      by (auto simp: conc_thread_def Let_def sl simp del: local_ok.simps(2))
  next
    assume "pcs c t = Pop_seq w"
    then show ?thesis
      using I(4)[of t] conc_inv_pc[OF inv, of _ t] pop_seq_to_cas[OF inv sm, of w]
      by (auto simp: conc_thread_def Let_def sl simp del: local_ok.simps(6))
  qed
qed

lemma conc_inv_cas:
  assumes inv: "conc_inv k c" and sm: "small k c"
    and t: "pcs c t = Push_cas x w \<or> pcs c t = Pop_cas w"
  shows "conc_inv k (conc_thread t ok c)"
proof -
  note G = geometryD[OF conc_invD(1)[OF inv]] and u = position_facts(1,2)[OF inv sm]
  from t show ?thesis
  proof
    assume "pcs c t = Push_cas x w"
    then show ?thesis
      using conc_inv_push_claim[OF inv sm, of t x] conc_inv_pc[OF inv, of "Push_seq x (q_head (cq c))" t] G(6) u
      by (cases "ok \<and> q_head (cq c) = w") (auto simp: conc_thread_def)
  next
    assume "pcs c t = Pop_cas w"
    then show ?thesis
      using conc_inv_pop_claim[OF inv sm, of t] conc_inv_pc[OF inv, of "Pop_seq (q_tail (cq c))" t] G(7) u
      by (cases "ok \<and> q_tail (cq c) = w") (auto simp: conc_thread_def)
  qed
qed

lemma conc_inv_pop_read:
  assumes inv: "conc_inv k c" and sm: "small k c" and t: "pcs c t = Pop_read w"
  shows "conc_inv k (conc_thread t ok c)"
proof -
  note I = conc_invD[OF inv]
  have "popping c (unat w)" unfolding popping_def using t by (auto intro: exI[of _ t])
  moreover have "unat w < taken c" using claimsD(2)[OF I(2), of t w] t by simp
  ultimately have "slot_data (slot_of k c (unat w)) = items c ! unat w"
    using slotsD(3)[OF I(3)] by simp
  then show ?thesis
    using conc_inv_pc[OF inv, of "Pop_publish w (slot_data (slot_at (cq c) w))" t] t
    by (simp add: conc_thread_def position_facts(3)[OF inv sm])
qed

lemma conc_inv_thread:
  assumes inv: "conc_inv k c" and sm: "small k c"
  shows "conc_inv k (conc_thread t ok c)"
proof -
  note u = position_facts[OF inv sm]
  show ?thesis
  proof (cases "pcs c t")
    case (Push_load x)
    then show ?thesis using conc_inv_pc[OF inv, of "Push_seq x (q_head (cq c))" t] u
      by (simp add: conc_thread_def)
  next
    case (Push_write x w)
    then show ?thesis using conc_inv_push_write[OF inv sm, of t x "unat w"] u(4)[of w]
      by (simp add: conc_thread_def)
  next
    case (Push_publish w)
    then show ?thesis using conc_inv_push_publish[OF inv sm, of t "unat w"] u(4)[of w]
      by (simp add: conc_thread_def)
  next
    case Pop_load
    then show ?thesis using conc_inv_pc[OF inv, of "Pop_seq (q_tail (cq c))" t] u
      by (simp add: conc_thread_def)
  next
    case (Push_done b)
    then show ?thesis using inv by (simp add: conc_thread_def fun_upd_idem)
  next
    case (Pop_done r)
    then show ?thesis using inv by (simp add: conc_thread_def fun_upd_idem)
  next
    case (Pop_publish w v)
    then show ?thesis using conc_inv_pop_publish[OF inv sm, of t "unat w" v] u(4)[of w]
      by (simp add: conc_thread_def)
  qed (blast intro: conc_inv_seq[OF inv sm] conc_inv_cas[OF inv sm] conc_inv_pop_read[OF inv sm])+
qed

lemma conc_inv_step:
  assumes "conc_step c c'" and "conc_inv k c" and "small k c"
  shows "conc_inv k c'"
  using assms
proof (cases rule: conc_step.cases)
  case (call_push t x)
  then have "wpos (pcs c t) = None \<and> ppos (pcs c t) = None" by (cases "pcs c t") auto
  then show ?thesis using call_push conc_inv_pc[OF assms(2), of "Push_load x" t] by simp
next
  case (call_pop t)
  then have "wpos (pcs c t) = None \<and> ppos (pcs c t) = None" by (cases "pcs c t") auto
  then show ?thesis using call_pop conc_inv_pc[OF assms(2), of Pop_load t] by simp
next
  case (thread t ok)
  then show ?thesis using conc_inv_thread[OF assms(2,3)] by simp
qed

lemma conc_inv_init:
  assumes "ring_rel q k 0 []" and "k \<le> 62"
  shows "conc_inv k (conc_init q)"
proof -
  note D = ring_relD[OF assms(1)]
  have "geometry k (conc_init q)" using D(1,3-7) assms(2) by (simp add: geometry_def conc_init_def)
  moreover have "claims_ok k (conc_init q)" by (simp add: claims_ok_def conc_init_def)
  moreover have "slots_ok k (conc_init q)"
    using D(10) by (auto simp: slots_ok_def conc_init_def slot_of_def)
  moreover have "results_ok (conc_init q)" by (simp add: results_ok_def conc_init_def)
  ultimately show ?thesis by (simp add: conc_inv_def conc_init_def)
qed

lemma conc_inv_reach:
  assumes "conc_reach q c" and "ring_rel q k 0 []" and "k \<le> 62"
  shows "small k c \<Longrightarrow> conc_inv k c"
  using assms(1)
proof (induction rule: conc_reach.induct)
  case init
  then show ?case using conc_inv_init[OF assms(2,3)] by simp
next
  case (step c c')
  then have "small k c" using conc_step_items[of c c'] by (simp add: small_def)
  then show ?case using step conc_inv_step by blast
qed

section \<open>Consequences of the invariant\<close>

lemma window_position:
  assumes "n > 0"
  obtains p where "t \<le> p" and "p < t + n" and "p mod n = w mod (n :: nat)"
proof -
  define p where "p = t + (w + n * t - t) mod n"
  have "t \<le> n * t" using assms by (cases n) simp_all
  then have n: "t + (w + n * t - t) = w + n * t" by linarith
  have "p mod n = (t + (w + n * t - t)) mod n" by (simp only: p_def mod_add_right_eq)
  then have "p mod n = w mod n" unfolding n by simp
  then show thesis using that[of p] assms by (simp add: p_def)
qed

lemma seq_diff_neg:
  assumes "unat a < 2 ^ 63" and "unat b < 2 ^ 63" and "seq_diff a b < 0"
  shows "unat a < unat b"
  using seq_diff_exact[OF assms(1,2)] assms(3) by linarith

lemma window_position_old:
  assumes "w < p" and "p mod n = w mod n" and "(n :: nat) > 0"
  shows "w + n \<le> p"
  using mod_neq[OF assms(1), of n] assms(2) by linarith

text \<open>No slot of a position up to the head is ahead of the window by less than what its state says:
  a stale position never looks as if its slot were behind it.\<close>

lemma sequence_not_behind:
  assumes inv: "conc_inv k c" and sm: "small k c" and w: "w < taken c"
  shows "w + 1 \<le> unat (slot_sequence (slot_of k c w))"
proof -
  have n: "(2 :: nat) ^ k > 0" by simp
  obtain p where p: "taken c \<le> p" "p < taken c + 2 ^ k" "p mod 2 ^ k = w mod 2 ^ k"
    using window_position[OF n] by blast
  have old: "w + 2 ^ k \<le> p" using window_position_old[OF _ p(3) n] p(1) w by simp
  then have "w + 1 \<le> p" using one_le_power[of "2 :: nat" k] by linarith
  moreover have "slot_of k c w = slot_of k c p" using p(3) by (simp add: slot_of_def)
  ultimately show ?thesis
    using old by (cases rule: window_sequence[OF inv sm p(1,2)]) auto
qed

lemma seq_bound:
  assumes inv: "conc_inv k c" and sm: "small k c" and w: "w \<le> hpos c"
  shows "unat (slot_sequence (slot_of k c w)) < 2 ^ 63"
proof -
  note G = geometryD[OF conc_invD(1)[OF inv]]
  have n: "(2 :: nat) ^ k > 0" by simp
  obtain p where p: "taken c \<le> p" "p < taken c + 2 ^ k" "p mod 2 ^ k = w mod 2 ^ k"
    using window_position[OF n] by blast
  have "slot_of k c w = slot_of k c p" using p(3) by (simp add: slot_of_def)
  moreover have "p + 1 < 2 ^ 63" using p(2) sm G(8) unfolding small_def by linarith
  ultimately show ?thesis
    by (cases rule: window_sequence[OF inv sm p(1,2)]) auto
qed

lemma push_false:
  assumes inv: "conc_inv k c" and sm: "small k c" and t: "pcs c t = Push_seq x w"
    and neg: "seq_diff (slot_sequence (slot_at (cq c) w)) w < 0"
  shows "unat w = hpos c \<and> (hpos c = taken c + 2 ^ k \<or> (\<exists>p. p + 2 ^ k = hpos c \<and> popping c p))"
proof -
  note I = conc_invD[OF inv] and G = geometryD[OF conc_invD(1)[OF inv]]
  let ?s = "slot_sequence (slot_of k c (unat w))"
  have w: "unat w \<le> hpos c" using I(4)[of t] t by simp
  have "slot_at (cq c) w = slot_of k c (unat w)" using slot_at_nat(2)[OF I(1), of "unat w"] by simp
  moreover have "unat w < 2 ^ 63" using w sm unfolding small_def by linarith
  ultimately have lt: "unat ?s < unat w"
    using neg seq_diff_neg[OF seq_bound[OF inv sm w], of w] by simp
  have ge: "taken c \<le> unat w" using sequence_not_behind[OF inv sm, of "unat w"] lt by linarith
  show ?thesis
  proof (cases "unat w < taken c + 2 ^ k")
    case True
    show ?thesis
      using lt w by (cases rule: window_sequence[OF inv sm ge True]) auto
  next
    case False
    then show ?thesis using w G(9) by simp
  qed
qed

lemma pop_false:
  assumes inv: "conc_inv k c" and sm: "small k c" and t: "pcs c t = Pop_seq w"
    and neg: "seq_diff (slot_sequence (slot_at (cq c) w)) (w + 1) < 0"
  shows "unat w = taken c \<and> (taken c = hpos c \<or> writing c (taken c))"
proof -
  note I = conc_invD[OF inv] and G = geometryD[OF conc_invD(1)[OF inv]]
  let ?s = "slot_sequence (slot_of k c (unat w))"
  have w: "unat w \<le> taken c" using I(4)[of t] t by simp
  have sl: "slot_at (cq c) w = slot_of k c (unat w)" using slot_at_nat(2)[OF I(1), of "unat w"] by simp
  have b: "unat w + 1 < 2 ^ 63"
    using w G(8) sm one_le_power[of "2 :: nat" k] unfolding small_def by linarith
  have uw: "unat (w + 1) = unat w + 1" using b unat_of_nat_64[of "unat w + 1"] by (simp add: add.commute)
  have lt: "unat ?s < unat w + 1"
    using neg seq_diff_neg[OF seq_bound[OF inv sm], of "unat w" "w + 1"] w G(8) b uw sl by simp
  have e: "unat w = taken c" using sequence_not_behind[OF inv sm, of "unat w"] lt w by linarith
  have "taken c < taken c + 2 ^ k" by simp
  then have "taken c = hpos c \<or> writing c (taken c)"
    using lt G(8) unfolding e by (cases rule: window_sequence[OF inv sm order.refl]) auto
  then show ?thesis using e by simp
qed

lemma new_ring_small:
  assumes "new_MpmcQueue sz dflt n = Some q" and "n \<le> 2 ^ 62"
  obtains k where "ring_rel q k 0 []" and "k \<le> 62" and "mpmc_cap q = 2 ^ k"
proof -
  have n: "unat n \<le> 2 ^ 62" using assms(2) unat_pow[of 62] by (simp add: word_le_nat_alt)
  obtain k where k: "ring_rel q k 0 []" "k = 1 \<or> 2 ^ (k - 1) < unat n"
    using ring_rel_new[OF assms(1)] by blast
  have "k \<le> 62"
  proof (rule ccontr)
    assume "\<not> k \<le> 62"
    then have "(2 :: nat) ^ 62 \<le> 2 ^ (k - 1)" by (intro power_increasing) simp_all
    then show False using k(2) n \<open>\<not> k \<le> 62\<close> by linarith
  qed
  then show thesis using that k(1) mpmc_cap_ring by blast
qed

text \<open>When every call has returned, the queue represents the items not taken yet.\<close>

lemma quiescent_rep:
  assumes inv: "conc_inv k c" and ret: "\<forall>t. returned (pcs c t)"
  shows "ring_rel (cq c) k (taken c) (drop (taken c) (items c))"
proof -
  note I = conc_invD[OF inv] and G = geometryD[OF conc_invD(1)[OF inv]]
  have "wpos (pcs c t) = None" "ppos (pcs c t) = None" for t
    using ret[rule_format, of t] by (cases "pcs c t"; simp)+
  then have no: "\<not> writing c p" "\<not> popping c p" for p by (simp_all add: writing_def popping_def)
  have "slot_of k c (taken c + i) = \<lparr>slot_sequence = of_nat (taken c + i + 1),
      slot_data = drop (taken c) (items c) ! i\<rparr>" if "i < hpos c - taken c" for i
    using slotsD(2)[OF I(3), of "taken c + i"] that no G(8) by simp
  moreover have "slot_sequence (slot_of k c (taken c + i)) = of_nat (taken c + i)"
    if "hpos c - taken c \<le> i" "i < 2 ^ k" for i
    using slotsD(4)[OF I(3), of "taken c + i"] that no G(8) by simp
  ultimately show ?thesis
    using G unfolding ring_rel_def slot_of_def by simp
qed

lemma results_mset:
  assumes "results_ok c" and "taken c \<le> hpos c" and "\<And>p. \<not> popping c p"
  shows "mset (map snd (results c)) = mset (take (taken c) (items c))"
proof -
  have R: "distinct (map fst (results c))"
    "\<And>p v. (p, v) \<in> set (results c) \<Longrightarrow> p < taken c \<and> v = items c ! p"
    "\<And>p. p < taken c \<Longrightarrow> p \<in> fst ` set (results c)"
    using assms(1,3) unfolding results_ok_def by blast+
  have "set (map fst (results c)) = set [0 ..< taken c]" using R(2,3) by fastforce
  then have "mset (map fst (results c)) = mset [0 ..< taken c]"
    using R(1) by (simp only: set_eq_iff_mset_eq_distinct distinct_upt)
  then have "mset (map ((!) (items c)) (map fst (results c))) = mset (map ((!) (items c)) [0 ..< taken c])"
    by (simp only: mset_map)
  moreover have "map ((!) (items c)) (map fst (results c)) = map snd (results c)"
    using R(2) by (auto simp: list_eq_iff_nth_eq) (metis nth_mem prod.collapse)
  moreover have "map ((!) (items c)) [0 ..< taken c] = take (taken c) (items c)"
    using assms(2) by (simp add: list_eq_iff_nth_eq)
  ultimately show ?thesis by metis
qed

subsection \<open>A thread that runs alone\<close>

definition solo :: "nat \<Rightarrow> 'a MpmcQueue \<Rightarrow> 'a pc \<Rightarrow> 'a MpmcQueue \<times> 'a pc" where
  "solo n q p = ((\<lambda>(q, p). mpmc_step True q p) ^^ n) (q, p)"

lemma solo_0 [simp]: "solo 0 q p = (q, p)"
  by (simp add: solo_def)

lemma solo_Suc [simp]: "solo (Suc n) q p = (let (q', p') = mpmc_step True q p in solo n q' p')"
  by (simp add: solo_def funpow_swap1 split_beta)

lemma push_head_seq:
  assumes rel: "ring_rel q k t xs"
  shows "slot_sequence (slot_at q (q_head q)) = q_head q
    \<or> seq_diff (slot_sequence (slot_at q (q_head q))) (q_head q) < 0"
proof (cases "length xs < 2 ^ k")
  case True
  then show ?thesis
    using ring_relD(10)[OF rel order.refl True] slot_index_ring[OF rel, of "t + length xs"]
    unfolding slot_at_def ring_relD(7)[OF rel] by simp
next
  case False
  note D = ring_relD[OF rel]
  have full: "length xs = 2 ^ k" using False D(8) by simp
  then have len: "1 < length xs" using D(1) one_less_power[of "2 :: nat" k] by simp
  have "slot_index q (of_nat (t + length xs)) = (t + 0) mod 2 ^ k"
    using slot_index_ring[OF rel, of "t + length xs"] full by simp
  then have "slot_sequence (slot_at q (q_head q)) = of_nat (t + 1)"
    using D(9)[OF order_less_trans[OF zero_less_one len]] unfolding slot_at_def D(7) by simp
  moreover have "seq_diff (of_nat (t + 1)) (of_nat (t + 1 + (length xs - 1))) < 0"
    using len full pow_le_63[OF D(2)] by (intro seq_diff_behind) linarith+
  ultimately show ?thesis using len unfolding D(7) by simp
qed

lemma pop_tail_seq:
  assumes rel: "ring_rel q k t xs"
  shows "slot_sequence (slot_at q (q_tail q)) = q_tail q + 1
    \<or> seq_diff (slot_sequence (slot_at q (q_tail q))) (q_tail q + 1) < 0"
proof (cases xs)
  case (Cons x ys)
  then show ?thesis
    using ring_relD(9)[OF rel, of 0] slot_index_ring[OF rel, of t]
    unfolding slot_at_def ring_relD(6)[OF rel] by (simp add: add.commute)
next
  case Nil
  have "seq_diff (of_nat t) (of_nat (t + 1)) < 0" by (rule seq_diff_behind) simp_all
  then show ?thesis
    using ring_relD(10)[OF rel, of 0] slot_index_ring[OF rel, of t] Nil
    unfolding slot_at_def ring_relD(6)[OF rel] by (simp add: add.commute)
qed

section \<open>Properties\<close>

text \<open>
  C2: under every interleaving of producers and consumers, every finished pop returns the item
  that was pushed at its position, no position is handed out twice, positions are handed out in the
  order of the pushes, and there are never more than capacity items. Once every call has returned,
  the popped items are exactly the first items pushed, each once, and the queue represents the rest
  in order. The bound on the number of pushes excludes only runs of more than \<open>2 ^ 62\<close> of them.
\<close>

theorem mpmc_concurrent_exactly_once:
  assumes "new_MpmcQueue sz dflt n = Some q" and "n \<le> 2 ^ 62" and "conc_reach q c"
    and "length (items c) < 2 ^ 62"
  shows "distinct (map fst (results c))
    \<and> (\<forall>(p, v) \<in> set (results c). p < taken c \<and> v = items c ! p)
    \<and> taken c \<le> length (items c) \<and> length (items c) \<le> taken c + mpmc_cap q
    \<and> ((\<forall>t. returned (pcs c t)) \<longrightarrow>
         mset (map snd (results c)) = mset (take (taken c) (items c))
         \<and> mpmc_rep (cq c) (drop (taken c) (items c)))"
proof -
  obtain k where k: "ring_rel q k 0 []" "k \<le> 62" "mpmc_cap q = 2 ^ k"
    using new_ring_small[OF assms(1,2)] by blast
  have "(2 :: nat) ^ k \<le> 2 ^ 62" using k(2) by (intro power_increasing) simp_all
  then have "small k c" using assms(4) by (simp add: small_def)
  then have inv: "conc_inv k c" by (rule conc_inv_reach[OF assms(3) k(1,2)])
  note I = conc_invD[OF inv] and G = geometryD[OF conc_invD(1)[OF inv]]
  have "\<not> popping c p" if "\<forall>t. returned (pcs c t)" for p
  proof -
    have "ppos (pcs c t) = None" for t using that[rule_format, of t] by (cases "pcs c t"; simp)
    then show ?thesis by (simp add: popping_def)
  qed
  then have "(\<forall>t. returned (pcs c t)) \<longrightarrow>
         mset (map snd (results c)) = mset (take (taken c) (items c))
         \<and> mpmc_rep (cq c) (drop (taken c) (items c))"
    using results_mset[OF I(5) G(8)] quiescent_rep[OF inv] unfolding mpmc_rep_def by blast
  moreover have "\<forall>(p, v) \<in> set (results c). p < taken c \<and> v = items c ! p"
    "distinct (map fst (results c))"
    using I(5) unfolding results_ok_def by auto
  ultimately show ?thesis using G(8,9) k(3) by simp
qed

lemma conc_run:
  "conc_reach q c \<Longrightarrow> conc_reach q (conc_thread t ok c)"
  by (blast intro: conc_reach.step conc_step.thread)

lemma conc_call:
  "conc_reach q c \<Longrightarrow> returned (pcs c t) \<Longrightarrow> conc_reach q (c\<lparr>pcs := (pcs c)(t := Push_load x)\<rparr>)"
  "conc_reach q c \<Longrightarrow> returned (pcs c t) \<Longrightarrow> conc_reach q (c\<lparr>pcs := (pcs c)(t := Pop_load)\<rparr>)"
  by (blast intro: conc_reach.step conc_step.call_push conc_step.call_pop)+

text \<open>A concrete run: thread 0 pushes 7 while thread 1 is in the middle of a pop that finds it.\<close>

definition demo_queue :: "int MpmcQueue" where
  "demo_queue = \<lparr>q_buffer = init_slots 0 2, q_capacity = 2, q_mask = 1, q_head = 0, q_tail = 0\<rparr>"

definition demo_run :: "int conc" where
  "demo_run = (let
     c0 = conc_init demo_queue;
     c1 = c0\<lparr>pcs := (pcs c0)(0 := Push_load 7)\<rparr>;
     c2 = c1\<lparr>pcs := (pcs c1)(1 := Pop_load)\<rparr>;
     c3 = (conc_thread 1 True \<circ> conc_thread 0 True \<circ> conc_thread 0 False \<circ> conc_thread 0 True
           \<circ> conc_thread 0 True) c2;
     c4 = (conc_thread 0 True \<circ> conc_thread 0 True \<circ> conc_thread 0 True) c3
   in (conc_thread 1 True \<circ> conc_thread 1 True \<circ> conc_thread 1 True \<circ> conc_thread 1 True) c4)"

lemma demo_new: "new_MpmcQueue 16 0 2 = Some demo_queue"
proof -
  have "round_capacity 2 2 = Some 2" by (subst round_capacity.simps) simp
  then show ?thesis by (simp add: new_MpmcQueue_def slots_fit_def demo_queue_def)
qed

lemma demo_reach: "conc_reach demo_queue demo_run"
  unfolding demo_run_def Let_def comp_def
  by (intro conc_run conc_call conc_reach.init) (simp_all add: conc_init_def)

lemma conc_thread_other: "u \<noteq> t \<Longrightarrow> pcs (conc_thread t ok c) u = pcs c u"
  by (simp add: conc_thread_def split_beta Let_def)

lemma demo_result:
  "results demo_run = [(0, 7)]" "items demo_run = [7]" "taken demo_run = 1"
  "pcs demo_run 0 = Push_done True" "pcs demo_run 1 = Pop_done (Some 7)"
  by code_simp+

lemma demo_returned: "returned (pcs demo_run t)"
proof -
  consider "t = 0" | "t = 1" | "t \<noteq> 0" "t \<noteq> 1" by blast
  then show ?thesis
  proof cases
    case 3
    then have "pcs demo_run t = Push_done False"
      by (simp add: demo_run_def conc_thread_other conc_init_def)
    then show ?thesis by simp
  qed (simp_all add: demo_result del: One_nat_def)
qed

theorem mpmc_concurrent_exactly_once_witness:
  "conc_reach demo_queue demo_run \<and> distinct (map fst (results demo_run))
   \<and> mset (map snd (results demo_run)) = {#7#} \<and> mpmc_rep (cq demo_run) []"
proof -
  have "(2 :: size_t) \<le> 2 ^ 62" and "length (items demo_run) < 2 ^ 62"
    using demo_result by simp_all
  from mpmc_concurrent_exactly_once[OF demo_new this(1) demo_reach this(2)]
  show ?thesis using demo_result demo_returned demo_reach by simp
qed

text \<open>
  C25: a push gives up only when the queue holds capacity items or the consumer that took the
  oldest of them has not released its slot yet; a pop gives up only when there is no item or the
  producer of the oldest one has not published it yet.
\<close>

theorem mpmc_concurrent_false:
  assumes "new_MpmcQueue sz dflt n = Some q" and "n \<le> 2 ^ 62" and "conc_reach q c"
    and "length (items c) < 2 ^ 62"
  shows "(\<forall>x w. pcs c t = Push_seq x w \<and> pcs (conc_thread t ok c) t = Push_done False \<longrightarrow>
            length (items c) = taken c + mpmc_cap q
            \<or> (\<exists>p. p + mpmc_cap q = length (items c) \<and> popping c p))
       \<and> (\<forall>w. pcs c t = Pop_seq w \<and> pcs (conc_thread t ok c) t = Pop_done None \<longrightarrow>
            taken c = length (items c) \<or> writing c (taken c))"
proof -
  obtain k where k: "ring_rel q k 0 []" "k \<le> 62" "mpmc_cap q = 2 ^ k"
    using new_ring_small[OF assms(1,2)] by blast
  have "(2 :: nat) ^ k \<le> 2 ^ 62" using k(2) by (intro power_increasing) simp_all
  then have sm: "small k c" using assms(4) by (simp add: small_def)
  then have inv: "conc_inv k c" by (rule conc_inv_reach[OF assms(3) k(1,2)])
  have "length (items c) = taken c + mpmc_cap q \<or> (\<exists>p. p + mpmc_cap q = length (items c) \<and> popping c p)"
    if "pcs c t = Push_seq x w" "pcs (conc_thread t ok c) t = Push_done False" for x w
    using push_false[OF inv sm that(1)] that k(3)
    by (simp add: conc_thread_def Let_def split: if_splits)
  moreover have "taken c = length (items c) \<or> writing c (taken c)"
    if "pcs c t = Pop_seq w" "pcs (conc_thread t ok c) t = Pop_done None" for w
    using pop_false[OF inv sm that(1)] that by (simp add: conc_thread_def Let_def split: if_splits)
  ultimately show ?thesis by blast
qed

theorem mpmc_concurrent_false_witness:
  "let c = conc_thread 0 True ((conc_init demo_queue)\<lparr>pcs := (pcs (conc_init demo_queue))(0 := Pop_load)\<rparr>)
   in conc_reach demo_queue c \<and> pcs c 0 = Pop_seq 0 \<and> pcs (conc_thread 0 True c) 0 = Pop_done None
     \<and> (taken c = length (items c) \<or> writing c (taken c))"
proof -
  define c where
    "c = conc_thread 0 True ((conc_init demo_queue)\<lparr>pcs := (pcs (conc_init demo_queue))(0 := Pop_load)\<rparr>)"
  have r: "conc_reach demo_queue c"
    unfolding c_def by (intro conc_run conc_call conc_reach.init) (simp add: conc_init_def)
  have i: "(2 :: size_t) \<le> 2 ^ 62" "length (items c) < 2 ^ 62"
    by (simp_all add: c_def conc_thread_def conc_init_def)
  have p: "pcs c 0 = Pop_seq 0" "pcs (conc_thread 0 True c) 0 = Pop_done None"
    by (simp_all add: c_def conc_thread_def conc_init_def demo_queue_def seq_diff_def slot_at_def
        slot_index_def init_slots_def upt_rec)
  from mpmc_concurrent_false[OF demo_new i(1) r i(2), of 0 True] p r
  show ?thesis unfolding c_def[symmetric] Let_def by blast
qed

text \<open>
  C26: a thread that runs without interference on a queue with no other call in progress finishes
  a push or a pop within five atomic steps, with the result and the queue of the sequential operation.
\<close>

theorem mpmc_solo_sequential:
  assumes "mpmc_rep q xs"
  shows "(\<exists>b q'. try_push q x = Some (b, q') \<and> solo 5 q (Push_load x) = (q', Push_done b))
    \<and> (\<exists>b v q'. try_pop q d = Some ((b, v), q')
         \<and> solo 5 q Pop_load = (q', Pop_done (if b then Some v else None)))"
proof -
  obtain k t where r: "ring_rel q k t xs" "mpmc_cap q = 2 ^ k" using assms by (rule mpmc_repE)
  have 5: "(5 :: nat) = Suc (Suc (Suc (Suc (Suc 0))))" by simp
  have "\<exists>b q'. try_push q x = Some (b, q') \<and> solo 5 q (Push_load x) = (q', Push_done b)"
  proof -
    have h: "slot_sequence (slot_at q (q_head q)) = q_head q \<or>
        seq_diff (slot_sequence (slot_at q (q_head q))) (q_head q) < 0"
      using push_head_seq[OF r(1)] .
    show ?thesis
      using h unfolding try_push_def 5
      by (subst try_push_loop.simps) (auto simp: Let_def)
  qed
  moreover have "\<exists>b v q'. try_pop q d = Some ((b, v), q')
         \<and> solo 5 q Pop_load = (q', Pop_done (if b then Some v else None))"
  proof -
    have h: "slot_sequence (slot_at q (q_tail q)) = q_tail q + 1 \<or>
        seq_diff (slot_sequence (slot_at q (q_tail q))) (q_tail q + 1) < 0"
      using pop_tail_seq[OF r(1)] .
    show ?thesis
      using h unfolding try_pop_def 5
      by (subst try_pop_loop.simps) (auto simp: Let_def)
  qed
  ultimately show ?thesis by blast
qed

theorem mpmc_solo_sequential_witness:
  "\<exists>b q'. try_push demo_queue 7 = Some (b, q') \<and> solo 5 demo_queue (Push_load 7) = (q', Push_done b)"
proof -
  have "ring_rel demo_queue 1 0 []"
    by (simp add: ring_rel_def demo_queue_def init_slots_def)
  then have "mpmc_rep demo_queue []" by (auto simp: mpmc_rep_def)
  from mpmc_solo_sequential[OF this, of 7 0] show ?thesis by blast
qed

end
