(* ===== verification/Response_Queue.thy ===== *)
theory Response_Queue
  imports E3_Types Mpmc_Queue
begin

text \<open>
  The outbound queue of \<^verbatim>\<open>include/libe3/response_queue.hpp\<close> and \<^verbatim>\<open>src/core/response_queue.cpp\<close>: push,
  the blocking pop with its three waiting phases, the pop with a deadline, the non-blocking pop,
  clear, shutdown and the queries.

  The blocking calls wait for other threads. What those do during the \<open>i\<close>-th pause of a call is a
  parameter \<open>env\<close> of the definitions, a function on the queue's state; the readings of the steady
  clock are a parameter \<open>clock\<close>, in nanoseconds. A call that waits forever has the value \<^const>\<open>None\<close>.
\<close>

section \<open>State and operations\<close>

record ResponseQueue =
  rq_ring :: "Pdu MpmcQueue"
  rq_shutdown :: bool

type_synonym pause_env = "nat \<Rightarrow> ResponseQueue \<Rightarrow> ResponseQueue"

definition SPIN_COUNT :: nat where "SPIN_COUNT = 40"
definition YIELD_COUNT :: nat where "YIELD_COUNT = 100"

text \<open>\<open>now\<close> is the wall clock that \<^verbatim>\<open>Pdu{}\<close> stores as its time stamp.\<close>

definition default_Pdu :: "u64 \<Rightarrow> Pdu" where
  "default_Pdu now = new_Pdu SETUP_REQUEST now"

text \<open>\<open>sz\<close> is the size of a slot with a \<^verbatim>\<open>Pdu\<close>, which depends on the compiler; it fits 32 bits.\<close>

definition new_ResponseQueue :: "u32 \<Rightarrow> size_t \<Rightarrow> u64 \<Rightarrow> ResponseQueue option" where
  "new_ResponseQueue sz capacity now =
     map_option (\<lambda>r. \<lparr>rq_ring = r, rq_shutdown = False\<rparr>) (new_MpmcQueue (ucast sz) (default_Pdu now) capacity)"

definition ResponseQueue_push :: "ResponseQueue \<Rightarrow> Pdu \<Rightarrow> (ErrorCode \<times> ResponseQueue) option" where
  "ResponseQueue_push q pdu =
     (if rq_shutdown q then Some (NOT_INITIALIZED, q)
      else case try_push (rq_ring q) pdu of
          None \<Rightarrow> None
        | Some (pushed, r) \<Rightarrow>
            if \<not> pushed then Some (BUFFER_TOO_SMALL, q\<lparr>rq_ring := r\<rparr>)
            else Some (SUCCESS, q\<lparr>rq_ring := r\<rparr>))"

text \<open>One attempt of a blocking pop: an item, or the end of the wait on shutdown, or another round.\<close>

datatype attempt = Got Pdu | Down | is_Again: Again Pdu

definition pop_attempt :: "ResponseQueue \<Rightarrow> Pdu \<Rightarrow> (attempt \<times> ResponseQueue) option" where
  "pop_attempt q pdu =
     (case try_pop (rq_ring q) pdu of
        None \<Rightarrow> None
      | Some ((popped, pdu'), r) \<Rightarrow>
          Some (if popped then Got pdu' else if rq_shutdown q then Down else Again pdu',
                q\<lparr>rq_ring := r\<rparr>))"

text \<open>A counted phase (spinning or yielding) of \<open>n\<close> rounds that begins with pause number \<open>i\<close>.\<close>

fun pop_phase :: "pause_env \<Rightarrow> nat \<Rightarrow> nat \<Rightarrow> Pdu \<Rightarrow> ResponseQueue \<Rightarrow> (attempt \<times> ResponseQueue) option" where
  "pop_phase env 0 i pdu q = Some (Again pdu, q)"
| "pop_phase env (Suc n) i pdu q =
     (case pop_attempt q pdu of
        Some (Again pdu', q') \<Rightarrow> pop_phase env n (i + 1) pdu' (env i q')
      | r \<Rightarrow> r)"

partial_function (option) pop_sleep_loop ::
    "pause_env \<Rightarrow> nat \<Rightarrow> Pdu \<Rightarrow> ResponseQueue \<Rightarrow> (attempt \<times> ResponseQueue) option" where
  "pop_sleep_loop env i pdu q =
     (case pop_attempt q pdu of
        None \<Rightarrow> None
      | Some (Again pdu', q') \<Rightarrow> pop_sleep_loop env (i + 1) pdu' (env i q')
      | Some (Got p, q') \<Rightarrow> Some (Got p, q')
      | Some (Down, q') \<Rightarrow> Some (Down, q'))"

definition pop_blocking :: "pause_env \<Rightarrow> u64 \<Rightarrow> ResponseQueue \<Rightarrow> (Pdu \<times> ResponseQueue) option" where
  "pop_blocking env now q =
     map_option (\<lambda>(a, q'). case a of Got p \<Rightarrow> (p, q') | _ \<Rightarrow> (default_Pdu now, q'))
     (case pop_phase env SPIN_COUNT 0 (default_Pdu now) q of
        Some (Again pdu1, q1) \<Rightarrow>
          (case pop_phase env YIELD_COUNT SPIN_COUNT pdu1 q1 of
             Some (Again pdu2, q2) \<Rightarrow> pop_sleep_loop env (SPIN_COUNT + YIELD_COUNT) pdu2 q2
           | r \<Rightarrow> r)
      | r \<Rightarrow> r)"

text \<open>
  The phase with a deadline: round \<open>j\<close> reads the clock first; at the end there is one last attempt,
  which does not look at the shutdown flag.
\<close>

definition last_attempt :: "ResponseQueue \<Rightarrow> Pdu \<Rightarrow> (Pdu option \<times> ResponseQueue) option" where
  "last_attempt q pdu =
     (case try_pop (rq_ring q) pdu of
        None \<Rightarrow> None
      | Some ((popped, pdu'), r) \<Rightarrow> Some (if popped then Some pdu' else None, q\<lparr>rq_ring := r\<rparr>))"

partial_function (option) pop_deadline_loop ::
    "pause_env \<Rightarrow> (nat \<Rightarrow> int) \<Rightarrow> int \<Rightarrow> nat \<Rightarrow> Pdu \<Rightarrow> ResponseQueue
       \<Rightarrow> (Pdu option \<times> ResponseQueue) option" where
  "pop_deadline_loop env clock deadline j pdu q =
     (if clock (j + 1) < deadline then
        (case pop_attempt q pdu of
           None \<Rightarrow> None
         | Some (Again pdu', q') \<Rightarrow>
             pop_deadline_loop env clock deadline (j + 1) pdu' (env (SPIN_COUNT + YIELD_COUNT + j) q')
         | Some (Got p, q') \<Rightarrow> Some (Some p, q')
         | Some (Down, q') \<Rightarrow> Some (None, q'))
      else last_attempt q pdu)"

definition pop_timed :: "pause_env \<Rightarrow> (nat \<Rightarrow> int) \<Rightarrow> int \<Rightarrow> u64 \<Rightarrow> ResponseQueue
    \<Rightarrow> (Pdu option \<times> ResponseQueue) option" where
  "pop_timed env clock timeout_ms now q =
     (let deadline = clock 0 + timeout_ms * 1000000;
          early = (\<lambda>r. case r of None \<Rightarrow> None
                    | Some (Got p, q') \<Rightarrow> Some (Some p, q')
                    | Some (_, q') \<Rightarrow> Some (None, q'))
      in case pop_phase env SPIN_COUNT 0 (default_Pdu now) q of
           Some (Again pdu1, q1) \<Rightarrow>
             (case pop_phase env YIELD_COUNT SPIN_COUNT pdu1 q1 of
                Some (Again pdu2, q2) \<Rightarrow> pop_deadline_loop env clock deadline 0 pdu2 q2
              | r \<Rightarrow> early r)
         | r \<Rightarrow> early r)"

definition ResponseQueue_try_pop :: "u64 \<Rightarrow> ResponseQueue \<Rightarrow> (Pdu option \<times> ResponseQueue) option" where
  "ResponseQueue_try_pop now q = last_attempt q (default_Pdu now)"

definition ResponseQueue_empty :: "ResponseQueue \<Rightarrow> bool" where
  "ResponseQueue_empty q = empty_approx (rq_ring q)"

definition ResponseQueue_size :: "ResponseQueue \<Rightarrow> size_t" where
  "ResponseQueue_size q = size_approx (rq_ring q)"

partial_function (option) clear_loop :: "Pdu MpmcQueue \<Rightarrow> Pdu \<Rightarrow> Pdu MpmcQueue option" where
  "clear_loop r pdu =
     (case try_pop r pdu of
        None \<Rightarrow> None
      | Some ((popped, pdu'), r') \<Rightarrow> if popped then clear_loop r' pdu' else Some r')"

definition ResponseQueue_clear :: "u64 \<Rightarrow> ResponseQueue \<Rightarrow> ResponseQueue option" where
  "ResponseQueue_clear now q =
     map_option (\<lambda>r. q\<lparr>rq_ring := r\<rparr>) (clear_loop (rq_ring q) (default_Pdu now))"

definition ResponseQueue_shutdown :: "ResponseQueue \<Rightarrow> ResponseQueue" where
  "ResponseQueue_shutdown q = q\<lparr>rq_shutdown := True\<rparr>"

definition ResponseQueue_is_shutdown :: "ResponseQueue \<Rightarrow> bool" where
  "ResponseQueue_is_shutdown q = rq_shutdown q"

section \<open>Lemmas\<close>

text \<open>\<open>rq_rep q xs\<close>: the queue holds the PDUs \<open>xs\<close>, oldest first.\<close>

definition rq_rep :: "ResponseQueue \<Rightarrow> Pdu list \<Rightarrow> bool" where
  "rq_rep q xs \<longleftrightarrow> mpmc_rep (rq_ring q) xs"

definition rq_cap :: "ResponseQueue \<Rightarrow> nat" where
  "rq_cap q = mpmc_cap (rq_ring q)"

lemma attempt_item:
  assumes "rq_rep q (x # xs)"
  shows "\<exists>q'. rq_rep q' xs \<and> rq_shutdown q' = rq_shutdown q \<and> rq_cap q' = rq_cap q
    \<and> (\<forall>d. pop_attempt q d = Some (Got x, q') \<and> last_attempt q d = Some (Some x, q'))"
proof -
  obtain k t where r: "ring_rel (rq_ring q) k t (x # xs)" "mpmc_cap (rq_ring q) = 2 ^ k"
    using assms mpmc_repE unfolding rq_rep_def by blast
  let ?q = "q\<lparr>rq_ring := ring_popped (rq_ring q) k t x\<rparr>"
  have "rq_rep ?q xs" "rq_cap ?q = rq_cap q"
    using ring_rel_popped[OF r(1)] mpmc_cap_ring[OF ring_rel_popped[OF r(1)]] r(2)
    by (auto simp: rq_rep_def rq_cap_def mpmc_rep_def)
  then show ?thesis
    using try_pop_item[OF r(1)] by (intro exI[of _ ?q]) (simp add: pop_attempt_def last_attempt_def)
qed

lemma attempt_empty:
  assumes "rq_rep q []"
  shows "pop_attempt q d = Some (if rq_shutdown q then Down else Again d, q)"
    and "last_attempt q d = Some (None, q)"
  using mpmc.pop_empty[OF assms[unfolded rq_rep_def]]
  by (simp_all add: pop_attempt_def last_attempt_def)

text \<open>The states a waiting call sees, as long as it finds nothing: only the environment acts.\<close>

fun wait_state :: "pause_env \<Rightarrow> ResponseQueue \<Rightarrow> nat \<Rightarrow> ResponseQueue" where
  "wait_state env q 0 = q"
| "wait_state env q (Suc i) = env i (wait_state env q i)"

abbreviation idle :: "ResponseQueue \<Rightarrow> bool" where
  "idle q \<equiv> rq_rep q [] \<and> \<not> rq_shutdown q"

text \<open>A counted phase passes over idle states and stops at the first other one.\<close>

lemma pop_phase_idle:
  assumes "\<And>j. i \<le> j \<Longrightarrow> j < i + n \<Longrightarrow> idle (wait_state env q j)"
  shows "pop_phase env n i d (wait_state env q i) = Some (Again d, wait_state env q (i + n))"
  using assms
proof (induction n arbitrary: i)
  case 0
  then show ?case by simp
next
  case (Suc n)
  have "idle (wait_state env q i)" using Suc.prems[of i] by simp
  moreover have "pop_phase env n (i + 1) d (wait_state env q (i + 1))
      = Some (Again d, wait_state env q (i + 1 + n))"
    using Suc.prems by (intro Suc.IH) simp
  ultimately show ?case by (simp add: attempt_empty)
qed

lemma pop_phase_stop:
  assumes "i \<le> m" and "m < i + n" and "\<And>j. i \<le> j \<Longrightarrow> j < m \<Longrightarrow> idle (wait_state env q j)"
    and "pop_attempt (wait_state env q m) d = Some (a, q')" and "\<not> is_Again a"
  shows "pop_phase env n i d (wait_state env q i) = Some (a, q')"
  using assms(1-3)
proof (induction n arbitrary: i)
  case 0
  then show ?case by simp
next
  case (Suc n)
  show ?case
  proof (cases "i = m")
    case True
    then show ?thesis using assms(4,5) by (cases a) simp_all
  next
    case False
    then have "idle (wait_state env q i)" using Suc.prems by simp
    moreover have "pop_phase env n (i + 1) d (wait_state env q (i + 1)) = Some (a, q')"
      using False Suc.prems by (intro Suc.IH) simp_all
    ultimately show ?thesis by (simp add: attempt_empty)
  qed
qed

lemma pop_sleep_loop_stop:
  assumes "i \<le> m" and "\<And>j. i \<le> j \<Longrightarrow> j < m \<Longrightarrow> idle (wait_state env q j)"
    and "pop_attempt (wait_state env q m) d = Some (a, q')" and "\<not> is_Again a"
  shows "pop_sleep_loop env i d (wait_state env q i) = Some (a, q')"
  using assms(1,2)
proof (induction "m - i" arbitrary: i)
  case 0
  then have "i = m" by simp
  then show ?case using assms(3,4) by (subst pop_sleep_loop.simps) (cases a; simp)
next
  case (Suc n)
  then have "idle (wait_state env q i)" by simp
  moreover have "pop_sleep_loop env (i + 1) d (wait_state env q (i + 1)) = Some (a, q')"
    using Suc by (intro Suc.hyps(1)) simp_all
  ultimately show ?case by (subst pop_sleep_loop.simps) (simp add: attempt_empty)
qed

text \<open>The whole blocking call, at the first state that is not idle.\<close>

lemma pop_blocking_stop:
  assumes idle: "\<And>j. j < m \<Longrightarrow> idle (wait_state env q j)"
    and att: "pop_attempt (wait_state env q m) (default_Pdu now) = Some (a, q')" and a: "\<not> is_Again a"
  shows "pop_blocking env now q
    = Some (case a of Got p \<Rightarrow> p | _ \<Rightarrow> default_Pdu now, q')"
proof -
  let ?d = "default_Pdu now" and ?n = "SPIN_COUNT + YIELD_COUNT"
  consider (spin) "m < SPIN_COUNT" | (yield) "SPIN_COUNT \<le> m" "m < ?n" | (sleep) "?n \<le> m"
    by linarith
  then show ?thesis
  proof cases
    case spin
    then have "pop_phase env SPIN_COUNT 0 ?d q = Some (a, q')"
      using pop_phase_stop[of 0 m SPIN_COUNT env q ?d a q'] idle att a by simp
    then show ?thesis using a by (cases a) (simp_all add: pop_blocking_def)
  next
    case yield
    have 1: "pop_phase env SPIN_COUNT 0 ?d q = Some (Again ?d, wait_state env q SPIN_COUNT)"
      using pop_phase_idle[of 0 SPIN_COUNT env q ?d] idle yield by simp
    have "pop_phase env YIELD_COUNT SPIN_COUNT ?d (wait_state env q SPIN_COUNT) = Some (a, q')"
      using yield idle att a by (intro pop_phase_stop) simp_all
    then show ?thesis using a 1 by (cases a) (simp_all add: pop_blocking_def)
  next
    case sleep
    have 1: "pop_phase env SPIN_COUNT 0 ?d q = Some (Again ?d, wait_state env q SPIN_COUNT)"
      using pop_phase_idle[of 0 SPIN_COUNT env q ?d] idle sleep by simp
    have 2: "pop_phase env YIELD_COUNT SPIN_COUNT ?d (wait_state env q SPIN_COUNT)
        = Some (Again ?d, wait_state env q ?n)"
      using idle sleep by (intro pop_phase_idle) simp
    have "pop_sleep_loop env ?n ?d (wait_state env q ?n) = Some (a, q')"
      using sleep idle att a by (intro pop_sleep_loop_stop) simp_all
    then show ?thesis using a 1 2 by (cases a) (simp_all add: pop_blocking_def)
  qed
qed

text \<open>The phase with a deadline: it stops at the first state that is not idle or when time is up.\<close>

lemma pop_deadline_loop_stop:
  assumes "j \<le> m" and "\<And>i. j \<le> i \<Longrightarrow> i < m \<Longrightarrow> idle (wait_state env q (SPIN_COUNT + YIELD_COUNT + i))"
    and "\<And>i. j \<le> i \<Longrightarrow> i \<le> m \<Longrightarrow> clock (i + 1) < deadline"
    and "pop_attempt (wait_state env q (SPIN_COUNT + YIELD_COUNT + m)) d = Some (a, q')" and "\<not> is_Again a"
  shows "pop_deadline_loop env clock deadline j d (wait_state env q (SPIN_COUNT + YIELD_COUNT + j))
    = Some (case a of Got p \<Rightarrow> Some p | _ \<Rightarrow> None, q')"
  using assms(1-3)
proof (induction "m - j" arbitrary: j)
  case 0
  then have "j = m" by simp
  then show ?case using 0 assms(4,5) by (subst pop_deadline_loop.simps) (cases a; simp)
next
  case (Suc n)
  then have "idle (wait_state env q (SPIN_COUNT + YIELD_COUNT + j))" by simp
  moreover have "pop_deadline_loop env clock deadline (j + 1) d
      (wait_state env q (SPIN_COUNT + YIELD_COUNT + (j + 1))) = Some (case a of Got p \<Rightarrow> Some p | _ \<Rightarrow> None, q')"
    using Suc by (intro Suc.hyps(1)) simp_all
  ultimately show ?case using Suc by (subst pop_deadline_loop.simps) (simp add: attempt_empty)
qed

lemma pop_deadline_loop_expires:
  assumes "j \<le> m" and "\<And>i. j \<le> i \<Longrightarrow> i < m \<Longrightarrow> idle (wait_state env q (SPIN_COUNT + YIELD_COUNT + i))"
    and "\<And>i. j \<le> i \<Longrightarrow> i < m \<Longrightarrow> clock (i + 1) < deadline" and "deadline \<le> clock (m + 1)"
  shows "pop_deadline_loop env clock deadline j d (wait_state env q (SPIN_COUNT + YIELD_COUNT + j))
    = last_attempt (wait_state env q (SPIN_COUNT + YIELD_COUNT + m)) d"
  using assms(1-3)
proof (induction "m - j" arbitrary: j)
  case 0
  then have "j = m" by simp
  then show ?case using assms(4) by (subst pop_deadline_loop.simps) simp
next
  case (Suc n)
  then have "idle (wait_state env q (SPIN_COUNT + YIELD_COUNT + j))" by simp
  moreover have "pop_deadline_loop env clock deadline (j + 1) d
      (wait_state env q (SPIN_COUNT + YIELD_COUNT + (j + 1)))
    = last_attempt (wait_state env q (SPIN_COUNT + YIELD_COUNT + m)) d"
    using Suc by (intro Suc.hyps(1)) simp_all
  ultimately show ?case using Suc by (subst pop_deadline_loop.simps) (simp add: attempt_empty)
qed

lemma clear_loop_empties:
  "mpmc_rep r xs \<Longrightarrow> \<exists>r'. clear_loop r d = Some r' \<and> mpmc_rep r' [] \<and> mpmc_cap r' = mpmc_cap r"
proof (induction xs arbitrary: r d)
  case Nil
  then show ?case by (subst clear_loop.simps) (simp add: mpmc.pop_empty)
next
  case (Cons x xs)
  obtain r1 where "try_pop r d = Some ((True, x), r1)" "mpmc_rep r1 xs" "mpmc_cap r1 = mpmc_cap r"
    using mpmc.pop_item[OF Cons.prems] by blast
  then show ?case using Cons.IH[of r1 x] by (subst clear_loop.simps) simp
qed

lemma rq_rep_new:
  assumes "capacity \<le> 2 ^ 31"
  shows "\<exists>q. new_ResponseQueue sz capacity now = Some q \<and> rq_rep q [] \<and> \<not> rq_shutdown q
    \<and> unat capacity \<le> rq_cap q"
proof -
  have cap: "unat capacity \<le> 2 ^ 31" using assms unat_pow[of 31] by (simp add: word_le_nat_alt)
  then have "capacity \<le> 2 ^ 63" using unat_pow[of 63] by (simp add: word_le_nat_alt)
  from new_queue_result[OF this, of "ucast sz" "default_Pdu now"] obtain k r where
    k: "unat capacity \<le> 2 ^ k" "k = 1 \<or> 2 ^ (k - 1) < unat capacity" "ring_rel r k 0 []"
    "new_MpmcQueue (ucast sz) (default_Pdu now) capacity = (if unat (ucast sz :: size_t) * 2 ^ k < 2 ^ 64 then Some r else None)"
    by blast
  have "k \<le> 31"
  proof (rule ccontr)
    assume "\<not> k \<le> 31"
    then have "(2 :: nat) ^ 31 \<le> 2 ^ (k - 1)" by (intro power_increasing) simp_all
    then show False using k(2) cap \<open>\<not> k \<le> 31\<close> by linarith
  qed
  then have p: "(2 :: nat) ^ k \<le> 2 ^ 31" by (intro power_increasing) simp_all
  have lt: "unat sz < 2 ^ 32" using unsigned_less[where ?'a = nat, of sz] by simp
  then have "unat (ucast sz :: size_t) = unat sz" by (simp add: unsigned_ucast_eq take_bit_nat_eq_self_iff)
  with lt have "unat (ucast sz :: size_t) * 2 ^ k \<le> 2 ^ 32 * 2 ^ 31"
    using p by (intro mult_le_mono) simp_all
  then have "new_MpmcQueue (ucast sz) (default_Pdu now) capacity = Some r" using k(4) by simp
  then show ?thesis
    using k(1,3) mpmc_cap_ring[OF k(3)] by (auto simp: new_ResponseQueue_def rq_rep_def rq_cap_def mpmc_rep_def)
qed

text \<open>A push on a queue with contents \<open>xs\<close>, and a pop with a deadline that finds a PDU at once.\<close>

lemma rq_push_cases:
  assumes "rq_rep q xs"
  shows "\<exists>ec q'. ResponseQueue_push q pdu = Some (ec, q')
    \<and> rq_cap q' = rq_cap q \<and> rq_shutdown q' = rq_shutdown q
    \<and> (if rq_shutdown q then ec = NOT_INITIALIZED \<and> rq_rep q' xs
       else if length xs = rq_cap q then ec = BUFFER_TOO_SMALL \<and> rq_rep q' xs
       else ec = SUCCESS \<and> rq_rep q' (xs @ [pdu]))"
proof -
  have rep: "mpmc_rep (rq_ring q) xs" using assms by (simp add: rq_rep_def)
  obtain r where r: "try_push (rq_ring q) pdu = Some (length xs < rq_cap q, r)"
    "mpmc_rep r (if length xs < rq_cap q then xs @ [pdu] else xs)" "mpmc_cap r = rq_cap q"
    using mpmc.push_cases[OF rep, of pdu] by (auto simp: rq_cap_def)
  have "length xs \<le> rq_cap q" using mpmc.rep_bound[OF rep] by (simp add: rq_cap_def)
  then show ?thesis
    using r assms by (auto simp: ResponseQueue_push_def rq_rep_def rq_cap_def)
qed

lemma pop_timed_item:
  assumes "rq_rep q (x # xs)"
  shows "\<exists>q'. pop_timed env clock timeout_ms now q = Some (Some x, q') \<and> rq_rep q' xs
    \<and> rq_shutdown q' = rq_shutdown q \<and> rq_cap q' = rq_cap q"
proof -
  obtain q' where q': "rq_rep q' xs" "rq_shutdown q' = rq_shutdown q" "rq_cap q' = rq_cap q"
    "pop_attempt q (default_Pdu now) = Some (Got x, q')"
    using attempt_item[OF assms] by blast
  then have "pop_phase env SPIN_COUNT 0 (default_Pdu now) q = Some (Got x, q')"
    using pop_phase_stop[of 0 0 SPIN_COUNT env q "default_Pdu now" "Got x" q'] by (simp add: SPIN_COUNT_def)
  then show ?thesis using q' by (simp add: pop_timed_def Let_def)
qed

subsection \<open>A pop with a deadline keeps an invariant\<close>

text \<open>What every look at the queue and every pause keeps, the whole call keeps.\<close>

definition pop_keeps :: "(ResponseQueue \<Rightarrow> bool) \<Rightarrow> pause_env \<Rightarrow> bool" where
  "pop_keeps I env \<longleftrightarrow>
     (\<forall>q d a q'. I q \<longrightarrow> pop_attempt q d = Some (a, q') \<longrightarrow> I q') \<and>
     (\<forall>q d a q'. I q \<longrightarrow> last_attempt q d = Some (a, q') \<longrightarrow> I q') \<and>
     (\<forall>i q. I q \<longrightarrow> I (env i q))"

lemma pop_keepsD:
  "pop_keeps I env \<Longrightarrow> I q \<Longrightarrow> pop_attempt q d = Some (a, q') \<Longrightarrow> I q'"
  "pop_keeps I env \<Longrightarrow> I q \<Longrightarrow> last_attempt q d = Some (b, q') \<Longrightarrow> I q'"
  "pop_keeps I env \<Longrightarrow> I q \<Longrightarrow> I (env i q)"
  unfolding pop_keeps_def by blast+

lemma pop_phase_keeps:
  assumes "pop_keeps I env"
  shows "I q \<Longrightarrow> pop_phase env n i d q = Some (a, q') \<Longrightarrow> I q'"
proof (induction n arbitrary: i d q)
  case (Suc n)
  from Suc.prems(2) obtain a1 q1 where 1: "pop_attempt q d = Some (a1, q1)" by (auto split: option.splits)
  then have q1: "I q1" using pop_keepsD(1)[OF assms] Suc.prems(1) by blast
  show ?case
  proof (cases a1)
    case (Again d1)
    then have "pop_phase env n (i + 1) d1 (env i q1) = Some (a, q')" using Suc.prems(2) 1 by simp
    then show ?thesis using Suc.IH pop_keepsD(3)[OF assms q1] by blast
  qed (use Suc.prems(2) 1 q1 in auto)
qed simp

lemma pop_deadline_loop_keeps:
  assumes "pop_keeps I env" and "pop_deadline_loop env clock deadline j d q = Some r" and "I q"
  shows "I (snd r)"
proof -
  have "env = env \<longrightarrow> I q \<longrightarrow> I (snd r)"
  proof (rule pop_deadline_loop.raw_induct[where
        P = "\<lambda>e c dl j d q r. e = env \<longrightarrow> I q \<longrightarrow> I (snd r)", OF _ assms(2)], goal_cases)
    case (1 loop e c dl j d q r)
    show ?case
    proof (cases "c (j + 1) < dl \<and> e = env \<and> I q")
      case True
      then obtain a1 q1 where 2: "pop_attempt q d = Some (a1, q1)" using 1(2) by (auto split: option.splits)
      then have "I q1" using pop_keepsD(1)[OF assms(1)] True by blast
      then show ?thesis using 1 2 True pop_keepsD(3)[OF assms(1)] by (cases a1) auto
    next
      case False
      then show ?thesis using 1(2) pop_keepsD(2)[OF assms(1), of q d "fst r" "snd r"] by auto
    qed
  qed
  then show ?thesis using assms(3) by simp
qed

lemma pop_timed_keeps:
  assumes "pop_keeps I env" and "I q" and run: "pop_timed env clock timeout now q = Some r"
  shows "I (snd r)"
proof -
  from run obtain a1 q1 where 1: "pop_phase env SPIN_COUNT 0 (default_Pdu now) q = Some (a1, q1)"
    by (auto simp: pop_timed_def Let_def split: option.splits)
  then have I1: "I q1" using pop_phase_keeps[OF assms(1,2)] by blast
  show ?thesis
  proof (cases a1)
    case (Again d1)
    from run 1 Again obtain a2 q2 where 2: "pop_phase env YIELD_COUNT SPIN_COUNT d1 q1 = Some (a2, q2)"
      by (auto simp: pop_timed_def Let_def split: option.splits)
    then have "I q2" using pop_phase_keeps[OF assms(1) I1] by blast
    then show ?thesis
      using run 1 2 Again pop_deadline_loop_keeps[OF assms(1)]
      by (cases a2) (auto simp: pop_timed_def Let_def)
  qed (use run 1 I1 in \<open>auto simp: pop_timed_def Let_def\<close>)
qed

abbreviation rq_ok :: "ResponseQueue \<Rightarrow> bool" where
  "rq_ok q \<equiv> \<exists>xs. rq_rep q xs"

lemma attempts_rq_ok:
  "rq_ok q \<Longrightarrow> pop_attempt q d = Some (a, q') \<Longrightarrow> rq_ok q'"
  "rq_ok q \<Longrightarrow> last_attempt q d = Some (b, q') \<Longrightarrow> rq_ok q'"
  using attempt_empty attempt_item by (metis list.exhaust option.inject prod.inject)+

lemma pop_keeps_rq_ok: "(\<And>i q. rq_ok q \<Longrightarrow> rq_ok (env i q)) \<Longrightarrow> pop_keeps rq_ok env"
  unfolding pop_keeps_def using attempts_rq_ok by blast

section \<open>Properties\<close>

text \<open>
  C28: a push is refused with NOT_INITIALIZED once shutdown was called and with BUFFER_TOO_SMALL
  when capacity PDUs are queued, in both cases leaving the queued PDUs as they were; otherwise it
  succeeds and appends the PDU. It always returns.
\<close>

theorem response_queue_push:
  assumes "rq_rep q xs"
  shows "\<exists>ec q'. ResponseQueue_push q pdu = Some (ec, q')
    \<and> rq_cap q' = rq_cap q \<and> rq_shutdown q' = rq_shutdown q
    \<and> (if rq_shutdown q then ec = NOT_INITIALIZED \<and> rq_rep q' xs
       else if length xs = rq_cap q then ec = BUFFER_TOO_SMALL \<and> rq_rep q' xs
       else ec = SUCCESS \<and> rq_rep q' (xs @ [pdu]))"
  by (rule rq_push_cases[OF assms])

theorem response_queue_push_witness:
  "\<exists>q q'. new_ResponseQueue 256 2 0 = Some q \<and> ResponseQueue_push q (new_Pdu MESSAGE_ACK 5) = Some (SUCCESS, q')
     \<and> rq_rep q' [new_Pdu MESSAGE_ACK 5]"
proof -
  obtain q where q: "new_ResponseQueue 256 2 0 = Some q" "rq_rep q []" "\<not> rq_shutdown q" "2 \<le> rq_cap q"
    using rq_rep_new[of 2 256 0] by auto
  with response_queue_push[OF q(2), of "new_Pdu MESSAGE_ACK 5"] show ?thesis by auto
qed

text \<open>
  C14: the blocking pop returns at the first of its looks at the queue that finds a PDU or the
  shutdown flag, whatever number of pauses and whichever phase that takes: it returns the oldest PDU
  when there is one, even after shutdown, and the empty PDU when there is none and shutdown was
  called.
\<close>

theorem response_queue_pop:
  assumes "\<forall>j < m. rq_rep (wait_state env q j) [] \<and> \<not> rq_shutdown (wait_state env q j)"
    and "rq_rep (wait_state env q m) xs" and "xs \<noteq> [] \<or> rq_shutdown (wait_state env q m)"
  shows "\<exists>q'. pop_blocking env now q
      = Some (case xs of [] \<Rightarrow> default_Pdu now | x # _ \<Rightarrow> x, q') \<and> rq_rep q' (tl xs)"
proof (cases xs)
  case Nil
  then have "pop_attempt (wait_state env q m) (default_Pdu now) = Some (Down, wait_state env q m)"
    using assms(2,3) by (simp add: attempt_empty)
  from pop_blocking_stop[OF _ this] show ?thesis using assms(1,2) Nil by simp
next
  case (Cons x ys)
  then obtain q' where "rq_rep q' ys"
    "pop_attempt (wait_state env q m) (default_Pdu now) = Some (Got x, q')"
    using attempt_item assms(2) by blast
  then show ?thesis using pop_blocking_stop[of m env q now "Got x" q'] assms(1) Cons by simp
qed

theorem response_queue_pop_witness:
  "\<exists>q q'. new_ResponseQueue 256 2 0 = Some q
     \<and> pop_blocking (\<lambda>i s. if i = 50 then ResponseQueue_shutdown s else s) 9 q = Some (default_Pdu 9, q')"
proof -
  let ?env = "\<lambda>i s. if i = 50 then ResponseQueue_shutdown s else s"
  obtain q where q: "new_ResponseQueue 256 2 0 = Some q" "rq_rep q []" "\<not> rq_shutdown q"
    using rq_rep_new[of 2 256 0] by auto
  have w: "wait_state ?env q j = (if j \<le> 50 then q else ResponseQueue_shutdown q)" for j
    by (induction j) (auto simp: ResponseQueue_shutdown_def)
  have "\<forall>j < 51. rq_rep (wait_state ?env q j) [] \<and> \<not> rq_shutdown (wait_state ?env q j)"
    using q by (simp add: w)
  moreover have "rq_rep (wait_state ?env q 51) []" "rq_shutdown (wait_state ?env q 51)"
    using q by (simp_all add: w rq_rep_def ResponseQueue_shutdown_def)
  ultimately show ?thesis using response_queue_pop[of 51 ?env q "[]" 9] q(1) by auto
qed

text \<open>
  C29: a pop with a deadline on a queue that stays empty and is not shut down returns
  \<^verbatim>\<open>std::nullopt\<close> as soon as a clock reading of its last phase reaches the deadline, after the 140
  rounds of the two first phases; if a PDU arrived meanwhile, the last attempt still returns it.
\<close>

theorem response_queue_pop_timeout:
  assumes "\<forall>j < SPIN_COUNT + YIELD_COUNT + m. rq_rep (wait_state env q j) [] \<and> \<not> rq_shutdown (wait_state env q j)"
    and "\<forall>i < m. clock (i + 1) < clock 0 + timeout_ms * 1000000"
    and "clock 0 + timeout_ms * 1000000 \<le> clock (m + 1)"
    and "rq_rep (wait_state env q (SPIN_COUNT + YIELD_COUNT + m)) xs"
  shows "\<exists>q'. pop_timed env clock timeout_ms now q
      = Some (case xs of [] \<Rightarrow> None | x # _ \<Rightarrow> Some x, q') \<and> rq_rep q' (tl xs)"
proof -
  let ?d = "default_Pdu now" and ?n = "SPIN_COUNT + YIELD_COUNT"
  have 1: "pop_phase env SPIN_COUNT 0 ?d q = Some (Again ?d, wait_state env q SPIN_COUNT)"
    using pop_phase_idle[of 0 SPIN_COUNT env q ?d] assms(1) by simp
  have 2: "pop_phase env YIELD_COUNT SPIN_COUNT ?d (wait_state env q SPIN_COUNT)
        = Some (Again ?d, wait_state env q ?n)"
    using assms(1) by (intro pop_phase_idle) simp
  have "pop_deadline_loop env clock (clock 0 + timeout_ms * 1000000) 0 ?d (wait_state env q (?n + 0))
      = last_attempt (wait_state env q (?n + m)) ?d"
    using assms(1-3) by (intro pop_deadline_loop_expires) simp_all
  then have "pop_timed env clock timeout_ms now q = last_attempt (wait_state env q (?n + m)) ?d"
    using 1 2 by (simp add: pop_timed_def Let_def)
  then show ?thesis
    using assms(4) attempt_empty(2) attempt_item by (cases xs) (fastforce, auto, blast)
qed

theorem response_queue_pop_timeout_witness:
  "\<exists>q q'. new_ResponseQueue 256 2 0 = Some q
     \<and> pop_timed (\<lambda>i s. s) (\<lambda>i. int i * 500000) 1 9 q = Some (None, q')"
proof -
  obtain q where q: "new_ResponseQueue 256 2 0 = Some q" "rq_rep q []" "\<not> rq_shutdown q"
    using rq_rep_new[of 2 256 0] by auto
  have w: "wait_state (\<lambda>i s. s) q j = q" for j by (induction j) simp_all
  show ?thesis
    using response_queue_pop_timeout[of 1 "\<lambda>i s. s" q "\<lambda>i. int i * 500000" 1 "[]" 9] q by (auto simp: w)
qed

text \<open>Clear returns, with an empty queue of the same capacity.\<close>

lemma response_queue_clear:
  assumes "rq_rep q xs"
  shows "\<exists>q'. ResponseQueue_clear now q = Some q' \<and> rq_rep q' [] \<and> rq_cap q' = rq_cap q
    \<and> rq_shutdown q' = rq_shutdown q"
  using clear_loop_empties[of "rq_ring q" xs "default_Pdu now"] assms
  by (auto simp: ResponseQueue_clear_def rq_rep_def rq_cap_def)

end
