(* ===== verification/Sm_Registry.thy ===== *)
theory Sm_Registry
  imports E3_Types "HOL-Library.Multiset"
begin

text \<open>
  Service models (\<^verbatim>\<open>include/libe3/sm_interface.hpp\<close>) and their registry (\<^verbatim>\<open>src/core/sm_registry.cpp\<close>),
  with the service model of \<^verbatim>\<open>examples/simple_agent.cpp\<close> as an implementation of the interface.

  A class derived from \<^verbatim>\<open>ServiceModel\<close> is a value of type \<open>'sm service_model\<close>, the record of its virtual
  functions over its private state \<open>'sm\<close>. A function of the class that calls back into the agent
  (\<^verbatim>\<open>emit_outbound\<close>, \<^verbatim>\<open>get_subscribers\<close>) is a tree of such calls, run by \<open>run_sm_act\<close> on the state of
  the agent. The two callbacks of the base class are set or not; \<^verbatim>\<open>emit_outbound\<close> and
  \<^verbatim>\<open>get_subscribers\<close> look at that first.
\<close>

section \<open>Service models\<close>

datatype 'sm sm_act =
    Act_return ErrorCode 'sm
  | Act_emit Pdu "ErrorCode \<Rightarrow> 'sm sm_act"
  | Act_subscribers "u32 list \<Rightarrow> 'sm sm_act"

record 'sm service_model =
  vt_name :: "'sm \<Rightarrow> string"
  vt_version :: "'sm \<Rightarrow> u32"
  vt_ran_function_id :: "'sm \<Rightarrow> u32"
  vt_telemetry_ids :: "'sm \<Rightarrow> u32 list"
  vt_control_ids :: "'sm \<Rightarrow> u32 list"
  vt_ran_function_data :: "'sm \<Rightarrow> bytes"
  vt_init :: "'sm \<Rightarrow> ErrorCode \<times> 'sm"
  vt_destroy :: "'sm \<Rightarrow> 'sm"
  vt_start :: "'sm \<Rightarrow> ErrorCode \<times> 'sm"
  vt_stop :: "'sm \<Rightarrow> 'sm"
  vt_is_running :: "'sm \<Rightarrow> bool"
  vt_handle_control_action :: "u32 \<Rightarrow> DAppControlAction \<Rightarrow> 'sm \<Rightarrow> 'sm sm_act"

text \<open>An object: the private state of its class and whether the base class's callbacks are set.\<close>

record 'sm sm_object =
  smo_state :: 'sm
  smo_emitter :: bool
  smo_provider :: bool

definition new_sm_object :: "'sm \<Rightarrow> 'sm sm_object" where
  "new_sm_object x = \<lparr>smo_state = x, smo_emitter = False, smo_provider = False\<rparr>"

definition make_message_ack_pdu :: "u64 \<Rightarrow> u32 \<Rightarrow> ResponseCode \<Rightarrow> Pdu" where
  "make_message_ack_pdu now request_message_id response_code =
     (new_Pdu MESSAGE_ACK now)\<lparr>pdu_choice := C_MessageAck
        \<lparr>ack_request_id = request_message_id, ack_response_code = response_code\<rparr>\<rparr>"

definition make_indication_pdu :: "u64 \<Rightarrow> u32 \<Rightarrow> u32 \<Rightarrow> bytes \<Rightarrow> Pdu" where
  "make_indication_pdu now dapp_id ran_function_id protocol_data =
     (new_Pdu INDICATION_MESSAGE now)\<lparr>pdu_choice := C_IndicationMessage
        \<lparr>ind_dapp_identifier = dapp_id, ind_ran_function_identifier = ran_function_id,
          ind_protocol_data = protocol_data\<rparr>\<rparr>"

text \<open>
  Running a service model's function for the object \<open>ob\<close>: \<open>emitter\<close> and \<open>provider\<close> are the agent's
  callbacks, on the agent's state \<open>w\<close>.
\<close>

definition emit_outbound :: "('w \<Rightarrow> Pdu \<Rightarrow> (ErrorCode \<times> 'w) option) \<Rightarrow> 'sm sm_object \<Rightarrow> 'w \<Rightarrow> Pdu
    \<Rightarrow> (ErrorCode \<times> 'w) option" where
  "emit_outbound emitter ob w pdu =
     (if \<not> smo_emitter ob then Some (NOT_INITIALIZED, w) else emitter w pdu)"

definition get_subscribers :: "('w \<Rightarrow> u32 list) \<Rightarrow> 'sm sm_object \<Rightarrow> 'w \<Rightarrow> u32 list" where
  "get_subscribers provider ob w = (if \<not> smo_provider ob then [] else provider w)"

primrec run_sm_act :: "('w \<Rightarrow> Pdu \<Rightarrow> (ErrorCode \<times> 'w) option) \<Rightarrow> ('w \<Rightarrow> u32 list) \<Rightarrow> 'sm sm_object
    \<Rightarrow> 'sm sm_act \<Rightarrow> 'w \<Rightarrow> ((ErrorCode \<times> 'sm) \<times> 'w) option" where
  "run_sm_act emitter provider ob (Act_return ec s) w = Some ((ec, s), w)"
| "run_sm_act emitter provider ob (Act_emit pdu k) w =
     (case emit_outbound emitter ob w pdu of
        None \<Rightarrow> None
      | Some (ec, w') \<Rightarrow> run_sm_act emitter provider ob (k ec) w')"
| "run_sm_act emitter provider ob (Act_subscribers k) w =
     run_sm_act emitter provider ob (k (get_subscribers provider ob w)) w"

section \<open>The registry\<close>

text \<open>A factory may return a null pointer, and something else at its next call.\<close>

record 'sm sm_factory =
  fac_calls :: nat
  fac_make :: "nat \<Rightarrow> 'sm option"

record 'sm SmRegistry =
  reg_sms :: "(u32, 'sm sm_object) unordered_map"
  reg_factories :: "(u32, 'sm sm_factory) unordered_map"

definition new_SmRegistry :: "'sm SmRegistry" where
  "new_SmRegistry = \<lparr>reg_sms = [], reg_factories = []\<rparr>"

definition SmRegistry_register_sm :: "'sm service_model \<Rightarrow> 'sm SmRegistry \<Rightarrow> 'sm sm_object option
    \<Rightarrow> ErrorCode \<times> 'sm SmRegistry" where
  "SmRegistry_register_sm V r smo =
     (case smo of
        None \<Rightarrow> (INVALID_PARAM, r)
      | Some ob \<Rightarrow>
          (let ran_func = vt_ran_function_id V (smo_state ob)
           in if um_count (reg_sms r) ran_func > 0 then (SM_ALREADY_REGISTERED, r)
              else
                (let (init_result, s') = vt_init V (smo_state ob)
                 in if init_result \<noteq> SUCCESS then (init_result, r)
                    else (SUCCESS, r\<lparr>reg_sms := AList.update ran_func (ob\<lparr>smo_state := s'\<rparr>) (reg_sms r)\<rparr>))))"

definition register_sm_factory :: "'sm SmRegistry \<Rightarrow> u32 \<Rightarrow> (nat \<Rightarrow> 'sm option) option
    \<Rightarrow> ErrorCode \<times> 'sm SmRegistry" where
  "register_sm_factory r ran_function_id factory =
     (case factory of
        None \<Rightarrow> (INVALID_PARAM, r)
      | Some f \<Rightarrow>
          (if um_count (reg_sms r) ran_function_id > 0 \<or> um_count (reg_factories r) ran_function_id > 0
           then (SM_ALREADY_REGISTERED, r)
           else (SUCCESS, r\<lparr>reg_factories :=
                  AList.update ran_function_id \<lparr>fac_calls = 0, fac_make = f\<rparr> (reg_factories r)\<rparr>)))"

text \<open>Stopping and destroying one service model; the object is then deleted. Where that happens, the
  result lists the private state the object is deleted in.\<close>

definition retire_sm :: "'sm service_model \<Rightarrow> 'sm \<Rightarrow> 'sm" where
  "retire_sm V s = vt_destroy V (if vt_is_running V s then vt_stop V s else s)"

definition unregister_sm :: "'sm service_model \<Rightarrow> 'sm SmRegistry \<Rightarrow> u32
    \<Rightarrow> ErrorCode \<times> 'sm SmRegistry \<times> 'sm option" where
  "unregister_sm V r ran_function_id =
     (case map_of (reg_sms r) ran_function_id of
        Some ob \<Rightarrow> (SUCCESS, r\<lparr>reg_sms := AList.delete ran_function_id (reg_sms r)\<rparr>,
                    Some (retire_sm V (smo_state ob)))
      | None \<Rightarrow>
          (case map_of (reg_factories r) ran_function_id of
             Some f \<Rightarrow> (SUCCESS, r\<lparr>reg_factories := AList.delete ran_function_id (reg_factories r)\<rparr>, None)
           | None \<Rightarrow> (SM_NOT_FOUND, r, None)))"

text \<open>The result is the object the returned pointer refers to, stored under the key looked up.\<close>

definition get_by_ran_function :: "'sm service_model \<Rightarrow> 'sm SmRegistry \<Rightarrow> u32
    \<Rightarrow> 'sm sm_object option \<times> 'sm SmRegistry" where
  "get_by_ran_function V r ran_function_id =
     (case map_of (reg_sms r) ran_function_id of
        Some ob \<Rightarrow> (Some ob, r)
      | None \<Rightarrow>
          (case map_of (reg_factories r) ran_function_id of
             None \<Rightarrow> (None, r)
           | Some f \<Rightarrow>
               (let r1 = r\<lparr>reg_factories := AList.update ran_function_id (f\<lparr>fac_calls := fac_calls f + 1\<rparr>)
                            (reg_factories r)\<rparr>
                in case fac_make f (fac_calls f) of
                     None \<Rightarrow> (None, r1)
                   | Some s \<Rightarrow>
                       (let (init_result, s') = vt_init V s
                        in if init_result = SUCCESS
                           then (Some (new_sm_object s'),
                                 r1\<lparr>reg_sms := AList.update ran_function_id (new_sm_object s') (reg_sms r1),
                                    reg_factories := AList.delete ran_function_id (reg_factories r1)\<rparr>)
                           else (None, r1)))))"

definition SmRegistry_get_available_ran_functions :: "'sm SmRegistry \<Rightarrow> u32 list" where
  "SmRegistry_get_available_ran_functions r = sort (um_keys (reg_sms r) @ um_keys (reg_factories r))"

definition start_sm :: "'sm service_model \<Rightarrow> 'sm SmRegistry \<Rightarrow> u32 \<Rightarrow> ErrorCode \<times> 'sm SmRegistry" where
  "start_sm V r ran_function_id =
     (case map_of (reg_sms r) ran_function_id of
        None \<Rightarrow> (SM_NOT_FOUND, r)
      | Some ob \<Rightarrow>
          (if vt_is_running V (smo_state ob) then (SUCCESS, r)
           else
             (let (result, s') = vt_start V (smo_state ob);
                  r' = r\<lparr>reg_sms := AList.update ran_function_id (ob\<lparr>smo_state := s'\<rparr>) (reg_sms r)\<rparr>
              in if result \<noteq> SUCCESS then (result, r') else (SUCCESS, r'))))"

definition stop_sm :: "'sm service_model \<Rightarrow> 'sm SmRegistry \<Rightarrow> u32 \<Rightarrow> ErrorCode \<times> 'sm SmRegistry" where
  "stop_sm V r ran_function_id =
     (case map_of (reg_sms r) ran_function_id of
        None \<Rightarrow> (SM_NOT_FOUND, r)
      | Some ob \<Rightarrow>
          (if \<not> vt_is_running V (smo_state ob) then (SUCCESS, r)
           else (SUCCESS, r\<lparr>reg_sms := AList.update ran_function_id
                   (ob\<lparr>smo_state := vt_stop V (smo_state ob)\<rparr>) (reg_sms r)\<rparr>)))"

definition is_sm_running :: "'sm service_model \<Rightarrow> 'sm SmRegistry \<Rightarrow> u32 \<Rightarrow> bool" where
  "is_sm_running V r ran_function_id =
     (case map_of (reg_sms r) ran_function_id of
        Some ob \<Rightarrow> vt_is_running V (smo_state ob)
      | None \<Rightarrow> False)"

text \<open>The second component lists the service models in the state in which they are deleted.\<close>

definition SmRegistry_clear :: "'sm service_model \<Rightarrow> 'sm SmRegistry \<Rightarrow> 'sm SmRegistry \<times> 'sm list" where
  "SmRegistry_clear V r =
     (r\<lparr>reg_sms := [], reg_factories := []\<rparr>,
      map (\<lambda>(i, ob). retire_sm V (smo_state ob)) (reg_sms r))"

section \<open>The simple service model\<close>

text \<open>
  \<^verbatim>\<open>SimpleServiceModel\<close> of \<^verbatim>\<open>examples/simple_agent.cpp\<close>. The functions that code its payloads
  are parameters here, given in \<open>Simple_Wrapper\<close>: \<open>enc_def\<close> (\<^verbatim>\<open>encode_ran_function_data\<close>), \<open>dec_ctl\<close>
  (\<^verbatim>\<open>decode_simple_control\<close>, whether decoding succeeds) and \<open>enc_ind\<close> (\<^verbatim>\<open>encode_simple_indication\<close>).
\<close>

record SimpleServiceModel =
  ssm_running :: bool
  ssm_worker :: bool
  ssm_seq :: u32

text \<open>
  \<open>ssm_worker\<close> is True while the member \<^verbatim>\<open>worker_\<close> is a joinable thread. \<^verbatim>\<open>stop\<close> joins it: the loop of the worker
  looks at \<^verbatim>\<open>running_\<close> again after its sleep and after each round, so it ends once the flag is cleared;
  a round it is in goes to its end first and is a round like any other.
\<close>

definition new_SimpleServiceModel :: SimpleServiceModel where
  "new_SimpleServiceModel = \<lparr>ssm_running = False, ssm_worker = False, ssm_seq = 0\<rparr>"

lemma new_SimpleServiceModel_sel [simp]:
  "\<not> ssm_running new_SimpleServiceModel" "\<not> ssm_worker new_SimpleServiceModel" "ssm_seq new_SimpleServiceModel = 0"
  by (simp_all add: new_SimpleServiceModel_def)

definition SIMPLE_RAN_FUNCTION_ID :: u32 where "SIMPLE_RAN_FUNCTION_ID = 1"

definition simple_start :: "SimpleServiceModel \<Rightarrow> ErrorCode \<times> SimpleServiceModel" where
  "simple_start s = (if ssm_running s then (SUCCESS, s) else (SUCCESS, s\<lparr>ssm_running := True, ssm_worker := True\<rparr>))"

definition simple_stop :: "SimpleServiceModel \<Rightarrow> SimpleServiceModel" where
  "simple_stop s =
     (if \<not> ssm_running s then s
      else let s = s\<lparr>ssm_running := False\<rparr>
           in if ssm_worker s then s\<lparr>ssm_worker := False\<rparr> else s)"

definition simple_handle_control_action :: "u64 \<Rightarrow> (bytes \<Rightarrow> bool) \<Rightarrow> u32 \<Rightarrow> DAppControlAction
    \<Rightarrow> SimpleServiceModel \<Rightarrow> SimpleServiceModel sm_act" where
  "simple_handle_control_action now dec_ctl request_message_id action s =
     (let decode_ok = dec_ctl (dca_action_data action);
          ack_pdu = make_message_ack_pdu now request_message_id
                      (if decode_ok then POSITIVE else NEGATIVE)
      in Act_emit ack_pdu (\<lambda>ec. Act_return ec s))"

text \<open>One round of the worker thread after its sleep: an indication to every subscriber.\<close>

fun simple_emit_all :: "u64 \<Rightarrow> bytes \<Rightarrow> u32 list \<Rightarrow> SimpleServiceModel \<Rightarrow> SimpleServiceModel sm_act" where
  "simple_emit_all now encoded [] s = Act_return SUCCESS (s\<lparr>ssm_seq := ssm_seq s + 1\<rparr>)"
| "simple_emit_all now encoded (d # ds) s =
     Act_emit (make_indication_pdu now d SIMPLE_RAN_FUNCTION_ID encoded)
       (\<lambda>rc. simple_emit_all now encoded ds s)"

definition simple_worker_round :: "u64 \<Rightarrow> (u32 \<Rightarrow> bytes option) \<Rightarrow> SimpleServiceModel
    \<Rightarrow> SimpleServiceModel sm_act" where
  "simple_worker_round now enc_ind s =
     (if \<not> ssm_running s then Act_return SUCCESS s
      else Act_subscribers (\<lambda>subscribers.
        if subscribers = [] then Act_return SUCCESS s
        else case enc_ind (ssm_seq s) of
               None \<Rightarrow> Act_return SUCCESS s
             | Some encoded \<Rightarrow> simple_emit_all now encoded subscribers s))"

definition simple_sm :: "u64 \<Rightarrow> (string \<Rightarrow> bytes option) \<Rightarrow> (bytes \<Rightarrow> bool) \<Rightarrow> SimpleServiceModel service_model" where
  "simple_sm now enc_def dec_ctl = \<lparr>
     vt_name = (\<lambda>s. ''SIMPLE''), vt_version = (\<lambda>s. 1),
     vt_ran_function_id = (\<lambda>s. SIMPLE_RAN_FUNCTION_ID),
     vt_telemetry_ids = (\<lambda>s. [1]), vt_control_ids = (\<lambda>s. [1]),
     vt_ran_function_data = (\<lambda>s. case enc_def ''SIMPLE'' of Some out \<Rightarrow> out | None \<Rightarrow> []),
     vt_init = (\<lambda>s. (SUCCESS, s)),
     vt_destroy = simple_stop, vt_start = simple_start, vt_stop = simple_stop,
     vt_is_running = ssm_running,
     vt_handle_control_action = simple_handle_control_action now dec_ctl\<rparr>"

section \<open>The contract of a service model\<close>

text \<open>
  What the registry relies on, as the interface documents it: a successful start leaves the service
  model running, stop leaves it stopped and destroy does not start it again.
\<close>

locale service_model_contract =
  fixes V :: "'sm service_model"
  assumes start_runs: "vt_start V s = (SUCCESS, s') \<Longrightarrow> vt_is_running V s'"
    and stop_stops: "\<not> vt_is_running V (vt_stop V s)"
    and destroy_stopped: "\<not> vt_is_running V s \<Longrightarrow> \<not> vt_is_running V (vt_destroy V s)"
begin

lemma retire_stopped: "\<not> vt_is_running V (retire_sm V s)"
  by (simp add: retire_sm_def stop_stops destroy_stopped)

lemma start_running:
  "start_sm V r i = (SUCCESS, r') \<Longrightarrow> is_sm_running V r' i"
  using start_runs
  by (auto simp: start_sm_def is_sm_running_def Let_def split: option.splits prod.splits if_splits)

lemma stop_not_running: "\<not> is_sm_running V (snd (stop_sm V r i)) i"
  using stop_stops by (auto simp: stop_sm_def is_sm_running_def split: option.splits if_splits)

lemma unregister_stopped: "snd (snd (unregister_sm V r i)) = Some s \<Longrightarrow> \<not> vt_is_running V s"
  using retire_stopped by (auto simp: unregister_sm_def split: option.splits)

lemma clear_all_stopped: "s \<in> set (snd (SmRegistry_clear V r)) \<Longrightarrow> \<not> vt_is_running V s"
  using retire_stopped by (auto simp: SmRegistry_clear_def)

end

interpretation simple: service_model_contract "simple_sm now enc_def dec_ctl" for now enc_def dec_ctl
  by unfold_locales
    (auto simp: simple_sm_def simple_start_def simple_stop_def Let_def split: if_splits)

section \<open>Lemmas\<close>

definition reg_wf :: "'sm SmRegistry \<Rightarrow> bool" where
  "reg_wf r \<longleftrightarrow> um_wf (reg_sms r) \<and> um_wf (reg_factories r)"

lemma reg_wf_new [e3_inv]: "reg_wf new_SmRegistry"
  by (simp add: reg_wf_def new_SmRegistry_def)

lemma reg_wf_ops [e3_inv]:
  "reg_wf r \<Longrightarrow> reg_wf (snd (SmRegistry_register_sm V r smo))"
  "reg_wf r \<Longrightarrow> reg_wf (snd (register_sm_factory r i f))"
  "reg_wf r \<Longrightarrow> reg_wf (fst (snd (unregister_sm V r i)))"
  "reg_wf r \<Longrightarrow> reg_wf (snd (get_by_ran_function V r i))"
  "reg_wf r \<Longrightarrow> reg_wf (snd (start_sm V r i))"
  "reg_wf r \<Longrightarrow> reg_wf (snd (stop_sm V r i))"
  "reg_wf (fst (SmRegistry_clear V r))"
  by (auto simp: reg_wf_def SmRegistry_register_sm_def register_sm_factory_def unregister_sm_def
      get_by_ran_function_def start_sm_def stop_sm_def SmRegistry_clear_def Let_def
      split: option.split prod.split)

lemma other_running:
  "j \<noteq> i \<Longrightarrow> is_sm_running V (snd (start_sm V r i)) j = is_sm_running V r j"
  "j \<noteq> i \<Longrightarrow> is_sm_running V (snd (stop_sm V r i)) j = is_sm_running V r j"
  by (auto simp: start_sm_def stop_sm_def is_sm_running_def Let_def split: option.split prod.split)

lemma mset_available: "mset (SmRegistry_get_available_ran_functions r) = mset (um_keys (reg_sms r) @ um_keys (reg_factories r))"
  by (simp add: SmRegistry_get_available_ran_functions_def)

lemma set_um_keys [simp]: "set (um_keys m) = dom (map_of m)"
  by (simp add: um_keys_def dom_map_of_conv_image_fst)

lemma distinct_um_keys: "um_wf m \<Longrightarrow> distinct (um_keys m)"
  by (simp add: um_wf_def um_keys_def)

lemma count_um_keys: "um_wf m \<Longrightarrow> count (mset (um_keys m)) i = (if map_of m i = None then 0 else 1)"
  using distinct_um_keys[of m] by (auto simp: distinct_count_atmost_1 domIff)

lemma register_ok:
  assumes "SmRegistry_register_sm V r (Some ob) = (SUCCESS, r')"
  shows "map_of (reg_sms r) (vt_ran_function_id V (smo_state ob)) = None"
    and "fst (vt_init V (smo_state ob)) = SUCCESS"
    and "r' = r\<lparr>reg_sms := AList.update (vt_ran_function_id V (smo_state ob))
        (ob\<lparr>smo_state := snd (vt_init V (smo_state ob))\<rparr>) (reg_sms r)\<rparr>"
  using assms by (auto simp: SmRegistry_register_sm_def Let_def split: prod.splits if_splits)

section \<open>Properties\<close>

text \<open>
  C30: for service models that keep their contract, a successful \<^verbatim>\<open>start_sm\<close> leaves the service
  model of that RAN function running and \<^verbatim>\<open>stop_sm\<close> leaves it stopped, neither changes whether another
  one runs, and every service model that \<^verbatim>\<open>unregister_sm\<close> or \<^verbatim>\<open>clear\<close> deletes has been stopped.
\<close>

theorem sm_registry_lifecycle:
  assumes "service_model_contract V"
  shows "(fst (start_sm V r i) = SUCCESS \<longrightarrow> is_sm_running V (snd (start_sm V r i)) i)
    \<and> \<not> is_sm_running V (snd (stop_sm V r i)) i
    \<and> (\<forall>j. j \<noteq> i \<longrightarrow> is_sm_running V (snd (start_sm V r i)) j = is_sm_running V r j
              \<and> is_sm_running V (snd (stop_sm V r i)) j = is_sm_running V r j)
    \<and> (\<forall>s. snd (snd (unregister_sm V r i)) = Some s \<longrightarrow> \<not> vt_is_running V s)
    \<and> (\<forall>s \<in> set (snd (SmRegistry_clear V r)). \<not> vt_is_running V s)
    \<and> length (snd (SmRegistry_clear V r)) = length (um_keys (reg_sms r))"
  using service_model_contract.start_running[OF assms, of r i]
    service_model_contract.stop_not_running[OF assms, of r i]
    service_model_contract.unregister_stopped[OF assms, of r i]
    service_model_contract.clear_all_stopped[OF assms, of _ r] other_running[of _ i V r]
  by (cases "start_sm V r i") (auto simp: SmRegistry_clear_def um_keys_def)

theorem sm_registry_lifecycle_witness:
  "let V = simple_sm 0 (\<lambda>_. None) (\<lambda>_. True);
       r = snd (SmRegistry_register_sm V new_SmRegistry (Some (new_sm_object new_SimpleServiceModel)))
   in fst (start_sm V r 1) = SUCCESS \<and> is_sm_running V (snd (start_sm V r 1)) 1"
proof -
  let ?V = "simple_sm 0 (\<lambda>_. None) (\<lambda>_. True)"
  let ?r = "snd (SmRegistry_register_sm ?V new_SmRegistry
      (Some (new_sm_object new_SimpleServiceModel)))"
  have "fst (start_sm ?V ?r 1) = SUCCESS"
    by (simp add: SmRegistry_register_sm_def new_sm_object_def new_SmRegistry_def simple_sm_def
        simple_start_def start_sm_def SIMPLE_RAN_FUNCTION_ID_def)
  then show ?thesis
    using sm_registry_lifecycle[OF simple.service_model_contract_axioms, of 0 "\<lambda>_. None" "\<lambda>_. True" ?r 1]
    by (simp add: Let_def)
qed

text \<open>
  A service model that registers successfully is the one found under its RAN function,
  in the state its \<^verbatim>\<open>init\<close> left, listed as available; other RAN functions keep what they had and a
  second registration for the same RAN function is refused without effect.
\<close>

lemma register_sm_lookup:
  assumes "SmRegistry_register_sm V r (Some ob) = (SUCCESS, r')"
  defines "i \<equiv> vt_ran_function_id V (smo_state ob)"
  shows "get_by_ran_function V r' i = (Some (ob\<lparr>smo_state := snd (vt_init V (smo_state ob))\<rparr>), r')
    \<and> map_of (reg_sms r) i = None \<and> i \<in> set (SmRegistry_get_available_ran_functions r')
    \<and> (\<forall>j. j \<noteq> i \<longrightarrow> map_of (reg_sms r') j = map_of (reg_sms r) j)
    \<and> reg_factories r' = reg_factories r
    \<and> (\<forall>ob'. vt_ran_function_id V (smo_state ob') = i \<longrightarrow>
          SmRegistry_register_sm V r' (Some ob') = (SM_ALREADY_REGISTERED, r'))"
  using register_ok[OF assms(1)]
  by (auto simp: i_def get_by_ran_function_def SmRegistry_get_available_ran_functions_def
      SmRegistry_register_sm_def)

text \<open>
  The list of available RAN functions is sorted and holds exactly the RAN functions with a
  service model or a factory; on a well-formed registry it has a repetition exactly when some RAN
  function has both.
\<close>

lemma available_ran_functions:
  assumes "reg_wf r"
  shows "sorted (SmRegistry_get_available_ran_functions r)
    \<and> set (SmRegistry_get_available_ran_functions r) = dom (map_of (reg_sms r)) \<union> dom (map_of (reg_factories r))
    \<and> (distinct (SmRegistry_get_available_ran_functions r)
         \<longleftrightarrow> dom (map_of (reg_sms r)) \<inter> dom (map_of (reg_factories r)) = {})"
  using assms distinct_um_keys[of "reg_sms r"] distinct_um_keys[of "reg_factories r"]
  by (auto simp: SmRegistry_get_available_ran_functions_def reg_wf_def)

text \<open>
  \<^verbatim>\<open>register_sm\<close> does not look at the factories. A service model registered for a RAN function
  that has a factory is accepted; the RAN function is then listed twice, and after it is unregistered
  the factory is still there.
\<close>

lemma register_sm_beside_factory:
  assumes "reg_wf r" and "map_of (reg_factories r) i = Some f" and "vt_ran_function_id V (smo_state ob) = i"
    and "map_of (reg_sms r) i = None" and "fst (vt_init V (smo_state ob)) = SUCCESS"
  shows "\<exists>r'. SmRegistry_register_sm V r (Some ob) = (SUCCESS, r')
    \<and> count (mset (SmRegistry_get_available_ran_functions r')) i = 2
    \<and> fst (unregister_sm V r' i) = SUCCESS
    \<and> map_of (reg_sms (fst (snd (unregister_sm V r' i)))) i = None
    \<and> map_of (reg_factories (fst (snd (unregister_sm V r' i)))) i = Some f"
proof -
  let ?r = "r\<lparr>reg_sms := AList.update i (ob\<lparr>smo_state := snd (vt_init V (smo_state ob))\<rparr>) (reg_sms r)\<rparr>"
  have reg: "SmRegistry_register_sm V r (Some ob) = (SUCCESS, ?r)"
    using assms(3-5) by (simp add: SmRegistry_register_sm_def split_beta Let_def)
  have "reg_wf ?r" using assms(1) by (simp add: reg_wf_def)
  then have "count (mset (um_keys (reg_sms ?r))) i = 1" "count (mset (um_keys (reg_factories ?r))) i = 1"
    using assms(2) by (simp_all add: reg_wf_def count_um_keys)
  then have "count (mset (SmRegistry_get_available_ran_functions ?r)) i = 2" by (simp add: mset_available)
  then show ?thesis using reg assms(2) by (intro exI[of _ ?r]) (simp add: unregister_sm_def)
qed

lemma register_sm_beside_factory_witness:
  "let V = simple_sm 0 (\<lambda>_. None) (\<lambda>_. True); ob = new_sm_object new_SimpleServiceModel;
       r = snd (register_sm_factory new_SmRegistry 1 (Some (\<lambda>_. None)))
   in \<exists>r'. SmRegistry_register_sm V r (Some ob) = (SUCCESS, r')
        \<and> count (mset (SmRegistry_get_available_ran_functions r')) 1 = 2"
proof -
  let ?V = "simple_sm 0 (\<lambda>_. None) (\<lambda>_. True)" and ?ob = "new_sm_object new_SimpleServiceModel"
  let ?r = "snd (register_sm_factory new_SmRegistry 1 (Some (\<lambda>_. None)))"
  have "reg_wf ?r" by (simp add: e3_inv)
  moreover have "map_of (reg_factories ?r) 1 = Some \<lparr>fac_calls = 0, fac_make = \<lambda>_. None\<rparr>"
    "map_of (reg_sms ?r) 1 = None"
    by (simp_all add: register_sm_factory_def new_SmRegistry_def)
  moreover have "vt_ran_function_id ?V (smo_state ?ob) = 1" "fst (vt_init ?V (smo_state ?ob)) = SUCCESS"
    by (simp_all add: simple_sm_def SIMPLE_RAN_FUNCTION_ID_def)
  ultimately show ?thesis
    using register_sm_beside_factory[of ?r 1 _ ?V ?ob] unfolding Let_def by blast
qed

text \<open>
  The service model a factory made has no callbacks: whatever it emits is refused with
  NOT_INITIALIZED without reaching the agent, and it sees no subscribers, on every lookup after.
\<close>

lemma factory_sm_cannot_emit:
  assumes "map_of (reg_sms r) i = None" and "get_by_ran_function V r i = (Some ob, r')"
  shows "emit_outbound emitter ob w pdu = Some (NOT_INITIALIZED, w) \<and> get_subscribers provider ob w = []
    \<and> get_by_ran_function V r' i = (Some ob, r') \<and> map_of (reg_factories r') i = None"
  using assms
  by (auto simp: get_by_ran_function_def new_sm_object_def emit_outbound_def get_subscribers_def Let_def
      split: option.splits prod.splits if_splits)

lemma factory_sm_cannot_emit_witness:
  "let V = simple_sm 0 (\<lambda>_. None) (\<lambda>_. True);
       r = snd (register_sm_factory new_SmRegistry 1 (Some (\<lambda>_. Some new_SimpleServiceModel)))
   in \<exists>ob r'. get_by_ran_function V r 1 = (Some ob, r')
        \<and> emit_outbound (\<lambda>w pdu. Some (SUCCESS, w + 1)) ob (0 :: nat) (new_Pdu MESSAGE_ACK 0)
            = Some (NOT_INITIALIZED, 0)"
proof -
  let ?V = "simple_sm 0 (\<lambda>_. None) (\<lambda>_. True)"
  let ?r = "snd (register_sm_factory new_SmRegistry 1 (Some (\<lambda>_. Some new_SimpleServiceModel)))"
  have "map_of (reg_sms ?r) 1 = None" by (simp add: register_sm_factory_def new_SmRegistry_def)
  moreover obtain ob r' where "get_by_ran_function ?V ?r 1 = (Some ob, r')"
    by (simp add: get_by_ran_function_def register_sm_factory_def new_SmRegistry_def simple_sm_def)
  ultimately show ?thesis
    using factory_sm_cannot_emit[where r = ?r and i = 1 and V = ?V and ob = ob and r' = r'
        and w = "0 :: nat" and emitter = "\<lambda>w pdu. Some (SUCCESS, w + 1)"]
    unfolding Let_def by blast
qed

end
