(* ===== verification/E3_Encoder.thy ===== *)
theory E3_Encoder
  imports E3_Types
begin

text \<open>
  The encoder interface of \<^verbatim>\<open>include/libe3/e3_encoder.hpp\<close> and the message builders of
  \<^verbatim>\<open>src/encoder/e3_encoder.cpp\<close>. A class derived from \<^verbatim>\<open>E3Encoder\<close> is the record of its virtual
  functions; \<^verbatim>\<open>tl::expected\<close> is a sum with the error on the left. \<open>now\<close> is the wall clock the
  constructor of a PDU reads.
\<close>

section \<open>The interface\<close>

record encoder_ops =
  enc_encode :: "Pdu \<Rightarrow> EncodedMessage result"
  enc_decode :: "bytes \<Rightarrow> Pdu result"
  enc_format :: EncodingFormat

text \<open>\<^verbatim>\<open>decode(const EncodedMessage&)\<close> of every encoder.\<close>

definition enc_decode_message :: "encoder_ops \<Rightarrow> EncodedMessage \<Rightarrow> Pdu result" where
  "enc_decode_message E m = enc_decode E (em_buffer m)"

section \<open>Message builders\<close>

definition pdu_of :: "u64 \<Rightarrow> u32 \<Rightarrow> PduType \<Rightarrow> PduChoice \<Rightarrow> Pdu" where
  "pdu_of now message_id t ch = (new_Pdu t now)\<lparr>pdu_message_id := message_id, pdu_choice := ch\<rparr>"

definition encode_setup_request :: "encoder_ops \<Rightarrow> u64 \<Rightarrow> u32 \<Rightarrow> string \<Rightarrow> string \<Rightarrow> string \<Rightarrow> string
    \<Rightarrow> EncodedMessage result" where
  "encode_setup_request E now message_id e3ap_protocol_version dapp_name dapp_version vendor =
     enc_encode E (pdu_of now message_id SETUP_REQUEST (C_SetupRequest
       \<lparr>sreq_e3ap_protocol_version = e3ap_protocol_version, sreq_dapp_name = dapp_name,
         sreq_dapp_version = dapp_version, sreq_vendor = vendor\<rparr>))"

definition encode_setup_response :: "encoder_ops \<Rightarrow> u64 \<Rightarrow> u32 \<Rightarrow> u32 \<Rightarrow> ResponseCode \<Rightarrow> string option
    \<Rightarrow> u32 option \<Rightarrow> string \<Rightarrow> RanFunctionDef list \<Rightarrow> EncodedMessage result" where
  "encode_setup_response E now message_id request_id response_code e3ap_protocol_version
      dapp_identifier ran_identifier ran_function_list =
     enc_encode E (pdu_of now message_id SETUP_RESPONSE (C_SetupResponse
       \<lparr>sresp_request_id = request_id, sresp_response_code = response_code,
         sresp_e3ap_protocol_version = e3ap_protocol_version,
         sresp_dapp_identifier = dapp_identifier, sresp_ran_identifier = ran_identifier,
         sresp_ran_function_list = ran_function_list\<rparr>))"

definition encode_subscription_request :: "encoder_ops \<Rightarrow> u64 \<Rightarrow> u32 \<Rightarrow> u32 \<Rightarrow> u32 \<Rightarrow> u32 list \<Rightarrow> u32 list
    \<Rightarrow> u32 option \<Rightarrow> EncodedMessage result" where
  "encode_subscription_request E now message_id dapp_identifier ran_function_identifier
      telemetry_identifier_list control_identifier_list subscription_time =
     enc_encode E (pdu_of now message_id SUBSCRIPTION_REQUEST (C_SubscriptionRequest
       \<lparr>subreq_dapp_identifier = dapp_identifier,
         subreq_ran_function_identifier = ran_function_identifier,
         subreq_telemetry_identifier_list = telemetry_identifier_list,
         subreq_control_identifier_list = control_identifier_list,
         subreq_subscription_time = subscription_time, subreq_periodicity = None\<rparr>))"

definition encode_subscription_delete :: "encoder_ops \<Rightarrow> u64 \<Rightarrow> u32 \<Rightarrow> u32 \<Rightarrow> u32 \<Rightarrow> EncodedMessage result" where
  "encode_subscription_delete E now message_id dapp_identifier subscription_id =
     enc_encode E (pdu_of now message_id SUBSCRIPTION_DELETE (C_SubscriptionDelete
       \<lparr>subdel_dapp_identifier = dapp_identifier, subdel_subscription_id = subscription_id\<rparr>))"

definition encode_subscription_response :: "encoder_ops \<Rightarrow> u64 \<Rightarrow> u32 \<Rightarrow> u32 \<Rightarrow> u32 \<Rightarrow> ResponseCode
    \<Rightarrow> u32 option \<Rightarrow> EncodedMessage result" where
  "encode_subscription_response E now message_id request_id dapp_identifier response_code subscription_id =
     enc_encode E (pdu_of now message_id SUBSCRIPTION_RESPONSE (C_SubscriptionResponse
       \<lparr>subresp_request_id = request_id, subresp_dapp_identifier = dapp_identifier,
         subresp_response_code = response_code, subresp_subscription_id = subscription_id\<rparr>))"

definition encode_indication_message :: "encoder_ops \<Rightarrow> u64 \<Rightarrow> u32 \<Rightarrow> u32 \<Rightarrow> u32 \<Rightarrow> bytes
    \<Rightarrow> EncodedMessage result" where
  "encode_indication_message E now message_id dapp_identifier ran_function_identifier protocol_data =
     enc_encode E (pdu_of now message_id INDICATION_MESSAGE (C_IndicationMessage
       \<lparr>ind_dapp_identifier = dapp_identifier, ind_ran_function_identifier = ran_function_identifier,
         ind_protocol_data = protocol_data\<rparr>))"

definition encode_dapp_control_action :: "encoder_ops \<Rightarrow> u64 \<Rightarrow> u32 \<Rightarrow> u32 \<Rightarrow> u32 \<Rightarrow> u32 \<Rightarrow> bytes
    \<Rightarrow> EncodedMessage result" where
  "encode_dapp_control_action E now message_id dapp_identifier ran_function_identifier
      control_identifier action_data =
     enc_encode E (pdu_of now message_id DAPP_CONTROL_ACTION (C_DAppControlAction
       \<lparr>dca_dapp_identifier = dapp_identifier, dca_ran_function_identifier = ran_function_identifier,
         dca_control_identifier = control_identifier, dca_action_data = action_data\<rparr>))"

definition encode_dapp_report :: "encoder_ops \<Rightarrow> u64 \<Rightarrow> u32 \<Rightarrow> u32 \<Rightarrow> u32 \<Rightarrow> bytes \<Rightarrow> EncodedMessage result" where
  "encode_dapp_report E now message_id dapp_identifier ran_function_identifier report_data =
     enc_encode E (pdu_of now message_id DAPP_REPORT (C_DAppReport
       \<lparr>rep_dapp_identifier = dapp_identifier, rep_ran_function_identifier = ran_function_identifier,
         rep_report_data = report_data\<rparr>))"

definition encode_xapp_control_action :: "encoder_ops \<Rightarrow> u64 \<Rightarrow> u32 \<Rightarrow> u32 \<Rightarrow> u32 \<Rightarrow> bytes
    \<Rightarrow> EncodedMessage result" where
  "encode_xapp_control_action E now message_id dapp_identifier ran_function_identifier xapp_control_data =
     enc_encode E (pdu_of now message_id XAPP_CONTROL_ACTION (C_XAppControlAction
       \<lparr>xca_dapp_identifier = dapp_identifier, xca_ran_function_identifier = ran_function_identifier,
         xca_xapp_control_data = xapp_control_data\<rparr>))"

definition encode_message_ack :: "encoder_ops \<Rightarrow> u64 \<Rightarrow> u32 \<Rightarrow> u32 \<Rightarrow> ResponseCode \<Rightarrow> EncodedMessage result" where
  "encode_message_ack E now message_id request_id response_code =
     enc_encode E (pdu_of now message_id MESSAGE_ACK (C_MessageAck
       \<lparr>ack_request_id = request_id, ack_response_code = response_code\<rparr>))"

lemmas encode_builders = encode_setup_request_def encode_setup_response_def
  encode_subscription_request_def encode_subscription_delete_def encode_subscription_response_def
  encode_indication_message_def encode_dapp_control_action_def encode_dapp_report_def
  encode_xapp_control_action_def encode_message_ack_def

section \<open>What an encoder promises\<close>

text \<open>
  A PDU whose type tag fits its content, once encoded, is decoded to what the wire format carries of
  it: \<open>wire p\<close>. The wire formats carry no periodicity; they may carry the time stamp or not.
\<close>

lemma char_bytes [simp]: "map (\<lambda>b. char_of (unat b)) (map of_char s :: bytes) = s"
proof -
  have "char_of (unat (of_char c :: u8)) = c" for c
  proof -
    have "(of_char c :: u8) = of_nat (of_char c)" by (simp add: of_char_def)
    moreover have "(of_char c :: nat) < 256" by simp
    ultimately have "unat (of_char c :: u8) = of_char c" by (simp add: unat_of_nat)
    then show ?thesis by simp
  qed
  then show ?thesis by (simp add: comp_def)
qed

lemma pdu_tagged_pdu_of [simp]: "pdu_tagged (pdu_of now i t ch) \<longleftrightarrow> choice_type ch = t"
  by (simp add: pdu_tagged_def pdu_of_def new_Pdu_def)

lemma pdu_of_sel [simp]:
  "pdu_type (pdu_of now i t ch) = t" "pdu_choice (pdu_of now i t ch) = ch"
  "pdu_message_id (pdu_of now i t ch) = i" "pdu_timestamp (pdu_of now i t ch) = now"
  by (simp_all add: pdu_of_def new_Pdu_def)

fun drop_periodicity :: "PduChoice \<Rightarrow> PduChoice" where
  "drop_periodicity (C_SubscriptionRequest r) = C_SubscriptionRequest (r\<lparr>subreq_periodicity := None\<rparr>)"
| "drop_periodicity c = c"

lemma choice_type_drop [simp]: "choice_type (drop_periodicity c) = choice_type c"
  by (cases c) simp_all

locale encoder_contract =
  fixes E :: encoder_ops and wire :: "Pdu \<Rightarrow> Pdu"
  assumes roundtrip: "pdu_tagged p \<Longrightarrow> enc_encode E p = Inr m \<Longrightarrow> enc_decode E (em_buffer m) = Inr (wire p)"
    and wire_type: "pdu_type (wire p) = pdu_type p"
    and wire_message_id: "pdu_message_id (wire p) = pdu_message_id p"
    and wire_choice: "pdu_tagged p \<Longrightarrow> pdu_choice (wire p) = drop_periodicity (pdu_choice p)"
begin

lemma built_roundtrip:
  assumes "enc_encode E (pdu_of now i (choice_type ch) ch) = Inr m"
  shows "\<exists>p. enc_decode_message E m = Inr p \<and> pdu_type p = choice_type ch \<and> pdu_message_id p = i
    \<and> pdu_choice p = drop_periodicity ch"
  using roundtrip[OF _ assms] wire_type wire_message_id wire_choice
  by (simp add: enc_decode_message_def)

lemma response_roundtrip:
  assumes "encode_setup_response E now i req code ver d rid fs = Inr m"
  shows "\<exists>p. enc_decode_message E m = Inr p \<and> pdu_type p = SETUP_RESPONSE \<and> pdu_message_id p = i
    \<and> pdu_choice p = C_SetupResponse \<lparr>sresp_request_id = req, sresp_response_code = code,
         sresp_e3ap_protocol_version = ver, sresp_dapp_identifier = d, sresp_ran_identifier = rid,
         sresp_ran_function_list = fs\<rparr>"
proof -
  let ?ch = "C_SetupResponse \<lparr>sresp_request_id = req, sresp_response_code = code,
         sresp_e3ap_protocol_version = ver, sresp_dapp_identifier = d, sresp_ran_identifier = rid,
         sresp_ran_function_list = fs\<rparr>"
  show ?thesis
    using built_roundtrip[of now i ?ch m] assms by (simp add: encode_setup_response_def)
qed

end

end
