(* ===== verification/Json_Encoder.thy ===== *)
theory Json_Encoder
  imports E3_Encoder "HOL-Library.Monad_Syntax" "HOL-Library.Countable"
begin

text \<open>
  The JSON encoder of \<^verbatim>\<open>src/encoder/json_encoder.cpp\<close>. The JSON library (nlohmann/json) is not part of
  the repository: the operations the encoder calls are the record \<open>'j json_ops\<close>, a parameter of the
  definitions, and the locale \<open>json_library\<close> states the documented laws the results below rely on. An
  operation that throws has the value \<^const>\<open>None\<close>; \<^verbatim>\<open>encode\<close> and \<^verbatim>\<open>decode\<close> catch every exception and
  return an error code, as the source does.
\<close>

section \<open>The JSON library\<close>

record 'j json_ops =
  j_null :: 'j                                        \<comment> \<open>a default-constructed value\<close>
  j_is_obj :: "'j \<Rightarrow> bool"                            \<comment> \<open>null or an object\<close>
  j_of_string :: "string \<Rightarrow> 'j"
  j_of_u32 :: "u32 \<Rightarrow> 'j"
  j_of_u64 :: "u64 \<Rightarrow> 'j"
  j_of_u32s :: "u32 list \<Rightarrow> 'j"
  j_of_array :: "'j list \<Rightarrow> 'j"
  j_set :: "'j \<Rightarrow> string \<Rightarrow> 'j \<Rightarrow> 'j"                \<comment> \<open>\<^verbatim>\<open>j[key] = v\<close>\<close>
  j_contains :: "'j \<Rightarrow> string \<Rightarrow> bool"
  j_at :: "'j \<Rightarrow> string \<Rightarrow> 'j"                        \<comment> \<open>\<^verbatim>\<open>j[key]\<close>\<close>
  j_get_string :: "'j \<Rightarrow> string option"
  j_get_u32 :: "'j \<Rightarrow> u32 option"
  j_get_u64 :: "'j \<Rightarrow> u64 option"
  j_get_u32s :: "'j \<Rightarrow> u32 list option"
  j_value_string :: "'j \<Rightarrow> string \<Rightarrow> string \<Rightarrow> string option"  \<comment> \<open>\<^verbatim>\<open>j.value(key, default)\<close>\<close>
  j_value_u32 :: "'j \<Rightarrow> string \<Rightarrow> u32 \<Rightarrow> u32 option"
  j_value_u64 :: "'j \<Rightarrow> string \<Rightarrow> u64 \<Rightarrow> u64 option"
  j_value_u32s :: "'j \<Rightarrow> string \<Rightarrow> u32 list \<Rightarrow> u32 list option"
  j_elems :: "'j \<Rightarrow> 'j list"                          \<comment> \<open>the elements a range-for visits\<close>
  j_dump :: "'j \<Rightarrow> string option"
  j_parse :: "string \<Rightarrow> 'j option"

section \<open>Conversions\<close>

definition string_to_pdu_type :: "string \<Rightarrow> PduType" where
  "string_to_pdu_type s =
     (if s = ''SetupRequest'' then SETUP_REQUEST
      else if s = ''SetupResponse'' then SETUP_RESPONSE
      else if s = ''SubscriptionRequest'' then SUBSCRIPTION_REQUEST
      else if s = ''SubscriptionDelete'' then SUBSCRIPTION_DELETE
      else if s = ''SubscriptionResponse'' then SUBSCRIPTION_RESPONSE
      else if s = ''IndicationMessage'' then INDICATION_MESSAGE
      else if s = ''DAppControlAction'' then DAPP_CONTROL_ACTION
      else if s = ''DAppReport'' then DAPP_REPORT
      else if s = ''XAppControlAction'' then XAPP_CONTROL_ACTION
      else if s = ''ReleaseMessage'' then RELEASE_MESSAGE
      else if s = ''MessageAck'' then MESSAGE_ACK
      else SETUP_REQUEST)"

definition string_to_error_code :: "string \<Rightarrow> ErrorCode" where
  "string_to_error_code s =
     (if s = ''SUCCESS'' then SUCCESS
      else if s = ''INVALID_PARAM'' then INVALID_PARAM
      else if s = ''TIMEOUT'' then TIMEOUT
      else if s = ''NOT_FOUND'' then NOT_FOUND
      else GENERIC_ERROR)"

text \<open>Two lower-case hexadecimal digits per byte.\<close>

definition hex_digit :: "nat \<Rightarrow> char" where
  "hex_digit n = (if n < 10 then char_of (48 + n) else char_of (87 + n))"

definition binary_to_hex :: "bytes \<Rightarrow> string" where
  "binary_to_hex data = concat (map (\<lambda>b. [hex_digit (unat b div 16), hex_digit (unat b mod 16)]) data)"

definition hex_value :: "char \<Rightarrow> nat option" where
  "hex_value c =
     (let n = of_char c :: nat
      in if 48 \<le> n \<and> n \<le> 57 then Some (n - 48)
         else if 97 \<le> n \<and> n \<le> 102 then Some (n - 87)
         else if 65 \<le> n \<and> n \<le> 70 then Some (n - 55)
         else None)"

definition is_space :: "char \<Rightarrow> bool" where
  "is_space c \<longleftrightarrow> (let n = of_char c :: nat in n = 32 \<or> 9 \<le> n \<and> n \<le> 13)"

text \<open>
  \<^verbatim>\<open>std::stoi(s, nullptr, 16)\<close>: leading white space, a sign and a \<^verbatim>\<open>0x\<close> prefix are skipped, the longest
  run of digits is converted, the rest is ignored; with no digit or a value outside \<^verbatim>\<open>int\<close> it throws.
\<close>

definition stoi16 :: "string \<Rightarrow> int option" where
  "stoi16 s =
     (let s1 = dropWhile is_space s;
          (neg, s2) = (case s1 of c # cs \<Rightarrow>
              if c = CHR ''-'' then (True, cs) else if c = CHR ''+'' then (False, cs) else (False, s1)
            | [] \<Rightarrow> (False, s1));
          s3 = (case s2 of a # x # d # ds \<Rightarrow>
              if a = CHR ''0'' \<and> (x = CHR ''x'' \<or> x = CHR ''X'') \<and> hex_value d \<noteq> None then d # ds else s2
            | _ \<Rightarrow> s2);
          digits = takeWhile (\<lambda>c. hex_value c \<noteq> None) s3;
          n = foldl (\<lambda>acc c. acc * 16 + int (the (hex_value c))) 0 digits;
          v = (if neg then - n else n)
      in if digits = [] then None
         else if v < - (2 ^ 31) \<or> 2 ^ 31 \<le> v then None
         else Some v)"

fun hex_to_binary :: "string \<Rightarrow> bytes option" where
  "hex_to_binary (c1 # c2 # cs) =
     do { v \<leftarrow> stoi16 [c1, c2]; bs \<leftarrow> hex_to_binary cs; Some (word_of_int v # bs) }"
| "hex_to_binary _ = Some []"

definition response_code_text :: "ResponseCode \<Rightarrow> string" where
  "response_code_text c = (if c = POSITIVE then ''positive'' else ''negative'')"

definition response_code_of_text :: "string \<Rightarrow> ResponseCode" where
  "response_code_of_text s = (if s = ''positive'' then POSITIVE else NEGATIVE)"

section \<open>Encoding\<close>

text \<open>\<^verbatim>\<open>j[key] = v\<close> for each pair in turn, on a default-constructed value.\<close>

definition j_object :: "'j json_ops \<Rightarrow> (string \<times> 'j) list \<Rightarrow> 'j" where
  "j_object J kvs = foldl (\<lambda>j (k, v). j_set J j k v) (j_null J) kvs"

definition opt_entry :: "string \<Rightarrow> ('a \<Rightarrow> 'j) \<Rightarrow> 'a option \<Rightarrow> (string \<times> 'j) list" where
  "opt_entry k f x = (case x of Some v \<Rightarrow> [(k, f v)] | None \<Rightarrow> [])"

definition json_encode_setup_request :: "'j json_ops \<Rightarrow> SetupRequest \<Rightarrow> 'j" where
  "json_encode_setup_request J r = j_object J
     [(''e3ap_protocol_version'', j_of_string J (sreq_e3ap_protocol_version r)),
      (''dapp_name'', j_of_string J (sreq_dapp_name r)),
      (''dapp_version'', j_of_string J (sreq_dapp_version r)),
      (''vendor'', j_of_string J (sreq_vendor r))]"

definition json_encode_ran_function :: "'j json_ops \<Rightarrow> RanFunctionDef \<Rightarrow> 'j" where
  "json_encode_ran_function J f = j_object J
     [(''ran_function_identifier'', j_of_u32 J (rf_ran_function_identifier f)),
      (''telemetry_identifier_list'', j_of_u32s J (rf_telemetry_identifier_list f)),
      (''control_identifier_list'', j_of_u32s J (rf_control_identifier_list f)),
      (''ran_function_data'', j_of_string J (binary_to_hex (rf_ran_function_data f)))]"

definition json_encode_setup_response :: "'j json_ops \<Rightarrow> SetupResponse \<Rightarrow> 'j" where
  "json_encode_setup_response J r = j_object J (
     [(''request_id'', j_of_u32 J (sresp_request_id r)),
      (''response_code'', j_of_string J (response_code_text (sresp_response_code r)))]
     @ opt_entry ''e3ap_protocol_version'' (j_of_string J) (sresp_e3ap_protocol_version r)
     @ opt_entry ''dapp_identifier'' (j_of_u32 J) (sresp_dapp_identifier r)
     @ [(''ran_identifier'', j_of_string J (sresp_ran_identifier r))]
     @ (if sresp_ran_function_list r \<noteq> []
        then [(''ran_function_list'',
               j_of_array J (map (json_encode_ran_function J) (sresp_ran_function_list r)))]
        else []))"

definition json_encode_subscription_request :: "'j json_ops \<Rightarrow> SubscriptionRequest \<Rightarrow> 'j" where
  "json_encode_subscription_request J r = j_object J (
     [(''dapp_identifier'', j_of_u32 J (subreq_dapp_identifier r)),
      (''ran_function_identifier'', j_of_u32 J (subreq_ran_function_identifier r)),
      (''telemetry_identifier_list'', j_of_u32s J (subreq_telemetry_identifier_list r)),
      (''control_identifier_list'', j_of_u32s J (subreq_control_identifier_list r))]
     @ opt_entry ''subscription_time'' (j_of_u32 J) (subreq_subscription_time r))"

definition json_encode_subscription_delete :: "'j json_ops \<Rightarrow> SubscriptionDelete \<Rightarrow> 'j" where
  "json_encode_subscription_delete J d = j_object J
     [(''dapp_identifier'', j_of_u32 J (subdel_dapp_identifier d)),
      (''subscription_id'', j_of_u32 J (subdel_subscription_id d))]"

definition json_encode_subscription_response :: "'j json_ops \<Rightarrow> SubscriptionResponse \<Rightarrow> 'j" where
  "json_encode_subscription_response J r = j_object J (
     [(''request_id'', j_of_u32 J (subresp_request_id r)),
      (''dapp_identifier'', j_of_u32 J (subresp_dapp_identifier r)),
      (''response_code'', j_of_string J (response_code_text (subresp_response_code r)))]
     @ opt_entry ''subscription_id'' (j_of_u32 J) (subresp_subscription_id r))"

definition json_encode_indication_message :: "'j json_ops \<Rightarrow> IndicationMessage \<Rightarrow> 'j" where
  "json_encode_indication_message J m = j_object J
     [(''dapp_identifier'', j_of_u32 J (ind_dapp_identifier m)),
      (''ran_function_identifier'', j_of_u32 J (ind_ran_function_identifier m)),
      (''protocol_data'', j_of_string J (binary_to_hex (ind_protocol_data m)))]"

definition json_encode_dapp_control_action :: "'j json_ops \<Rightarrow> DAppControlAction \<Rightarrow> 'j" where
  "json_encode_dapp_control_action J a = j_object J
     [(''dapp_identifier'', j_of_u32 J (dca_dapp_identifier a)),
      (''ran_function_identifier'', j_of_u32 J (dca_ran_function_identifier a)),
      (''control_identifier'', j_of_u32 J (dca_control_identifier a)),
      (''action_data'', j_of_string J (binary_to_hex (dca_action_data a)))]"

definition json_encode_dapp_report :: "'j json_ops \<Rightarrow> DAppReport \<Rightarrow> 'j" where
  "json_encode_dapp_report J r = j_object J
     [(''dapp_identifier'', j_of_u32 J (rep_dapp_identifier r)),
      (''ran_function_identifier'', j_of_u32 J (rep_ran_function_identifier r)),
      (''report_data'', j_of_string J (binary_to_hex (rep_report_data r)))]"

definition json_encode_xapp_control_action :: "'j json_ops \<Rightarrow> XAppControlAction \<Rightarrow> 'j" where
  "json_encode_xapp_control_action J a = j_object J
     [(''dapp_identifier'', j_of_u32 J (xca_dapp_identifier a)),
      (''ran_function_identifier'', j_of_u32 J (xca_ran_function_identifier a)),
      (''xapp_control_data'', j_of_string J (binary_to_hex (xca_xapp_control_data a)))]"

definition json_encode_message_ack :: "'j json_ops \<Rightarrow> MessageAck \<Rightarrow> 'j" where
  "json_encode_message_ack J a = j_object J
     [(''request_id'', j_of_u32 J (ack_request_id a)),
      (''response_code'', j_of_string J (response_code_text (ack_response_code a)))]"

definition json_encode_release_message :: "'j json_ops \<Rightarrow> ReleaseMessage \<Rightarrow> 'j" where
  "json_encode_release_message J m = j_object J
     [(''dapp_identifier'', j_of_u32 J (rel_dapp_identifier m))]"

fun json_encode_choice :: "'j json_ops \<Rightarrow> PduChoice \<Rightarrow> 'j" where
  "json_encode_choice J (C_SetupRequest r) = json_encode_setup_request J r"
| "json_encode_choice J (C_SetupResponse r) = json_encode_setup_response J r"
| "json_encode_choice J (C_SubscriptionRequest r) = json_encode_subscription_request J r"
| "json_encode_choice J (C_SubscriptionDelete d) = json_encode_subscription_delete J d"
| "json_encode_choice J (C_SubscriptionResponse r) = json_encode_subscription_response J r"
| "json_encode_choice J (C_IndicationMessage m) = json_encode_indication_message J m"
| "json_encode_choice J (C_DAppControlAction a) = json_encode_dapp_control_action J a"
| "json_encode_choice J (C_DAppReport r) = json_encode_dapp_report J r"
| "json_encode_choice J (C_XAppControlAction a) = json_encode_xapp_control_action J a"
| "json_encode_choice J (C_ReleaseMessage m) = json_encode_release_message J m"
| "json_encode_choice J (C_MessageAck a) = json_encode_message_ack J a"

definition json_encode :: "'j json_ops \<Rightarrow> Pdu \<Rightarrow> EncodedMessage result" where
  "json_encode J pdu =
     (let root = j_object J
            [(''pdu_type'', j_of_string J (pdu_type_to_string (pdu_type pdu))),
             (''message_id'', j_of_u32 J (pdu_message_id pdu)),
             (''timestamp'', j_of_u64 J (pdu_timestamp pdu)),
             (''data'', json_encode_choice J (pdu_choice pdu))]
      in case j_dump J root of
           None \<Rightarrow> Inl ENCODE_FAILED
         | Some json_str \<Rightarrow> Inr \<lparr>em_buffer = map of_char json_str, em_format = JSON\<rparr>)"

section \<open>Decoding\<close>

definition opt_get :: "'j json_ops \<Rightarrow> ('j \<Rightarrow> 'a option) \<Rightarrow> 'j \<Rightarrow> string \<Rightarrow> 'a option option" where
  "opt_get J get j k = (if j_contains J j k then map_option Some (get (j_at J j k)) else Some None)"

definition json_decode_setup_request :: "'j json_ops \<Rightarrow> 'j \<Rightarrow> SetupRequest option" where
  "json_decode_setup_request J j = do {
     v \<leftarrow> j_value_string J j ''e3ap_protocol_version'' [];
     n \<leftarrow> j_value_string J j ''dapp_name'' [];
     dv \<leftarrow> j_value_string J j ''dapp_version'' [];
     ve \<leftarrow> j_value_string J j ''vendor'' [];
     Some \<lparr>sreq_e3ap_protocol_version = v, sreq_dapp_name = n, sreq_dapp_version = dv, sreq_vendor = ve\<rparr> }"

definition json_decode_ran_function :: "'j json_ops \<Rightarrow> 'j \<Rightarrow> RanFunctionDef option" where
  "json_decode_ran_function J j = do {
     i \<leftarrow> j_value_u32 J j ''ran_function_identifier'' 0;
     t \<leftarrow> j_value_u32s J j ''telemetry_identifier_list'' [];
     c \<leftarrow> j_value_u32s J j ''control_identifier_list'' [];
     h \<leftarrow> j_value_string J j ''ran_function_data'' [];
     b \<leftarrow> hex_to_binary h;
     Some \<lparr>rf_ran_function_identifier = i, rf_telemetry_identifier_list = t,
       rf_control_identifier_list = c, rf_ran_function_data = b\<rparr> }"

primrec opt_map :: "('a \<Rightarrow> 'b option) \<Rightarrow> 'a list \<Rightarrow> 'b list option" where
  "opt_map f [] = Some []"
| "opt_map f (x # xs) = do { y \<leftarrow> f x; ys \<leftarrow> opt_map f xs; Some (y # ys) }"

definition json_decode_setup_response :: "'j json_ops \<Rightarrow> 'j \<Rightarrow> SetupResponse option" where
  "json_decode_setup_response J j = do {
     i \<leftarrow> j_value_u32 J j ''request_id'' 0;
     code \<leftarrow> j_value_string J j ''response_code'' ''negative'';
     v \<leftarrow> opt_get J (j_get_string J) j ''e3ap_protocol_version'';
     d \<leftarrow> opt_get J (j_get_u32 J) j ''dapp_identifier'';
     rid \<leftarrow> j_value_string J j ''ran_identifier'' [];
     fs \<leftarrow> (if j_contains J j ''ran_function_list''
            then opt_map (json_decode_ran_function J) (j_elems J (j_at J j ''ran_function_list''))
            else Some []);
     Some \<lparr>sresp_request_id = i, sresp_response_code = response_code_of_text code,
       sresp_e3ap_protocol_version = v, sresp_dapp_identifier = d, sresp_ran_identifier = rid,
       sresp_ran_function_list = fs\<rparr> }"

definition json_decode_subscription_request :: "'j json_ops \<Rightarrow> 'j \<Rightarrow> SubscriptionRequest option" where
  "json_decode_subscription_request J j = do {
     d \<leftarrow> j_value_u32 J j ''dapp_identifier'' 0;
     r \<leftarrow> j_value_u32 J j ''ran_function_identifier'' 0;
     t \<leftarrow> j_value_u32s J j ''telemetry_identifier_list'' [];
     c \<leftarrow> j_value_u32s J j ''control_identifier_list'' [];
     s \<leftarrow> opt_get J (j_get_u32 J) j ''subscription_time'';
     Some \<lparr>subreq_dapp_identifier = d, subreq_ran_function_identifier = r,
       subreq_telemetry_identifier_list = t, subreq_control_identifier_list = c,
       subreq_subscription_time = s, subreq_periodicity = None\<rparr> }"

definition json_decode_subscription_delete :: "'j json_ops \<Rightarrow> 'j \<Rightarrow> SubscriptionDelete option" where
  "json_decode_subscription_delete J j = do {
     d \<leftarrow> j_value_u32 J j ''dapp_identifier'' 0;
     s \<leftarrow> j_value_u32 J j ''subscription_id'' 0;
     Some \<lparr>subdel_dapp_identifier = d, subdel_subscription_id = s\<rparr> }"

definition json_decode_subscription_response :: "'j json_ops \<Rightarrow> 'j \<Rightarrow> SubscriptionResponse option" where
  "json_decode_subscription_response J j = do {
     i \<leftarrow> j_value_u32 J j ''request_id'' 0;
     d \<leftarrow> j_value_u32 J j ''dapp_identifier'' 0;
     code \<leftarrow> j_value_string J j ''response_code'' ''negative'';
     s \<leftarrow> opt_get J (j_get_u32 J) j ''subscription_id'';
     Some \<lparr>subresp_request_id = i, subresp_dapp_identifier = d,
       subresp_response_code = response_code_of_text code, subresp_subscription_id = s\<rparr> }"

definition json_decode_indication_message :: "'j json_ops \<Rightarrow> 'j \<Rightarrow> IndicationMessage option" where
  "json_decode_indication_message J j = do {
     d \<leftarrow> j_value_u32 J j ''dapp_identifier'' 0;
     r \<leftarrow> j_value_u32 J j ''ran_function_identifier'' 0;
     h \<leftarrow> j_value_string J j ''protocol_data'' [];
     b \<leftarrow> hex_to_binary h;
     Some \<lparr>ind_dapp_identifier = d, ind_ran_function_identifier = r, ind_protocol_data = b\<rparr> }"

definition json_decode_dapp_control_action :: "'j json_ops \<Rightarrow> 'j \<Rightarrow> DAppControlAction option" where
  "json_decode_dapp_control_action J j = do {
     d \<leftarrow> j_value_u32 J j ''dapp_identifier'' 0;
     r \<leftarrow> j_value_u32 J j ''ran_function_identifier'' 0;
     c \<leftarrow> j_value_u32 J j ''control_identifier'' 0;
     h \<leftarrow> j_value_string J j ''action_data'' [];
     b \<leftarrow> hex_to_binary h;
     Some \<lparr>dca_dapp_identifier = d, dca_ran_function_identifier = r, dca_control_identifier = c,
       dca_action_data = b\<rparr> }"

definition json_decode_dapp_report :: "'j json_ops \<Rightarrow> 'j \<Rightarrow> DAppReport option" where
  "json_decode_dapp_report J j = do {
     d \<leftarrow> j_value_u32 J j ''dapp_identifier'' 0;
     r \<leftarrow> j_value_u32 J j ''ran_function_identifier'' 0;
     h \<leftarrow> j_value_string J j ''report_data'' [];
     b \<leftarrow> hex_to_binary h;
     Some \<lparr>rep_dapp_identifier = d, rep_ran_function_identifier = r, rep_report_data = b\<rparr> }"

definition json_decode_xapp_control_action :: "'j json_ops \<Rightarrow> 'j \<Rightarrow> XAppControlAction option" where
  "json_decode_xapp_control_action J j = do {
     d \<leftarrow> j_value_u32 J j ''dapp_identifier'' 0;
     r \<leftarrow> j_value_u32 J j ''ran_function_identifier'' 0;
     h \<leftarrow> j_value_string J j ''xapp_control_data'' [];
     b \<leftarrow> hex_to_binary h;
     Some \<lparr>xca_dapp_identifier = d, xca_ran_function_identifier = r, xca_xapp_control_data = b\<rparr> }"

definition json_decode_message_ack :: "'j json_ops \<Rightarrow> 'j \<Rightarrow> MessageAck option" where
  "json_decode_message_ack J j = do {
     i \<leftarrow> j_value_u32 J j ''request_id'' 0;
     code \<leftarrow> j_value_string J j ''response_code'' ''negative'';
     Some \<lparr>ack_request_id = i, ack_response_code = response_code_of_text code\<rparr> }"

definition json_decode_release_message :: "'j json_ops \<Rightarrow> 'j \<Rightarrow> ReleaseMessage option" where
  "json_decode_release_message J j = do {
     d \<leftarrow> j_value_u32 J j ''dapp_identifier'' 0;
     Some \<lparr>rel_dapp_identifier = d\<rparr> }"

fun json_decode_choice :: "'j json_ops \<Rightarrow> PduType \<Rightarrow> 'j \<Rightarrow> PduChoice option" where
  "json_decode_choice J SETUP_REQUEST j = map_option C_SetupRequest (json_decode_setup_request J j)"
| "json_decode_choice J SETUP_RESPONSE j = map_option C_SetupResponse (json_decode_setup_response J j)"
| "json_decode_choice J SUBSCRIPTION_REQUEST j =
     map_option C_SubscriptionRequest (json_decode_subscription_request J j)"
| "json_decode_choice J SUBSCRIPTION_DELETE j =
     map_option C_SubscriptionDelete (json_decode_subscription_delete J j)"
| "json_decode_choice J SUBSCRIPTION_RESPONSE j =
     map_option C_SubscriptionResponse (json_decode_subscription_response J j)"
| "json_decode_choice J INDICATION_MESSAGE j =
     map_option C_IndicationMessage (json_decode_indication_message J j)"
| "json_decode_choice J DAPP_CONTROL_ACTION j =
     map_option C_DAppControlAction (json_decode_dapp_control_action J j)"
| "json_decode_choice J DAPP_REPORT j = map_option C_DAppReport (json_decode_dapp_report J j)"
| "json_decode_choice J XAPP_CONTROL_ACTION j =
     map_option C_XAppControlAction (json_decode_xapp_control_action J j)"
| "json_decode_choice J RELEASE_MESSAGE j = map_option C_ReleaseMessage (json_decode_release_message J j)"
| "json_decode_choice J MESSAGE_ACK j = map_option C_MessageAck (json_decode_message_ack J j)"

text \<open>The inner option is the early return for a missing data member, the outer one an exception.\<close>

definition json_decode_root :: "'j json_ops \<Rightarrow> string \<Rightarrow> Pdu option option" where
  "json_decode_root J json_str = do {
     root \<leftarrow> j_parse J json_str;
     ts \<leftarrow> j_value_string J root ''pdu_type'' [];
     i \<leftarrow> j_value_u32 J root ''message_id'' 0;
     tm \<leftarrow> j_value_u64 J root ''timestamp'' 0;
     (if \<not> j_contains J root ''data'' then Some None
      else do {
        ch \<leftarrow> json_decode_choice J (string_to_pdu_type ts) (j_at J root ''data'');
        Some (Some \<lparr>pdu_type = string_to_pdu_type ts, pdu_choice = ch, pdu_message_id = i,
                     pdu_timestamp = tm\<rparr>) }) }"

definition json_decode :: "'j json_ops \<Rightarrow> bytes \<Rightarrow> Pdu result" where
  "json_decode J data =
     (if data = [] then Inl DECODE_FAILED
      else case json_decode_root J (map (\<lambda>b. char_of (unat b)) data) of
             Some (Some pdu) \<Rightarrow> Inr pdu
           | _ \<Rightarrow> Inl DECODE_FAILED)"

definition JsonE3Encoder :: "'j json_ops \<Rightarrow> encoder_ops" where
  "JsonE3Encoder J = \<lparr>enc_encode = json_encode J, enc_decode = json_decode J, enc_format = JSON\<rparr>"

section \<open>Laws of the JSON library\<close>

locale json_library =
  fixes J :: "'j json_ops"
  assumes null_obj: "j_is_obj J (j_null J)" and null_contains: "\<not> j_contains J (j_null J) k"
    and set_obj: "j_is_obj J j \<Longrightarrow> j_is_obj J (j_set J j k v)"
    and set_contains: "j_is_obj J j \<Longrightarrow> j_contains J (j_set J j k v) k' \<longleftrightarrow> k' = k \<or> j_contains J j k'"
    and set_at: "j_is_obj J j \<Longrightarrow> k' = k \<or> j_contains J j k' \<Longrightarrow>
        j_at J (j_set J j k v) k' = (if k' = k then v else j_at J j k')"
    and value_string: "j_is_obj J j \<Longrightarrow> j_value_string J (j_set J j k v) k' ds =
        (if j_contains J (j_set J j k v) k' then j_get_string J (j_at J (j_set J j k v) k') else Some ds)"
    and value_u32: "j_is_obj J j \<Longrightarrow> j_value_u32 J (j_set J j k v) k' dn =
        (if j_contains J (j_set J j k v) k' then j_get_u32 J (j_at J (j_set J j k v) k') else Some dn)"
    and value_u64: "j_is_obj J j \<Longrightarrow> j_value_u64 J (j_set J j k v) k' dl =
        (if j_contains J (j_set J j k v) k' then j_get_u64 J (j_at J (j_set J j k v) k') else Some dl)"
    and value_u32s: "j_is_obj J j \<Longrightarrow> j_value_u32s J (j_set J j k v) k' dv =
        (if j_contains J (j_set J j k v) k' then j_get_u32s J (j_at J (j_set J j k v) k') else Some dv)"
    and get_string: "j_get_string J (j_of_string J s) = Some s"
    and get_u32: "j_get_u32 J (j_of_u32 J n) = Some n"
    and get_u64: "j_get_u64 J (j_of_u64 J l) = Some l"
    and get_u32s: "j_get_u32s J (j_of_u32s J ns) = Some ns"
    and elems_array: "j_elems J (j_of_array J js) = js"
    and dump_nonempty: "j_dump J j \<noteq> Some []"
    and parse_dump: "j_dump J j = Some jtext \<Longrightarrow> j_parse J jtext = Some j"
begin

lemma object_snoc: "j_object J (kvs @ [(k, v)]) = j_set J (j_object J kvs) k v"
  by (simp add: j_object_def)

lemma object_obj: "j_is_obj J (j_object J kvs)"
proof (induction kvs rule: rev_induct)
  case Nil
  then show ?case by (simp add: j_object_def null_obj)
next
  case (snoc kv kvs)
  then show ?case by (cases kv) (simp add: object_snoc set_obj)
qed

lemma object_contains: "j_contains J (j_object J kvs) k \<longleftrightarrow> k \<in> fst ` set kvs"
proof (induction kvs rule: rev_induct)
  case Nil
  then show ?case by (simp add: j_object_def null_contains)
next
  case (snoc kv kvs)
  then show ?case by (cases kv) (simp add: object_snoc set_contains object_obj)
qed

lemma object_at: "k \<in> fst ` set kvs \<Longrightarrow> j_at J (j_object J kvs) k = the (map_of (rev kvs) k)"
proof (induction kvs rule: rev_induct)
  case Nil
  then show ?case by simp
next
  case (snoc kv kvs)
  then show ?case
    by (cases kv) (auto simp: object_snoc set_at object_obj object_contains)
qed

lemma object_values:
  assumes "kvs \<noteq> []"
  shows "j_value_string J (j_object J kvs) k ds =
      (case map_of (rev kvs) k of Some v \<Rightarrow> j_get_string J v | None \<Rightarrow> Some ds)"
    and "j_value_u32 J (j_object J kvs) k dn =
      (case map_of (rev kvs) k of Some v \<Rightarrow> j_get_u32 J v | None \<Rightarrow> Some dn)"
    and "j_value_u64 J (j_object J kvs) k dl =
      (case map_of (rev kvs) k of Some v \<Rightarrow> j_get_u64 J v | None \<Rightarrow> Some dl)"
    and "j_value_u32s J (j_object J kvs) k dv =
      (case map_of (rev kvs) k of Some v \<Rightarrow> j_get_u32s J v | None \<Rightarrow> Some dv)"
proof -
  obtain kvs' k0 v0 where kvs: "kvs = kvs' @ [(k0, v0)]"
    using assms by (metis rev_exhaust surj_pair)
  have obj: "j_object J kvs = j_set J (j_object J kvs') k0 v0" by (simp add: kvs object_snoc)
  have c: "j_contains J (j_object J kvs) k \<longleftrightarrow> map_of (rev kvs) k \<noteq> None"
    by (simp add: object_contains map_of_eq_None_iff)
  have a: "map_of (rev kvs) k = Some v \<Longrightarrow> j_at J (j_object J kvs) k = v" for v
    using object_at[of k kvs] c object_contains[of kvs k] by simp
  note laws = value_string value_u32 value_u64 value_u32s
  show "j_value_string J (j_object J kvs) k ds =
      (case map_of (rev kvs) k of Some v \<Rightarrow> j_get_string J v | None \<Rightarrow> Some ds)"
    using c a unfolding obj laws(1)[OF object_obj] by (auto split: option.split)
  show "j_value_u32 J (j_object J kvs) k dn =
      (case map_of (rev kvs) k of Some v \<Rightarrow> j_get_u32 J v | None \<Rightarrow> Some dn)"
    using c a unfolding obj laws(2)[OF object_obj] by (auto split: option.split)
  show "j_value_u64 J (j_object J kvs) k dl =
      (case map_of (rev kvs) k of Some v \<Rightarrow> j_get_u64 J v | None \<Rightarrow> Some dl)"
    using c a unfolding obj laws(3)[OF object_obj] by (auto split: option.split)
  show "j_value_u32s J (j_object J kvs) k dv =
      (case map_of (rev kvs) k of Some v \<Rightarrow> j_get_u32s J v | None \<Rightarrow> Some dv)"
    using c a unfolding obj laws(4)[OF object_obj] by (auto split: option.split)
qed

lemmas object_rules = object_values object_contains object_at get_string get_u32 get_u64 get_u32s elems_array

end

section \<open>The hexadecimal codec\<close>

lemma of_char_hex_digit: "a < 16 \<Longrightarrow> (of_char (hex_digit a) :: nat) = (if a < 10 then 48 + a else 87 + a)"
  by (simp add: hex_digit_def)

lemma hex_digit_facts:
  assumes "a < 16"
  shows "hex_value (hex_digit a) = Some a" "\<not> is_space (hex_digit a)"
    "hex_digit a \<noteq> CHR ''-''" "hex_digit a \<noteq> CHR ''+''"
proof -
  note d = of_char_hex_digit[OF assms]
  show "hex_value (hex_digit a) = Some a" "\<not> is_space (hex_digit a)"
    using assms by (auto simp: hex_value_def is_space_def Let_def d)
  have "(of_char (hex_digit a) :: nat) \<noteq> 45" "(of_char (hex_digit a) :: nat) \<noteq> 43"
    using assms by (auto simp: d)
  then show "hex_digit a \<noteq> CHR ''-''" "hex_digit a \<noteq> CHR ''+''" by auto
qed

lemma stoi16_digits:
  assumes "a < 16" and "b < 16"
  shows "stoi16 [hex_digit a, hex_digit b] = Some (int (16 * a + b))"
  using hex_digit_facts[OF assms(1)] hex_digit_facts[OF assms(2)] assms
  by (simp add: stoi16_def Let_def)

lemma hex_roundtrip: "hex_to_binary (binary_to_hex bs) = Some bs"
proof (induction bs)
  case Nil
  then show ?case by (simp add: binary_to_hex_def)
next
  case (Cons b bs)
  have "unat b < 256" using unsigned_less[of b] by simp
  then have "unat b div 16 < 16" "unat b mod 16 < 16" by auto
  from stoi16_digits[OF this] have "stoi16 [hex_digit (unat b div 16), hex_digit (unat b mod 16)] = Some (int (unat b))"
    by simp
  moreover have "binary_to_hex (b # bs)
      = hex_digit (unat b div 16) # hex_digit (unat b mod 16) # binary_to_hex bs"
    by (simp add: binary_to_hex_def)
  ultimately show ?case using Cons by simp
qed

lemma response_code_roundtrip [simp]: "response_code_of_text (response_code_text c) = c"
  by (cases c) (simp_all add: response_code_of_text_def response_code_text_def)

lemma pdu_type_roundtrip [simp]: "string_to_pdu_type (pdu_type_to_string t) = t"
  by (cases t) (simp_all add: string_to_pdu_type_def)

section \<open>Round trips of the message contents\<close>

lemma opt_map_map: "(\<And>x. f (g x) = Some x) \<Longrightarrow> opt_map f (map g xs) = Some xs"
  by (induction xs) simp_all

definition json_wire :: "Pdu \<Rightarrow> Pdu" where
  "json_wire p = p\<lparr>pdu_choice := drop_periodicity (pdu_choice p)\<rparr>"

context json_library
begin

lemma ran_function_roundtrip: "json_decode_ran_function J (json_encode_ran_function J f) = Some f"
  by (simp add: json_decode_ran_function_def json_encode_ran_function_def object_rules hex_roundtrip)

lemma setup_response_roundtrip: "json_decode_setup_response J (json_encode_setup_response J r) = Some r"
proof -
  have fs: "opt_map (json_decode_ran_function J) (map (json_encode_ran_function J) fs) = Some fs" for fs
    by (rule opt_map_map) (rule ran_function_roundtrip)
  show ?thesis
    by (cases "sresp_e3ap_protocol_version r"; cases "sresp_dapp_identifier r";
        cases "sresp_ran_function_list r = []")
      (simp_all add: json_decode_setup_response_def json_encode_setup_response_def opt_entry_def
        opt_get_def object_rules fs)
qed

lemma subscription_request_roundtrip:
  "json_decode_subscription_request J (json_encode_subscription_request J r) = Some (r\<lparr>subreq_periodicity := None\<rparr>)"
  by (cases "subreq_subscription_time r")
    (simp_all add: json_decode_subscription_request_def json_encode_subscription_request_def
      opt_entry_def opt_get_def object_rules)

lemma subscription_response_roundtrip:
  "json_decode_subscription_response J (json_encode_subscription_response J r) = Some r"
  by (cases "subresp_subscription_id r")
    (simp_all add: json_decode_subscription_response_def json_encode_subscription_response_def
      opt_entry_def opt_get_def object_rules)

lemma setup_request_roundtrip: "json_decode_setup_request J (json_encode_setup_request J r) = Some r"
  by (simp add: json_decode_setup_request_def json_encode_setup_request_def object_rules)

lemma subscription_delete_roundtrip:
  "json_decode_subscription_delete J (json_encode_subscription_delete J d) = Some d"
  by (simp add: json_decode_subscription_delete_def json_encode_subscription_delete_def object_rules)

lemma indication_roundtrip: "json_decode_indication_message J (json_encode_indication_message J m) = Some m"
  by (simp add: json_decode_indication_message_def json_encode_indication_message_def object_rules
      hex_roundtrip)

lemma control_roundtrip: "json_decode_dapp_control_action J (json_encode_dapp_control_action J a) = Some a"
  by (simp add: json_decode_dapp_control_action_def json_encode_dapp_control_action_def object_rules
      hex_roundtrip)

lemma report_roundtrip: "json_decode_dapp_report J (json_encode_dapp_report J r) = Some r"
  by (simp add: json_decode_dapp_report_def json_encode_dapp_report_def object_rules hex_roundtrip)

lemma xapp_roundtrip: "json_decode_xapp_control_action J (json_encode_xapp_control_action J a) = Some a"
  by (simp add: json_decode_xapp_control_action_def json_encode_xapp_control_action_def object_rules
      hex_roundtrip)

lemma ack_roundtrip: "json_decode_message_ack J (json_encode_message_ack J a) = Some a"
  by (simp add: json_decode_message_ack_def json_encode_message_ack_def object_rules)

lemma release_roundtrip: "json_decode_release_message J (json_encode_release_message J m) = Some m"
  by (simp add: json_decode_release_message_def json_encode_release_message_def object_rules)

lemma choice_roundtrip:
  "json_decode_choice J (choice_type ch) (json_encode_choice J ch) = Some (drop_periodicity ch)"
  by (cases ch)
    (simp_all add: setup_request_roundtrip setup_response_roundtrip subscription_request_roundtrip
      subscription_delete_roundtrip subscription_response_roundtrip indication_roundtrip
      control_roundtrip report_roundtrip xapp_roundtrip ack_roundtrip release_roundtrip)

lemma decode_encode:
  assumes "pdu_tagged p" and "json_encode J p = Inr m"
  shows "json_decode J (em_buffer m) = Inr (json_wire p)"
proof -
  let ?root = "j_object J
            [(''pdu_type'', j_of_string J (pdu_type_to_string (pdu_type p))),
             (''message_id'', j_of_u32 J (pdu_message_id p)),
             (''timestamp'', j_of_u64 J (pdu_timestamp p)),
             (''data'', json_encode_choice J (pdu_choice p))]"
  obtain jtext where jtext: "j_dump J ?root = Some jtext" "m = \<lparr>em_buffer = map of_char jtext, em_format = JSON\<rparr>"
    using assms(2) by (auto simp: json_encode_def Let_def split: option.splits)
  have ne: "jtext \<noteq> []" using jtext(1) dump_nonempty[of ?root] by auto
  have ch: "json_decode_choice J (pdu_type p) (json_encode_choice J (pdu_choice p))
      = Some (drop_periodicity (pdu_choice p))"
    using choice_roundtrip[of "pdu_choice p"] assms(1) by (simp add: pdu_tagged_def)
  have "json_decode_root J jtext = Some (Some (json_wire p))"
    using parse_dump[OF jtext(1)]
    by (simp add: json_decode_root_def object_rules ch json_wire_def)
  then show ?thesis using ne jtext(2) by (simp add: json_decode_def del: map_map)
qed

end

sublocale json_library \<subseteq> enc: encoder_contract "JsonE3Encoder J" json_wire
  by unfold_locales (simp_all add: JsonE3Encoder_def decode_encode json_wire_def)

section \<open>An instance of the laws\<close>

text \<open>JSON values as a tree; the text of a value is a numbering of the values, which is enough for
  the laws.\<close>

datatype jval = JNull | JStr string | JNat nat | JArr "jval list" | JObj "(string \<times> jval) list"

instance jval :: countable
  by countable_datatype

fun jval_entries :: "jval \<Rightarrow> (string \<times> jval) list" where
  "jval_entries (JObj kvs) = kvs"
| "jval_entries _ = []"

fun jval_nat :: "jval \<Rightarrow> nat option" where
  "jval_nat (JNat n) = Some n"
| "jval_nat _ = None"

fun jval_string :: "jval \<Rightarrow> string option" where
  "jval_string (JStr s) = Some s"
| "jval_string _ = None"

fun jval_elems :: "jval \<Rightarrow> jval list" where
  "jval_elems (JArr js) = js"
| "jval_elems (JObj kvs) = map snd kvs"
| "jval_elems j = [j]"

fun jval_is_obj :: "jval \<Rightarrow> bool" where
  "jval_is_obj JNull \<longleftrightarrow> True"
| "jval_is_obj (JObj _) \<longleftrightarrow> True"
| "jval_is_obj _ \<longleftrightarrow> False"

definition jval_u32s :: "jval \<Rightarrow> u32 list option" where
  "jval_u32s j = map_option (map of_nat) (opt_map jval_nat (jval_elems j))"

definition jval_value :: "(jval \<Rightarrow> 'a option) \<Rightarrow> jval \<Rightarrow> string \<Rightarrow> 'a \<Rightarrow> 'a option" where
  "jval_value get j k d =
     (case j of JObj kvs \<Rightarrow> (case map_of kvs k of Some v \<Rightarrow> get v | None \<Rightarrow> Some d) | _ \<Rightarrow> None)"

definition jval_ops :: "jval json_ops" where
  "jval_ops = \<lparr>
     j_null = JNull, j_is_obj = jval_is_obj,
     j_of_string = JStr, j_of_u32 = (\<lambda>n. JNat (unat n)), j_of_u64 = (\<lambda>n. JNat (unat n)),
     j_of_u32s = (\<lambda>ns. JArr (map (\<lambda>n. JNat (unat n)) ns)), j_of_array = JArr,
     j_set = (\<lambda>j k v. JObj ((k, v) # jval_entries j)),
     j_contains = (\<lambda>j k. map_of (jval_entries j) k \<noteq> None),
     j_at = (\<lambda>j k. case map_of (jval_entries j) k of Some v \<Rightarrow> v | None \<Rightarrow> JNull),
     j_get_string = jval_string,
     j_get_u32 = (\<lambda>j. map_option of_nat (jval_nat j)), j_get_u64 = (\<lambda>j. map_option of_nat (jval_nat j)),
     j_get_u32s = jval_u32s,
     j_value_string = jval_value jval_string,
     j_value_u32 = jval_value (\<lambda>j. map_option of_nat (jval_nat j)),
     j_value_u64 = jval_value (\<lambda>j. map_option of_nat (jval_nat j)),
     j_value_u32s = jval_value jval_u32s,
     j_elems = jval_elems,
     j_dump = (\<lambda>j. Some (replicate (Suc (to_nat j)) CHR ''j'')),
     j_parse = (\<lambda>s. Some (from_nat (length s - 1)))\<rparr>"

lemma opt_map_nats: "opt_map jval_nat (map (\<lambda>n. JNat (unat n)) ns) = Some (map unat ns)"
  by (induction ns) simp_all

interpretation jval: json_library jval_ops
  by unfold_locales
    (auto simp: jval_ops_def jval_value_def jval_u32s_def opt_map_nats comp_def split: option.split if_splits)

section \<open>Properties\<close>

text \<open>
  C11: whatever the JSON library does within its laws, a PDU whose type tag fits its content and that
  the encoder accepts is decoded to the same PDU with the same type, message id, time stamp and
  content, except that the periodicity of a subscription request is lost.
\<close>

theorem json_roundtrip:
  assumes "json_library J" and "pdu_tagged p" and "json_encode J p = Inr m"
  shows "json_decode J (em_buffer m) = Inr (p\<lparr>pdu_choice := drop_periodicity (pdu_choice p)\<rparr>)
    \<and> em_format m = JSON"
  using json_library.decode_encode[OF assms] assms(3)
  by (auto simp: json_wire_def json_encode_def Let_def split: option.splits)

theorem json_roundtrip_witness:
  "\<exists>m. json_encode jval_ops (pdu_of 5 17 MESSAGE_ACK (C_MessageAck \<lparr>ack_request_id = 3, ack_response_code = POSITIVE\<rparr>)) = Inr m
    \<and> json_decode jval_ops (em_buffer m)
      = Inr (pdu_of 5 17 MESSAGE_ACK (C_MessageAck \<lparr>ack_request_id = 3, ack_response_code = POSITIVE\<rparr>))"
proof -
  let ?p = "pdu_of 5 17 MESSAGE_ACK (C_MessageAck \<lparr>ack_request_id = 3, ack_response_code = POSITIVE\<rparr>)"
  obtain m where m: "json_encode jval_ops ?p = Inr m"
    by (simp add: json_encode_def jval_ops_def Let_def)
  have "pdu_tagged ?p" by simp
  from json_roundtrip[OF jval.json_library_axioms this m] m show ?thesis by (auto simp: pdu_of_def new_Pdu_def)
qed

text \<open>
  Binary data survives its hexadecimal form; a string with an odd number of characters loses its
  last one, and a pair without a leading digit makes the conversion fail.
\<close>

lemma hex_codec:
  "hex_to_binary (binary_to_hex bs) = Some bs
   \<and> length (binary_to_hex bs) = 2 * length bs
   \<and> hex_to_binary (binary_to_hex bs @ [c]) = Some bs
   \<and> hex_to_binary (CHR ''z'' # c # cs) = None"
proof -
  have "hex_to_binary (binary_to_hex bs @ [c]) = hex_to_binary (binary_to_hex bs)"
    by (induction bs) (simp_all add: binary_to_hex_def)
  moreover have "length (binary_to_hex bs) = 2 * length bs"
    by (induction bs) (simp_all add: binary_to_hex_def)
  moreover have "stoi16 [CHR ''z'', c] = None"
    by (simp add: stoi16_def is_space_def hex_value_def)
  ultimately show ?thesis using hex_roundtrip[of bs] by simp
qed

text \<open>
  C32: the decoder returns a PDU or DECODE_FAILED, never another error, and an unknown or
  missing type name is taken for a setup request: a message of another type is never refused for
  its type.
\<close>

theorem json_decode_outcomes:
  "(json_decode J data = Inl DECODE_FAILED \<or> (\<exists>p. json_decode J data = Inr p \<and> pdu_tagged p))
    \<and> json_decode J [] = Inl DECODE_FAILED
    \<and> ((\<exists>t. s = pdu_type_to_string t \<and> string_to_pdu_type s = t) \<or> string_to_pdu_type s = SETUP_REQUEST)"
proof -
  have tag: "pdu_tagged p" if "json_decode_root J jtext = Some (Some p)" for jtext p
  proof -
    have "choice_type ch = t" if "json_decode_choice J t j = Some ch" for t j ch
      using that by (cases t) auto
    then show ?thesis using that
      by (auto simp: json_decode_root_def pdu_tagged_def Let_def split: if_splits Option.bind_splits)
  qed
  have "string_to_pdu_type s = SETUP_REQUEST" if "\<And>t. s \<noteq> pdu_type_to_string t"
    using that[of SETUP_RESPONSE] that[of SUBSCRIPTION_REQUEST] that[of SUBSCRIPTION_DELETE]
      that[of SUBSCRIPTION_RESPONSE] that[of INDICATION_MESSAGE] that[of DAPP_CONTROL_ACTION]
      that[of DAPP_REPORT] that[of XAPP_CONTROL_ACTION] that[of RELEASE_MESSAGE] that[of MESSAGE_ACK]
    by (simp add: string_to_pdu_type_def)
  moreover have "json_decode J data = Inl DECODE_FAILED \<or> (\<exists>p. json_decode J data = Inr p \<and> pdu_tagged p)"
    using tag by (cases "data = []") (auto simp: json_decode_def split: option.splits)
  ultimately show ?thesis by (fastforce simp: json_decode_def)
qed

end
