(* ===== verification/Asn1_Encoder.thy ===== *)
theory Asn1_Encoder
  imports E3_Encoder
begin

text \<open>
  The ASN.1 encoder of \<^verbatim>\<open>src/encoder/asn1_encoder.cpp\<close>: the conversions between PDUs and the structures
  that asn1c generates from \<^verbatim>\<open>messages/asn1/V1/e3ap-1.0.0.asn1\<close>, and the calls of the APER codec. The
  generated structures are records here, an \<^verbatim>\<open>INTEGER\<close> member being the C type \<^verbatim>\<open>long\<close> (an integer)
  and an \<^verbatim>\<open>OCTET STRING\<close> a byte list. The generated codec itself is not part of the repository: it is a
  parameter \<open>aper_ops\<close>, with its laws in the locales \<open>aper_codec\<close> and \<open>aper_ranges\<close>. Allocation is taken
  to succeed. A subscription response has two optional lists of identifiers which the encoder leaves
  out and the decoder does not look at.
\<close>

section \<open>Generated structures\<close>

record E3_SetupRequest =
  as_e3apProtocolVersion :: bytes
  as_dAppName :: bytes
  as_dAppVersion :: bytes
  as_vendor :: bytes

record E3_RanFunctionDefinition =
  af_ranFunctionIdentifier :: int
  af_telemetryIdentifierList :: "int list"
  af_controlIdentifierList :: "int list"
  af_ranFunctionData :: bytes

record E3_SetupResponse =
  ap_requestId :: int
  ap_responseCode :: int
  ap_ranIdentifier :: bytes
  ap_e3apProtocolVersion :: "bytes option"
  ap_dAppIdentifier :: "int option"
  ap_ranFunctionList :: "E3_RanFunctionDefinition list option"

record E3_SubscriptionRequest =
  aq_dAppIdentifier :: int
  aq_ranFunctionIdentifier :: int
  aq_telemetryIdentifierList :: "int list"
  aq_controlIdentifierList :: "int list"
  aq_subscriptionTime :: "int option"
  aq_periodicity :: "int option"

record E3_SubscriptionDelete =
  ad_dAppIdentifier :: int
  ad_subscriptionId :: int

record E3_SubscriptionResponse =
  ar_requestId :: int
  ar_dAppIdentifier :: int
  ar_responseCode :: int
  ar_subscriptionId :: "int option"
  ar_telemetryIdentifierList :: "int list option"
  ar_controlIdentifierList :: "int list option"

text \<open>Indication, report and xApp control share their shape: a dApp, a RAN function and a payload.\<close>

record E3_Payload =
  ay_dAppIdentifier :: int
  ay_ranFunctionIdentifier :: int
  ay_data :: bytes

record E3_DAppControlAction =
  ac_dAppIdentifier :: int
  ac_ranFunctionIdentifier :: int
  ac_controlIdentifier :: int
  ac_actionData :: bytes

record E3_MessageAck =
  ak_requestId :: int
  ak_responseCode :: int

datatype E3_msg =
    A_NOTHING
  | A_setupRequest E3_SetupRequest
  | A_setupResponse E3_SetupResponse
  | A_subscriptionRequest E3_SubscriptionRequest
  | A_subscriptionDelete E3_SubscriptionDelete
  | A_subscriptionResponse E3_SubscriptionResponse
  | A_indicationMessage E3_Payload
  | A_dAppControlAction E3_DAppControlAction
  | A_dAppReport E3_Payload
  | A_xAppControlAction E3_Payload
  | A_releaseMessage int
  | A_messageAck E3_MessageAck

record E3_PDU =
  a_id :: int
  a_msg :: E3_msg

record aper_ops =
  aper_encode_to_buffer :: "E3_PDU \<Rightarrow> nat \<Rightarrow> (nat \<times> bytes) option"   \<comment> \<open>bits written and the buffer\<close>
  aper_decode :: "bytes \<Rightarrow> E3_PDU option"

section \<open>PDU to ASN.1\<close>

text \<open>\<^verbatim>\<open>OCTET_STRING_fromBuf\<close> of a string, and \<^verbatim>\<open>string::assign\<close> from an octet string.\<close>

definition octets_of_string :: "string \<Rightarrow> bytes" where
  "octets_of_string s = map of_char s"

definition string_of_octets :: "bytes \<Rightarrow> string" where
  "string_of_octets b = map (\<lambda>x. char_of (unat x)) b"

definition long_of :: "u32 \<Rightarrow> int" where "long_of x = uint x"

definition u32_of :: "int \<Rightarrow> u32" where "u32_of n = word_of_int n"

definition asn1_code :: "ResponseCode \<Rightarrow> int" where
  "asn1_code c = (if c = POSITIVE then 0 else 1)"

definition code_of_asn1 :: "int \<Rightarrow> ResponseCode" where
  "code_of_asn1 n = (if n = 0 then POSITIVE else NEGATIVE)"

definition ran_func_to_asn1 :: "RanFunctionDef \<Rightarrow> E3_RanFunctionDefinition" where
  "ran_func_to_asn1 f = \<lparr>
     af_ranFunctionIdentifier = long_of (rf_ran_function_identifier f),
     af_telemetryIdentifierList = map long_of (rf_telemetry_identifier_list f),
     af_controlIdentifierList = map long_of (rf_control_identifier_list f),
     af_ranFunctionData = rf_ran_function_data f\<rparr>"

text \<open>The body of each case of the switch in \<^verbatim>\<open>pdu_to_asn1\<close>, for the alternative it handles.\<close>

fun choice_to_asn1 :: "PduChoice \<Rightarrow> E3_msg" where
  "choice_to_asn1 (C_SetupRequest r) = (A_setupRequest \<lparr>
     as_e3apProtocolVersion = octets_of_string (sreq_e3ap_protocol_version r),
     as_dAppName = octets_of_string (sreq_dapp_name r),
     as_dAppVersion = octets_of_string (sreq_dapp_version r),
     as_vendor = octets_of_string (sreq_vendor r)\<rparr>)"
| "choice_to_asn1 (C_SetupResponse r) = (A_setupResponse \<lparr>
     ap_requestId = long_of (sresp_request_id r),
     ap_responseCode = asn1_code (sresp_response_code r),
     ap_ranIdentifier = octets_of_string (sresp_ran_identifier r),
     ap_e3apProtocolVersion = map_option octets_of_string (sresp_e3ap_protocol_version r),
     ap_dAppIdentifier = map_option long_of (sresp_dapp_identifier r),
     ap_ranFunctionList = (if sresp_ran_function_list r \<noteq> []
        then Some (map ran_func_to_asn1 (sresp_ran_function_list r)) else None)\<rparr>)"
| "choice_to_asn1 (C_SubscriptionRequest r) = (A_subscriptionRequest \<lparr>
     aq_dAppIdentifier = long_of (subreq_dapp_identifier r),
     aq_ranFunctionIdentifier = long_of (subreq_ran_function_identifier r),
     aq_telemetryIdentifierList = map long_of (subreq_telemetry_identifier_list r),
     aq_controlIdentifierList = map long_of (subreq_control_identifier_list r),
     aq_subscriptionTime = map_option long_of (subreq_subscription_time r),
     aq_periodicity = None\<rparr>)"
| "choice_to_asn1 (C_SubscriptionDelete d) = (A_subscriptionDelete \<lparr>
     ad_dAppIdentifier = long_of (subdel_dapp_identifier d),
     ad_subscriptionId = long_of (subdel_subscription_id d)\<rparr>)"
| "choice_to_asn1 (C_SubscriptionResponse r) = (A_subscriptionResponse \<lparr>
     ar_requestId = long_of (subresp_request_id r),
     ar_dAppIdentifier = long_of (subresp_dapp_identifier r),
     ar_responseCode = asn1_code (subresp_response_code r),
     ar_subscriptionId = map_option long_of (subresp_subscription_id r),
     ar_telemetryIdentifierList = None, ar_controlIdentifierList = None\<rparr>)"
| "choice_to_asn1 (C_IndicationMessage m) = (A_indicationMessage \<lparr>
     ay_dAppIdentifier = long_of (ind_dapp_identifier m),
     ay_ranFunctionIdentifier = long_of (ind_ran_function_identifier m),
     ay_data = ind_protocol_data m\<rparr>)"
| "choice_to_asn1 (C_DAppControlAction a) = (A_dAppControlAction \<lparr>
     ac_dAppIdentifier = long_of (dca_dapp_identifier a),
     ac_ranFunctionIdentifier = long_of (dca_ran_function_identifier a),
     ac_controlIdentifier = long_of (dca_control_identifier a),
     ac_actionData = dca_action_data a\<rparr>)"
| "choice_to_asn1 (C_DAppReport r) = (A_dAppReport \<lparr>
     ay_dAppIdentifier = long_of (rep_dapp_identifier r),
     ay_ranFunctionIdentifier = long_of (rep_ran_function_identifier r),
     ay_data = rep_report_data r\<rparr>)"
| "choice_to_asn1 (C_XAppControlAction a) = (A_xAppControlAction \<lparr>
     ay_dAppIdentifier = long_of (xca_dapp_identifier a),
     ay_ranFunctionIdentifier = long_of (xca_ran_function_identifier a),
     ay_data = xca_xapp_control_data a\<rparr>)"
| "choice_to_asn1 (C_MessageAck a) = (A_messageAck \<lparr>
     ak_requestId = long_of (ack_request_id a), ak_responseCode = asn1_code (ack_response_code a)\<rparr>)"
| "choice_to_asn1 (C_ReleaseMessage m) = (A_releaseMessage (long_of (rel_dapp_identifier m)))"

text \<open>The switch is on the type tag, and each case first asks the variant for its alternative: when it
  holds another one the result is a null pointer.\<close>

definition msg_to_asn1 :: "PduType \<Rightarrow> PduChoice \<Rightarrow> E3_msg option" where
  "msg_to_asn1 t ch = (if choice_type ch = t then Some (choice_to_asn1 ch) else None)"

definition pdu_to_asn1 :: "Pdu \<Rightarrow> E3_PDU option" where
  "pdu_to_asn1 p = map_option (\<lambda>m. \<lparr>a_id = long_of (pdu_message_id p), a_msg = m\<rparr>)
     (msg_to_asn1 (pdu_type p) (pdu_choice p))"

section \<open>ASN.1 to PDU\<close>

definition ran_func_of_asn1 :: "E3_RanFunctionDefinition \<Rightarrow> RanFunctionDef" where
  "ran_func_of_asn1 f = \<lparr>
     rf_ran_function_identifier = u32_of (af_ranFunctionIdentifier f),
     rf_telemetry_identifier_list = map u32_of (af_telemetryIdentifierList f),
     rf_control_identifier_list = map u32_of (af_controlIdentifierList f),
     rf_ran_function_data = af_ranFunctionData f\<rparr>"

text \<open>The type tag and the content that a case of the switch in \<^verbatim>\<open>asn1_to_pdu\<close> sets; nothing for the
  default branch.\<close>

fun msg_of_asn1 :: "E3_msg \<Rightarrow> (PduType \<times> PduChoice) option" where
  "msg_of_asn1 (A_setupRequest r) = Some (SETUP_REQUEST, C_SetupRequest \<lparr>
     sreq_e3ap_protocol_version = string_of_octets (as_e3apProtocolVersion r),
     sreq_dapp_name = string_of_octets (as_dAppName r),
     sreq_dapp_version = string_of_octets (as_dAppVersion r),
     sreq_vendor = string_of_octets (as_vendor r)\<rparr>)"
| "msg_of_asn1 (A_setupResponse r) = Some (SETUP_RESPONSE, C_SetupResponse \<lparr>
     sresp_request_id = u32_of (ap_requestId r),
     sresp_response_code = code_of_asn1 (ap_responseCode r),
     sresp_e3ap_protocol_version = map_option string_of_octets (ap_e3apProtocolVersion r),
     sresp_dapp_identifier = map_option u32_of (ap_dAppIdentifier r),
     sresp_ran_identifier = string_of_octets (ap_ranIdentifier r),
     sresp_ran_function_list = (case ap_ranFunctionList r of
        Some fs \<Rightarrow> map ran_func_of_asn1 fs | None \<Rightarrow> [])\<rparr>)"
| "msg_of_asn1 (A_subscriptionRequest r) = Some (SUBSCRIPTION_REQUEST, C_SubscriptionRequest \<lparr>
     subreq_dapp_identifier = u32_of (aq_dAppIdentifier r),
     subreq_ran_function_identifier = u32_of (aq_ranFunctionIdentifier r),
     subreq_telemetry_identifier_list = map u32_of (aq_telemetryIdentifierList r),
     subreq_control_identifier_list = map u32_of (aq_controlIdentifierList r),
     subreq_subscription_time = map_option u32_of (aq_subscriptionTime r),
     subreq_periodicity = None\<rparr>)"
| "msg_of_asn1 (A_subscriptionDelete d) = Some (SUBSCRIPTION_DELETE, C_SubscriptionDelete \<lparr>
     subdel_dapp_identifier = u32_of (ad_dAppIdentifier d),
     subdel_subscription_id = u32_of (ad_subscriptionId d)\<rparr>)"
| "msg_of_asn1 (A_subscriptionResponse r) = Some (SUBSCRIPTION_RESPONSE, C_SubscriptionResponse \<lparr>
     subresp_request_id = u32_of (ar_requestId r),
     subresp_dapp_identifier = u32_of (ar_dAppIdentifier r),
     subresp_response_code = code_of_asn1 (ar_responseCode r),
     subresp_subscription_id = map_option u32_of (ar_subscriptionId r)\<rparr>)"
| "msg_of_asn1 (A_indicationMessage m) = Some (INDICATION_MESSAGE, C_IndicationMessage \<lparr>
     ind_dapp_identifier = u32_of (ay_dAppIdentifier m),
     ind_ran_function_identifier = u32_of (ay_ranFunctionIdentifier m),
     ind_protocol_data = ay_data m\<rparr>)"
| "msg_of_asn1 (A_dAppControlAction a) = Some (DAPP_CONTROL_ACTION, C_DAppControlAction \<lparr>
     dca_dapp_identifier = u32_of (ac_dAppIdentifier a),
     dca_ran_function_identifier = u32_of (ac_ranFunctionIdentifier a),
     dca_control_identifier = u32_of (ac_controlIdentifier a),
     dca_action_data = ac_actionData a\<rparr>)"
| "msg_of_asn1 (A_dAppReport r) = Some (DAPP_REPORT, C_DAppReport \<lparr>
     rep_dapp_identifier = u32_of (ay_dAppIdentifier r),
     rep_ran_function_identifier = u32_of (ay_ranFunctionIdentifier r),
     rep_report_data = ay_data r\<rparr>)"
| "msg_of_asn1 (A_xAppControlAction a) = Some (XAPP_CONTROL_ACTION, C_XAppControlAction \<lparr>
     xca_dapp_identifier = u32_of (ay_dAppIdentifier a),
     xca_ran_function_identifier = u32_of (ay_ranFunctionIdentifier a),
     xca_xapp_control_data = ay_data a\<rparr>)"
| "msg_of_asn1 (A_messageAck a) = Some (MESSAGE_ACK, C_MessageAck \<lparr>
     ack_request_id = u32_of (ak_requestId a), ack_response_code = code_of_asn1 (ak_responseCode a)\<rparr>)"
| "msg_of_asn1 (A_releaseMessage d) = Some (RELEASE_MESSAGE, C_ReleaseMessage \<lparr>rel_dapp_identifier = u32_of d\<rparr>)"
| "msg_of_asn1 A_NOTHING = None"

definition asn1_to_pdu :: "u64 \<Rightarrow> E3_PDU \<Rightarrow> Pdu" where
  "asn1_to_pdu now a =
     (let pdu = (new_Pdu SETUP_REQUEST now)\<lparr>pdu_message_id := u32_of (a_id a)\<rparr>
      in case msg_of_asn1 (a_msg a) of
           Some (t, ch) \<Rightarrow> pdu\<lparr>pdu_type := t, pdu_choice := ch\<rparr>
         | None \<Rightarrow> pdu)"

section \<open>Encode and decode\<close>

definition ASN1_BUFFER_SIZE :: nat where "ASN1_BUFFER_SIZE = 65536"

definition asn1_encode :: "aper_ops \<Rightarrow> Pdu \<Rightarrow> EncodedMessage result" where
  "asn1_encode A pdu =
     (case pdu_to_asn1 pdu of
        None \<Rightarrow> Inl ENCODE_FAILED
      | Some a \<Rightarrow>
          (case aper_encode_to_buffer A a ASN1_BUFFER_SIZE of
             None \<Rightarrow> Inl ENCODE_FAILED
           | Some (encoded, buffer) \<Rightarrow>
               (let encoded_bytes = (encoded + 7) div 8
                in Inr \<lparr>em_buffer = take encoded_bytes buffer, em_format = ASN1\<rparr>)))"

definition asn1_decode :: "aper_ops \<Rightarrow> u64 \<Rightarrow> bytes \<Rightarrow> Pdu result" where
  "asn1_decode A now data =
     (if data = [] then Inl INVALID_PARAM
      else case aper_decode A data of
             None \<Rightarrow> Inl ENCODE_FAILED
           | Some a \<Rightarrow> Inr (asn1_to_pdu now a))"

definition Asn1E3Encoder :: "aper_ops \<Rightarrow> u64 \<Rightarrow> encoder_ops" where
  "Asn1E3Encoder A now =
     \<lparr>enc_encode = asn1_encode A, enc_decode = asn1_decode A now, enc_format = ASN1\<rparr>"

section \<open>Lemmas\<close>

lemma octets_roundtrip [simp]: "string_of_octets (octets_of_string s) = s"
  by (simp add: string_of_octets_def octets_of_string_def del: map_map)

lemma long_roundtrip [simp]: "u32_of (long_of x) = x"
  by (simp add: u32_of_def long_of_def)

lemma code_roundtrip [simp]: "code_of_asn1 (asn1_code c) = c"
  by (cases c) (simp_all add: code_of_asn1_def asn1_code_def)

lemma longs_roundtrip [simp]: "map (u32_of \<circ> long_of) xs = xs" "map_option (u32_of \<circ> long_of) x = x"
  "map_option (string_of_octets \<circ> octets_of_string) y = y"
  by (simp_all add: comp_def option.map_ident)

lemma ran_func_roundtrip [simp]: "ran_func_of_asn1 (ran_func_to_asn1 f) = f"
  by (simp add: ran_func_of_asn1_def ran_func_to_asn1_def)

lemma msg_roundtrip:
  "msg_to_asn1 (choice_type ch) ch = Some m \<Longrightarrow> msg_of_asn1 m = Some (choice_type ch, drop_periodicity ch)"
  by (cases ch) (auto simp: msg_to_asn1_def option.map_comp comp_def option.map_ident)

lemma msg_to_asn1_tagged: "msg_to_asn1 t ch = Some m \<Longrightarrow> choice_type ch = t"
  by (simp add: msg_to_asn1_def split: if_splits)

definition asn1_wire :: "u64 \<Rightarrow> Pdu \<Rightarrow> Pdu" where
  "asn1_wire now p = p\<lparr>pdu_choice := drop_periodicity (pdu_choice p), pdu_timestamp := now\<rparr>"

lemma asn1_to_pdu_roundtrip:
  assumes "pdu_to_asn1 p = Some a"
  shows "asn1_to_pdu now a = asn1_wire now p"
proof -
  obtain m where m: "msg_to_asn1 (pdu_type p) (pdu_choice p) = Some m"
      "a = \<lparr>a_id = long_of (pdu_message_id p), a_msg = m\<rparr>"
    using assms by (auto simp: pdu_to_asn1_def)
  have t: "choice_type (pdu_choice p) = pdu_type p" using msg_to_asn1_tagged[OF m(1)] .
  have "msg_of_asn1 m = Some (pdu_type p, drop_periodicity (pdu_choice p))"
    using msg_roundtrip[of "pdu_choice p" m] m(1) t by simp
  then show ?thesis
    using m(2) by (cases p) (simp add: asn1_to_pdu_def asn1_wire_def new_Pdu_def)
qed

text \<open>
  The laws of the generated codec: what it has encoded it decodes again, and, as the rules of PER
  have it, a constrained \<^verbatim>\<open>INTEGER\<close> outside its range has no encoding. Only the range of the dApp
  identifier of a setup response, \<^verbatim>\<open>E3-DAppID ::= INTEGER (1..100)\<close>, is needed.
\<close>

locale aper_codec =
  fixes A :: aper_ops
  assumes aper_roundtrip: "aper_encode_to_buffer A a n = Some (bits, buf) \<Longrightarrow>
      0 < bits \<and> length buf = n \<and> (bits + 7) div 8 \<le> n
      \<and> aper_decode A (take ((bits + 7) div 8) buf) = Some a"
begin

lemma encode_ok:
  assumes "asn1_encode A p = Inr m"
  obtains a where "pdu_to_asn1 p = Some a" and "em_buffer m \<noteq> []" and "aper_decode A (em_buffer m) = Some a"
proof -
  obtain a bits buf where a: "pdu_to_asn1 p = Some a"
      "aper_encode_to_buffer A a ASN1_BUFFER_SIZE = Some (bits, buf)"
      "m = \<lparr>em_buffer = take ((bits + 7) div 8) buf, em_format = ASN1\<rparr>"
    using assms by (auto simp: asn1_encode_def Let_def split: option.splits)
  note r = aper_roundtrip[OF a(2)]
  have "0 < (bits + 7) div 8" "0 < length buf" using r by auto
  then have "em_buffer m \<noteq> []" using a(3) by auto
  then show thesis using that a r by simp
qed

lemma decode_encode:
  assumes "asn1_encode A p = Inr m"
  shows "asn1_decode A now (em_buffer m) = Inr (asn1_wire now p)"
proof -
  obtain a where "pdu_to_asn1 p = Some a" "em_buffer m \<noteq> []" "aper_decode A (em_buffer m) = Some a"
    using encode_ok[OF assms] by blast
  then show ?thesis by (simp add: asn1_decode_def asn1_to_pdu_roundtrip)
qed

end

sublocale aper_codec \<subseteq> enc: encoder_contract "Asn1E3Encoder A now" "asn1_wire now" for now
  by unfold_locales (simp_all add: Asn1E3Encoder_def decode_encode asn1_wire_def)

locale aper_ranges = aper_codec +
  assumes dapp_range: "aper_encode_to_buffer A a n \<noteq> None \<Longrightarrow> a_msg a = A_setupResponse r \<Longrightarrow>
      ap_dAppIdentifier r = Some d \<Longrightarrow> 1 \<le> d \<and> d \<le> 100"
begin

lemma refusal_not_encoded:
  assumes "pdu_choice p = C_SetupResponse r" and "sresp_dapp_identifier r = Some 0"
  shows "asn1_encode A p = Inl ENCODE_FAILED"
proof (cases "pdu_to_asn1 p")
  case (Some a)
  then obtain r' where r': "a_msg a = A_setupResponse r'" "ap_dAppIdentifier r' = Some 0"
    using assms by (auto simp: pdu_to_asn1_def msg_to_asn1_def long_of_def split: if_splits)
  have "aper_encode_to_buffer A a ASN1_BUFFER_SIZE = None"
    using dapp_range[OF _ r', of ASN1_BUFFER_SIZE] by (auto simp del: not_None_eq)
  then show ?thesis using Some by (simp add: asn1_encode_def)
qed (simp add: asn1_encode_def)

end

section \<open>An instance of the laws\<close>

text \<open>A codec that knows an acknowledgement and the setup responses without text and RAN functions.\<close>

definition ack_pdu :: E3_PDU where
  "ack_pdu = \<lparr>a_id = 17, a_msg = A_messageAck \<lparr>ak_requestId = 3, ak_responseCode = 0\<rparr>\<rparr>"

definition short_response :: "u8 \<Rightarrow> u8 \<Rightarrow> u8 \<Rightarrow> u8 \<Rightarrow> E3_PDU" where
  "short_response i q c d = \<lparr>a_id = uint i, a_msg = A_setupResponse \<lparr>ap_requestId = uint q, ap_responseCode = uint c,
     ap_ranIdentifier = [], ap_e3apProtocolVersion = Some [], ap_dAppIdentifier = Some (uint d),
     ap_ranFunctionList = None\<rparr>\<rparr>"

definition short_octets :: "E3_PDU \<Rightarrow> (u8 \<times> u8 \<times> u8 \<times> u8) option" where
  "short_octets a =
     (case a_msg a of
        A_setupResponse r \<Rightarrow>
          (case ap_dAppIdentifier r of
             Some d \<Rightarrow>
               (let i = word_of_int (a_id a); q = word_of_int (ap_requestId r);
                    c = word_of_int (ap_responseCode r); d = word_of_int d
                in if a = short_response i q c d \<and> 1 \<le> d \<and> d \<le> 100 then Some (i, q, c, d) else None)
           | None \<Rightarrow> None)
      | _ \<Rightarrow> None)"

definition ack_aper :: aper_ops where
  "ack_aper = \<lparr>
     aper_encode_to_buffer = (\<lambda>a n.
       if a = ack_pdu \<and> 1 \<le> n then Some (6, 1 # replicate (n - 1) 0)
       else case short_octets a of
              Some (i, q, c, d) \<Rightarrow> if 4 \<le> n then Some (32, [i, q, c, d] @ replicate (n - 4) 0) else None
            | None \<Rightarrow> None),
     aper_decode = (\<lambda>data. case data of
         [x] \<Rightarrow> if x = 1 then Some ack_pdu else None
       | [i, q, c, d] \<Rightarrow> Some (short_response i q c d)
       | _ \<Rightarrow> None)\<rparr>"

lemma short_octets_SomeD: "short_octets a = Some (i, q, c, d) \<Longrightarrow> a = short_response i q c d \<and> 1 \<le> d \<and> d \<le> 100"
  by (auto simp: short_octets_def Let_def split: E3_msg.splits option.splits if_splits)

interpretation ack: aper_codec ack_aper
proof (unfold_locales, goal_cases)
  case (1 a n bits buf)
  show ?case
  proof (cases "a = ack_pdu \<and> 1 \<le> n")
    case True
    then show ?thesis using 1 by (auto simp: ack_aper_def)
  next
    case False
    then obtain i q c d where "short_octets a = Some (i, q, c, d)" "4 \<le> n" "bits = 32"
      "buf = [i, q, c, d] @ replicate (n - 4) 0"
      using 1 by (auto simp: ack_aper_def split: option.splits if_splits)
    then show ?thesis using short_octets_SomeD[of a i q c d] by (simp add: ack_aper_def)
  qed
qed

interpretation ack_ranges: aper_ranges ack_aper
proof (unfold_locales, goal_cases)
  case (1 a n r d)
  then obtain i q c x where "short_octets a = Some (i, q, c, x)"
    by (auto simp: ack_aper_def ack_pdu_def split: option.splits if_splits)
  then show ?case using short_octets_SomeD[of a i q c x] 1(2,3) by (auto simp: short_response_def word_le_def)
qed

section \<open>Properties\<close>

text \<open>
  C12: whatever the APER codec does within its laws, a PDU that the encoder accepts is decoded to the
  same type, message id and content, except that the periodicity is lost and the time stamp is the
  time of decoding. The encoder accepts only PDUs whose tag fits their content.
\<close>

theorem asn1_roundtrip:
  assumes "aper_codec A" and "asn1_encode A p = Inr m"
  shows "asn1_decode A now (em_buffer m)
      = Inr (p\<lparr>pdu_choice := drop_periodicity (pdu_choice p), pdu_timestamp := now\<rparr>)
    \<and> pdu_tagged p"
proof -
  obtain a where "pdu_to_asn1 p = Some a" using aper_codec.encode_ok[OF assms] by blast
  then have "pdu_tagged p" using msg_to_asn1_tagged by (auto simp: pdu_to_asn1_def pdu_tagged_def)
  then show ?thesis using aper_codec.decode_encode[OF assms] by (simp add: asn1_wire_def)
qed

theorem asn1_roundtrip_witness:
  "\<exists>m. asn1_encode ack_aper (pdu_of 5 17 MESSAGE_ACK (C_MessageAck \<lparr>ack_request_id = 3, ack_response_code = POSITIVE\<rparr>)) = Inr m
    \<and> asn1_decode ack_aper 9 (em_buffer m)
      = Inr (pdu_of 9 17 MESSAGE_ACK (C_MessageAck \<lparr>ack_request_id = 3, ack_response_code = POSITIVE\<rparr>))"
proof -
  let ?p = "pdu_of 5 17 MESSAGE_ACK (C_MessageAck \<lparr>ack_request_id = 3, ack_response_code = POSITIVE\<rparr>)"
  obtain m where m: "asn1_encode ack_aper ?p = Inr m"
    by (simp add: asn1_encode_def pdu_to_asn1_def msg_to_asn1_def ack_aper_def ack_pdu_def long_of_def
        asn1_code_def ASN1_BUFFER_SIZE_def Let_def)
  from asn1_roundtrip[OF ack.aper_codec_axioms m, of 9] m show ?thesis
    by (auto simp: pdu_of_def new_Pdu_def)
qed

end
