(* ===== verification/E3_Connector.thy ===== *)
theory E3_Connector
  imports E3_Types "HOL-Library.Monad_Syntax"
begin

text \<open>
  The transport interface, \<^verbatim>\<open>include/libe3/e3_connector.hpp\<close>: the virtual methods of
  \<^verbatim>\<open>E3Connector\<close> as a record of operations over a connector state, the contract the protocol
  layer relies on as a locale, and the file system calls both connectors make, as a record of
  parameters over the state of the operating system.

  An operation that can block for ever returns an option; None means that the call never returns.
  A \<^verbatim>\<open>std::vector<uint8_t>&\<close> parameter is an argument and a part of the result.
\<close>

section \<open>Operating system calls shared by the connectors\<close>

text \<open>\<^verbatim>\<open>EWOULDBLOCK\<close> is the same number as \<^verbatim>\<open>EAGAIN\<close> on the targets of the library.\<close>

datatype errno = EEXIST | EINTR | EAGAIN | OTHER_ERRNO int

record 'w fs_ops =
  fs_errno :: "'w \<Rightarrow> errno"
  fs_stat :: "string \<Rightarrow> 'w \<Rightarrow> int \<times> 'w"
  fs_mkdir :: "string \<Rightarrow> nat \<Rightarrow> 'w \<Rightarrow> int \<times> 'w"
  fs_chmod :: "string \<Rightarrow> nat \<Rightarrow> 'w \<Rightarrow> int \<times> 'w"
  fs_getgrnam :: "string \<Rightarrow> 'w \<Rightarrow> int option \<times> 'w"
  fs_chown_group :: "string \<Rightarrow> int \<Rightarrow> 'w \<Rightarrow> int \<times> 'w"
  fs_unlink :: "string \<Rightarrow> 'w \<Rightarrow> int \<times> 'w"
  fs_rmdir :: "string \<Rightarrow> 'w \<Rightarrow> int \<times> 'w"

definition IPC_BASE_DIR :: string where
  "IPC_BASE_DIR = ''/tmp/dapps''"

text \<open>\<^verbatim>\<open>s.c_str()\<close> as a C function reads it: up to the first NUL character.\<close>

definition c_str :: "string \<Rightarrow> string" where
  "c_str s = takeWhile (\<lambda>c. c \<noteq> CHR 0x00) s"

text \<open>\<^verbatim>\<open>vector::resize\<close>, and a call that writes into a buffer at an offset.\<close>

definition vec_resize :: "nat \<Rightarrow> bytes \<Rightarrow> bytes" where
  "vec_resize n xs = take n xs @ replicate (n - length xs) 0"

definition write_at :: "nat \<Rightarrow> bytes \<Rightarrow> bytes \<Rightarrow> bytes" where
  "write_at off bs buf = take off buf @ bs @ drop (off + length bs) buf"

lemma length_vec_resize [simp]: "length (vec_resize n xs) = n"
  by (simp add: vec_resize_def)

lemma vec_resize_prefix: "n \<le> length xs \<Longrightarrow> vec_resize n xs = take n xs"
  by (simp add: vec_resize_def)

lemma length_write_at [simp]:
  "off + length bs \<le> length buf \<Longrightarrow> length (write_at off bs buf) = length buf"
  by (simp add: write_at_def)

lemma take_write_at:
  "off \<le> length buf \<Longrightarrow> take (off + length bs) (write_at off bs buf) = take off buf @ bs"
  by (simp add: write_at_def min_def)

lemma write_at_0 [simp]: "take (length bs) (write_at 0 bs buf) = bs"
  by (simp add: write_at_def)

lemma take_drop_add: "take a (drop k xs) @ take b (drop (k + a) xs) = take (a + b) (drop k xs)"
  by (simp only: take_add drop_drop add.commute)

section \<open>The connector interface\<close>

record 'c connector_ops =
  conn_setup_initial_connection :: "'c \<Rightarrow> (ErrorCode \<times> 'c) option"
  conn_recv_setup_request :: "bytes \<Rightarrow> 'c \<Rightarrow> (int \<times> bytes \<times> 'c) option"
  conn_send_response :: "bytes \<Rightarrow> 'c \<Rightarrow> (ErrorCode \<times> 'c) option"
  conn_setup_inbound_connection :: "'c \<Rightarrow> (ErrorCode \<times> 'c) option"
  conn_receive :: "bytes \<Rightarrow> 'c \<Rightarrow> (int \<times> bytes \<times> 'c) option"
  conn_setup_outbound_connection :: "'c \<Rightarrow> (ErrorCode \<times> 'c) option"
  conn_send :: "bytes \<Rightarrow> 'c \<Rightarrow> (ErrorCode \<times> 'c) option"
  conn_dispose :: "'c \<Rightarrow> 'c option"
  conn_shutdown :: "'c \<Rightarrow> 'c"
  conn_link_layer :: "'c \<Rightarrow> E3LinkLayer"
  conn_transport_layer :: "'c \<Rightarrow> E3TransportLayer"
  conn_is_connected :: "'c \<Rightarrow> bool"

text \<open>
  What \<^verbatim>\<open>E3Interface\<close> relies on: a positive return value is the size of the buffer that was
  filled, a negative one is an error code of the connector, a successful initial set-up connects,
  and after \<^verbatim>\<open>dispose\<close> every transfer is refused and changes nothing.
\<close>

locale connector_contract =
  fixes C :: "'c connector_ops"
  assumes recv_setup_length:
      "conn_recv_setup_request C b c = Some (r, b', c') \<Longrightarrow> 0 < r \<Longrightarrow> length b' = nat r"
    and receive_length: "conn_receive C b c = Some (r, b', c') \<Longrightarrow> 0 < r \<Longrightarrow> length b' = nat r"
    and recv_setup_error:
      "conn_recv_setup_request C b c = Some (r, b', c') \<Longrightarrow> r < 0 \<Longrightarrow>
       error_code_of_int r \<in> {NOT_CONNECTED, TRANSPORT_ERROR}"
    and receive_error:
      "conn_receive C b c = Some (r, b', c') \<Longrightarrow> r < 0 \<Longrightarrow>
       error_code_of_int r \<in> {NOT_CONNECTED, TRANSPORT_ERROR}"
    and initial_connects:
      "conn_setup_initial_connection C c = Some (SUCCESS, c') \<Longrightarrow> conn_is_connected C c'"
    and disposed_not_connected: "conn_dispose C c = Some c' \<Longrightarrow> \<not> conn_is_connected C c'"
    and disposed_recv_setup:
      "conn_dispose C c = Some c' \<Longrightarrow>
       conn_recv_setup_request C b c' = Some (error_code_to_int NOT_CONNECTED, b, c')"
    and disposed_receive:
      "conn_dispose C c = Some c' \<Longrightarrow>
       conn_receive C b c' = Some (error_code_to_int NOT_CONNECTED, b, c')"
    and disposed_send_response:
      "conn_dispose C c = Some c' \<Longrightarrow> conn_send_response C d c' = Some (NOT_CONNECTED, c')"
    and disposed_send: "conn_dispose C c = Some c' \<Longrightarrow> conn_send C d c' = Some (NOT_CONNECTED, c')"
begin

text \<open>The loops of the interface hand \<^verbatim>\<open>ret\<close> bytes of the buffer to the decoder: all of it.\<close>

lemma recv_setup_whole:
  assumes "conn_recv_setup_request C b c = Some (r, b', c')" and "0 < r"
  shows "take (nat r) b' = b' \<and> b' \<noteq> []"
  using recv_setup_length[OF assms] assms(2) by auto

lemma receive_whole:
  assumes "conn_receive C b c = Some (r, b', c')" and "0 < r"
  shows "take (nat r) b' = b' \<and> b' \<noteq> []"
  using receive_length[OF assms] assms(2) by auto

lemma disposed_idle:
  assumes "conn_dispose C c = Some c'"
  shows "(\<forall>b r b' c''. conn_receive C b c' = Some (r, b', c'') \<longrightarrow> r < 0 \<and> c'' = c') \<and>
         (\<forall>b r b' c''. conn_recv_setup_request C b c' = Some (r, b', c'') \<longrightarrow> r < 0 \<and> c'' = c')"
  using disposed_receive[OF assms] disposed_recv_setup[OF assms] by auto

end

end
