(* ===== verification/Posix_Connector.thy ===== *)
theory Posix_Connector
  imports E3_Connector
begin

text \<open>
  \<^verbatim>\<open>src/connector/posix_connector.cpp\<close> and \<^verbatim>\<open>posix_connector.hpp\<close>: the connector over TCP, SCTP
  and Unix sockets. The system calls are the parameter \<open>posix_ops\<close>, functions over a state of the
  operating system; what they are documented to do is stated in the locales
  \<open>posix_sender\<close>, \<open>posix_receiver\<close> and \<open>posix_descriptors\<close>, and a small operating system in
  memory shows that the laws can hold.

  The flag \<^verbatim>\<open>shutdown_requested_\<close> is stored by another thread while a call of this connector
  waits. A load of it is \<open>shutdown_seen env c w\<close>: the flag is set already or, as the parameter
  \<open>env\<close> says, another thread has called \<^verbatim>\<open>shutdown\<close> by the time the system is in state \<open>w\<close>.
\<close>

section \<open>System calls\<close>

datatype socket_domain = AF_INET | AF_UNIX
datatype socket_protocol = IPPROTO_DEFAULT | IPPROTO_SCTP
datatype sockaddr = Sockaddr_in u16 | Sockaddr_un string

record 'w posix_ops = "'w fs_ops" +
  sys_socket :: "socket_domain \<Rightarrow> socket_protocol \<Rightarrow> 'w \<Rightarrow> int \<times> 'w"
  sys_bind :: "int \<Rightarrow> sockaddr \<Rightarrow> 'w \<Rightarrow> int \<times> 'w"
  sys_listen :: "int \<Rightarrow> nat \<Rightarrow> 'w \<Rightarrow> int \<times> 'w"
  sys_accept :: "int \<Rightarrow> 'w \<Rightarrow> (int \<times> 'w) option"
  sys_poll :: "int \<Rightarrow> nat \<Rightarrow> 'w \<Rightarrow> int \<times> 'w"
  sys_recv :: "int \<Rightarrow> nat \<Rightarrow> 'w \<Rightarrow> (int \<times> bytes \<times> 'w) option"
  sys_send :: "int \<Rightarrow> bytes \<Rightarrow> 'w \<Rightarrow> (int \<times> 'w) option"
  sys_shutdown :: "int \<Rightarrow> 'w \<Rightarrow> int \<times> 'w"
  sys_close :: "int \<Rightarrow> 'w \<Rightarrow> int \<times> 'w"

section \<open>State\<close>

record PosixE3Connector =
  pc_transport_layer :: E3TransportLayer
  pc_setup_endpoint :: string
  pc_inbound_endpoint :: string
  pc_outbound_endpoint :: string
  pc_setup_socket :: int
  pc_setup_connection_socket :: int
  pc_inbound_socket :: int
  pc_inbound_connection_socket :: int
  pc_outbound_socket :: int
  pc_outbound_connection_socket :: int
  pc_setup_port :: u16
  pc_inbound_port :: u16
  pc_outbound_port :: u16
  pc_connected :: bool
  pc_shutdown_requested :: bool

definition CHUNK_SIZE :: int where
  "CHUNK_SIZE = 8192"

definition UNUSED_SOCKET :: int where
  "UNUSED_SOCKET = -2"

definition POLL_TIMEOUT_MS :: nat where
  "POLL_TIMEOUT_MS = 500"

definition wait_for_socket :: "'w posix_ops \<Rightarrow> int \<Rightarrow> nat \<Rightarrow> 'w \<Rightarrow> int \<times> 'w" where
  "wait_for_socket S sockfd timeout_ms w = sys_poll S sockfd timeout_ms w"

text \<open>\<open>string_find\<close> is \<^verbatim>\<open>std::string::find\<close>, None for \<^verbatim>\<open>npos\<close>.\<close>

fun string_find :: "string \<Rightarrow> string \<Rightarrow> nat option" where
  "string_find p [] = (if p = [] then Some 0 else None)"
| "string_find p (c # cs) =
     (if take (length p) (c # cs) = p then Some 0 else map_option Suc (string_find p cs))"

definition strip_uri_prefix :: "string \<Rightarrow> string" where
  "strip_uri_prefix endpoint =
     (case string_find ''://'' endpoint of
        Some pos \<Rightarrow> drop (pos + 3) endpoint
      | None \<Rightarrow> endpoint)"

definition new_PosixE3Connector ::
    "E3TransportLayer \<Rightarrow> string \<Rightarrow> string \<Rightarrow> string \<Rightarrow> u16 \<Rightarrow> u16 \<Rightarrow> u16 \<Rightarrow> PosixE3Connector" where
  "new_PosixE3Connector transport setup_ep inbound_ep outbound_ep setup_pt inbound_pt outbound_pt =
     \<lparr> pc_transport_layer = transport,
       pc_setup_endpoint = strip_uri_prefix setup_ep,
       pc_inbound_endpoint = strip_uri_prefix inbound_ep,
       pc_outbound_endpoint = strip_uri_prefix outbound_ep,
       pc_setup_socket = -1, pc_setup_connection_socket = UNUSED_SOCKET,
       pc_inbound_socket = -1, pc_inbound_connection_socket = UNUSED_SOCKET,
       pc_outbound_socket = -1, pc_outbound_connection_socket = UNUSED_SOCKET,
       pc_setup_port = setup_pt, pc_inbound_port = inbound_pt, pc_outbound_port = outbound_pt,
       pc_connected = False, pc_shutdown_requested = False \<rparr>"

section \<open>Transfers with a length prefix\<close>

text \<open>The bytes of \<^verbatim>\<open>htonl(n)\<close> in memory, and \<^verbatim>\<open>ntohl\<close> of four such bytes.\<close>

definition htonl_bytes :: "u32 \<Rightarrow> bytes" where
  "htonl_bytes n = [ucast (drop_bit 24 n), ucast (drop_bit 16 n), ucast (drop_bit 8 n), ucast n]"

definition ntohl_bytes :: "bytes \<Rightarrow> u32" where
  "ntohl_bytes bs =
     push_bit 24 (ucast (bs ! 0)) OR push_bit 16 (ucast (bs ! 1)) OR
     push_bit 8 (ucast (bs ! 2)) OR ucast (bs ! 3)"

text \<open>
  The loops of \<^verbatim>\<open>send_in_chunks\<close>: the inner one sends one chunk, the outer one all chunks. The
  first component of a result is None for the early \<^verbatim>\<open>return -1\<close>. The counters are bounded by the
  size of a vector in memory, so they cannot overflow; the length prefix is cut to 32 bits.
\<close>

partial_function (option) send_chunk_loop ::
    "'w posix_ops \<Rightarrow> int \<Rightarrow> bytes \<Rightarrow> int \<Rightarrow> int \<Rightarrow> 'w \<Rightarrow> (int option \<times> 'w) option" where
  "send_chunk_loop S sockfd buffer bytes_to_send chunk_sent w =
     (if chunk_sent < bytes_to_send then
        Option.bind
          (sys_send S sockfd (take (nat (bytes_to_send - chunk_sent)) (drop (nat chunk_sent) buffer)) w)
          (\<lambda>rw. if fst rw = -1 then Some (None, snd rw)
                else send_chunk_loop S sockfd buffer bytes_to_send (chunk_sent + fst rw) (snd rw))
      else Some (Some chunk_sent, w))"

partial_function (option) send_loop ::
    "'w posix_ops \<Rightarrow> int \<Rightarrow> bytes \<Rightarrow> nat \<Rightarrow> 'w \<Rightarrow> (int \<times> 'w) option" where
  "send_loop S sockfd buffer total_sent w =
     (if total_sent < length buffer then
        Option.bind
          (send_chunk_loop S sockfd (drop total_sent buffer)
             (min CHUNK_SIZE (int (length buffer - total_sent))) 0 w)
          (\<lambda>rw. case fst rw of
                  None \<Rightarrow> Some (-1, snd rw)
                | Some chunk_sent \<Rightarrow>
                    send_loop S sockfd buffer (total_sent + nat chunk_sent) (snd rw))
      else Some (0, w))"

definition send_in_chunks :: "'w posix_ops \<Rightarrow> int \<Rightarrow> bytes \<Rightarrow> 'w \<Rightarrow> (int \<times> 'w) option" where
  "send_in_chunks S sockfd buffer w =
     do { (sent, w) \<leftarrow> sys_send S sockfd (htonl_bytes (of_nat (length buffer))) w;
          if sent \<noteq> 4 then Some (-1, w) else send_loop S sockfd buffer 0 w }"

text \<open>The loops of \<^verbatim>\<open>recv_with_size\<close>: the four bytes of the prefix, then the payload.\<close>

partial_function (option) recv_header_loop ::
    "'w posix_ops \<Rightarrow> int \<Rightarrow> bytes \<Rightarrow> nat \<Rightarrow> 'w \<Rightarrow> ((int + bytes) \<times> 'w) option" where
  "recv_header_loop S sockfd network_order_size header_received w =
     (if header_received < 4 then
        Option.bind (sys_recv S sockfd (4 - header_received) w)
          (\<lambda>rw. if fst rw \<le> 0 then
                  Some (Inl (if fst rw = 0 then 0 else error_code_to_int TRANSPORT_ERROR),
                        snd (snd rw))
                else recv_header_loop S sockfd
                       (write_at header_received (fst (snd rw)) network_order_size)
                       (header_received + nat (fst rw)) (snd (snd rw)))
      else Some (Inr network_order_size, w))"

partial_function (option) recv_payload_loop ::
    "'w posix_ops \<Rightarrow> int \<Rightarrow> nat \<Rightarrow> bytes \<Rightarrow> nat \<Rightarrow> 'w \<Rightarrow> (int \<times> bytes \<times> 'w) option" where
  "recv_payload_loop S sockfd payload_size buffer total_received w =
     (if total_received < payload_size then
        Option.bind
          (sys_recv S sockfd (min (nat CHUNK_SIZE) (payload_size - total_received)) w)
          (\<lambda>rw. if fst rw \<le> 0 then
                  Some (error_code_to_int TRANSPORT_ERROR,
                        write_at total_received (fst (snd rw)) buffer, snd (snd rw))
                else recv_payload_loop S sockfd payload_size
                       (write_at total_received (fst (snd rw)) buffer)
                       (total_received + nat (fst rw)) (snd (snd rw)))
      else Some (int payload_size, buffer, w))"

text \<open>
  The counterpart of \<^verbatim>\<open>send_in_chunks\<close>, as a dApp needs it: no function of the repository calls it, and
  \<^verbatim>\<open>receive\<close> reads with one plain \<^verbatim>\<open>recv\<close>.
\<close>

definition recv_with_size ::
    "'w posix_ops \<Rightarrow> int \<Rightarrow> bytes \<Rightarrow> 'w \<Rightarrow> (int \<times> bytes \<times> 'w) option" where
  "recv_with_size S sockfd buffer w =
     do { (h, w) \<leftarrow> recv_header_loop S sockfd [0, 0, 0, 0] 0 w;
          case h of
            Inl ret \<Rightarrow> Some (ret, buffer, w)
          | Inr network_order_size \<Rightarrow>
              let payload_size = unat (ntohl_bytes network_order_size) in
              if payload_size = 0 \<or> payload_size > MAX_PROTOCOL_DATA_SIZE * 2
              then Some (error_code_to_int TRANSPORT_ERROR, buffer, w)
              else recv_payload_loop S sockfd payload_size (vec_resize payload_size buffer) 0 w }"

section \<open>Set-up and transfer operations\<close>

definition shutdown_seen :: "('w \<Rightarrow> bool) \<Rightarrow> PosixE3Connector \<Rightarrow> 'w \<Rightarrow> bool" where
  "shutdown_seen env c w \<longleftrightarrow> pc_shutdown_requested c \<or> env w"

definition sync_shutdown :: "('w \<Rightarrow> bool) \<Rightarrow> 'w \<Rightarrow> PosixE3Connector \<Rightarrow> PosixE3Connector" where
  "sync_shutdown env w c = c\<lparr> pc_shutdown_requested := shutdown_seen env c w \<rparr>"

text \<open>
  The block that creates \<^verbatim>\<open>/tmp/dapps\<close> and the block that opens, binds and listens stand in the
  code three times, once per set-up method; they differ in the port and the endpoint.
\<close>

definition ensure_ipc_dir :: "'w posix_ops \<Rightarrow> E3TransportLayer \<Rightarrow> 'w \<Rightarrow> bool \<times> 'w" where
  "ensure_ipc_dir S transport w =
     (if transport = IPC then
        let (st, w) = fs_stat S IPC_BASE_DIR w;
            (failed, w) =
              (if st = -1 then
                 let (md, w) = fs_mkdir S IPC_BASE_DIR 511 w
                 in (md = -1 \<and> fs_errno S w \<noteq> EEXIST, w)
               else (False, w))
        in if failed then (False, w)
           else (True, snd (fs_chmod S IPC_BASE_DIR 511 w))
      else (True, w))"

definition sun_path :: "string \<Rightarrow> string" where
  "sun_path endpoint = take 107 (c_str endpoint)"

definition open_and_bind ::
    "'w posix_ops \<Rightarrow> E3TransportLayer \<Rightarrow> u16 \<Rightarrow> string \<Rightarrow> 'w \<Rightarrow> int \<times> int \<times> 'w" where
  "open_and_bind S transport port endpoint w =
     (if transport = SCTP then
        let (sock, w) = sys_socket S AF_INET IPPROTO_SCTP w;
            (ret, w) = sys_bind S sock (Sockaddr_in port) w
        in (sock, ret, w)
      else if transport = TCP then
        let (sock, w) = sys_socket S AF_INET IPPROTO_DEFAULT w;
            (ret, w) = sys_bind S sock (Sockaddr_in port) w
        in (sock, ret, w)
      else
        let (sock, w) = sys_socket S AF_UNIX IPPROTO_DEFAULT w;
            w = snd (fs_unlink S (c_str endpoint) w);
            (ret, w) = sys_bind S sock (Sockaddr_un (sun_path endpoint)) w
        in (sock, ret, w))"

definition open_listener ::
    "'w posix_ops \<Rightarrow> E3TransportLayer \<Rightarrow> u16 \<Rightarrow> string \<Rightarrow> 'w \<Rightarrow> int option \<times> 'w" where
  "open_listener S transport port endpoint w =
     (let (dir_ok, w) = ensure_ipc_dir S transport w
      in if \<not> dir_ok then (None, w)
         else
           let (sock, ret, w) = open_and_bind S transport port endpoint w
           in if sock < 0 then (None, w)
              else if ret < 0 then (None, snd (sys_close S sock w))
              else
                let (ret, w) = sys_listen S sock 5 w
                in if ret < 0 then (None, snd (sys_close S sock w)) else (Some sock, w))"

type_synonym 'w posix_state = "PosixE3Connector \<times> 'w"

definition Posix_setup_initial_connection ::
    "'w posix_ops \<Rightarrow> 'w posix_state \<Rightarrow> ErrorCode \<times> 'w posix_state" where
  "Posix_setup_initial_connection S cw =
     (let (c, w) = cw;
          (l, w) = open_listener S (pc_transport_layer c) (pc_setup_port c) (pc_setup_endpoint c) w
      in case l of
           None \<Rightarrow> (CONNECTION_FAILED, c, w)
         | Some sock \<Rightarrow> (SUCCESS, c\<lparr> pc_setup_socket := sock, pc_connected := True \<rparr>, w))"

definition Posix_recv_setup_request ::
    "'w posix_ops \<Rightarrow> ('w \<Rightarrow> bool) \<Rightarrow> bytes \<Rightarrow> 'w posix_state \<Rightarrow>
     (int \<times> bytes \<times> 'w posix_state) option" where
  "Posix_recv_setup_request S env buffer cw =
     (let (c, w) = cw in
      if pc_setup_socket c < 0 then Some (error_code_to_int NOT_CONNECTED, buffer, c, w)
      else
        let (poll_ret, w) = wait_for_socket S (pc_setup_socket c) POLL_TIMEOUT_MS w in
        if poll_ret = 0 then Some (0, buffer, c, w)
        else if poll_ret < 0 then
          if fs_errno S w = EINTR then Some (0, buffer, c, w)
          else Some (error_code_to_int TRANSPORT_ERROR, buffer, c, w)
        else
          do { (sock, w) \<leftarrow> sys_accept S (pc_setup_socket c) w;
               let c = c\<lparr> pc_setup_connection_socket := sock \<rparr>;
               if sock < 0 then
                 if fs_errno S w = EINTR \<or> fs_errno S w = EAGAIN \<or> shutdown_seen env c w
                 then Some (0, buffer, sync_shutdown env w c, w)
                 else Some (error_code_to_int TRANSPORT_ERROR, buffer, sync_shutdown env w c, w)
               else do {
                 let buffer = vec_resize DEFAULT_BUFFER_SIZE buffer;
                 (ret, bs, w) \<leftarrow> sys_recv S sock (length buffer) w;
                 if ret < 0 then Some (error_code_to_int TRANSPORT_ERROR, buffer, c, w)
                 else Some (ret, vec_resize (nat ret) (write_at 0 bs buffer), c, w)
               } })"

definition Posix_send_response ::
    "'w posix_ops \<Rightarrow> bytes \<Rightarrow> 'w posix_state \<Rightarrow> (ErrorCode \<times> 'w posix_state) option" where
  "Posix_send_response S data cw =
     (let (c, w) = cw in
      if pc_setup_connection_socket c < 0 then Some (NOT_CONNECTED, c, w)
      else
        do { (ret, w) \<leftarrow> send_in_chunks S (pc_setup_connection_socket c) data w;
             Some (if ret < 0 then TRANSPORT_ERROR else SUCCESS, c, w) })"

text \<open>
  The loop of \<^verbatim>\<open>setup_inbound_connection\<close> that polls until a connection is there or a shutdown is
  requested; False is the early return after a failed poll.
\<close>

partial_function (option) inbound_wait_loop ::
    "'w posix_ops \<Rightarrow> ('w \<Rightarrow> bool) \<Rightarrow> PosixE3Connector \<Rightarrow> 'w \<Rightarrow> (bool \<times> 'w) option" where
  "inbound_wait_loop S env c w =
     (if \<not> shutdown_seen env c w then
        let rw = wait_for_socket S (pc_inbound_socket c) POLL_TIMEOUT_MS w in
        if fst rw < 0 then
          Some (fs_errno S (snd rw) = EINTR \<or> shutdown_seen env c (snd rw), snd rw)
        else if fst rw = 0 then inbound_wait_loop S env c (snd rw)
        else Some (True, snd rw)
      else Some (True, w))"

definition Posix_setup_inbound_connection ::
    "'w posix_ops \<Rightarrow> ('w \<Rightarrow> bool) \<Rightarrow> 'w posix_state \<Rightarrow> (ErrorCode \<times> 'w posix_state) option" where
  "Posix_setup_inbound_connection S env cw =
     (let (c, w) = cw;
          (l, w) = open_listener S (pc_transport_layer c) (pc_inbound_port c)
                     (pc_inbound_endpoint c) w
      in case l of
           None \<Rightarrow> Some (CONNECTION_FAILED, c, w)
         | Some sock \<Rightarrow>
             let c = c\<lparr> pc_inbound_socket := sock \<rparr> in
             do { (ready, w) \<leftarrow> inbound_wait_loop S env c w;
                  if \<not> ready then Some (CONNECTION_FAILED, sync_shutdown env w c, w)
                  else if shutdown_seen env c w
                  then Some (CANCELLED, sync_shutdown env w c, w)
                  else do {
                    (conn, w) \<leftarrow> sys_accept S sock w;
                    let c = c\<lparr> pc_inbound_connection_socket := conn \<rparr>;
                    if conn < 0 then
                      Some (if shutdown_seen env c w then CANCELLED else CONNECTION_FAILED,
                            sync_shutdown env w c, w)
                    else Some (SUCCESS, c, w)
                  } })"

definition Posix_receive ::
    "'w posix_ops \<Rightarrow> bytes \<Rightarrow> 'w posix_state \<Rightarrow> (int \<times> bytes \<times> 'w posix_state) option" where
  "Posix_receive S buffer cw =
     (let (c, w) = cw in
      if pc_inbound_connection_socket c < 0
      then Some (error_code_to_int NOT_CONNECTED, buffer, c, w)
      else
        let (poll_ret, w) = wait_for_socket S (pc_inbound_connection_socket c) POLL_TIMEOUT_MS w in
        if poll_ret = 0 then Some (0, buffer, c, w)
        else if poll_ret < 0 then
          if fs_errno S w = EINTR then Some (0, buffer, c, w)
          else Some (error_code_to_int TRANSPORT_ERROR, buffer, c, w)
        else do {
          let buffer = vec_resize DEFAULT_BUFFER_SIZE buffer;
          (ret, bs, w) \<leftarrow> sys_recv S (pc_inbound_connection_socket c) (length buffer) w;
          if ret < 0 then
            if fs_errno S w = EINTR \<or> fs_errno S w = EAGAIN then Some (0, buffer, c, w)
            else Some (error_code_to_int TRANSPORT_ERROR, buffer, c, w)
          else Some (ret, vec_resize (nat ret) (write_at 0 bs buffer), c, w)
        })"

definition Posix_setup_outbound_connection ::
    "'w posix_ops \<Rightarrow> 'w posix_state \<Rightarrow> (ErrorCode \<times> 'w posix_state) option" where
  "Posix_setup_outbound_connection S cw =
     (let (c, w) = cw;
          (l, w) = open_listener S (pc_transport_layer c) (pc_outbound_port c)
                     (pc_outbound_endpoint c) w
      in case l of
           None \<Rightarrow> Some (CONNECTION_FAILED, c, w)
         | Some sock \<Rightarrow>
             do { (conn, w) \<leftarrow> sys_accept S sock w;
                  let c = c\<lparr> pc_outbound_socket := sock, pc_outbound_connection_socket := conn \<rparr>;
                  Some (if conn < 0 then CONNECTION_FAILED else SUCCESS, c, w) })"

definition Posix_send ::
    "'w posix_ops \<Rightarrow> bytes \<Rightarrow> 'w posix_state \<Rightarrow> (ErrorCode \<times> 'w posix_state) option" where
  "Posix_send S data cw =
     (let (c, w) = cw in
      if pc_outbound_connection_socket c < 0 then Some (NOT_CONNECTED, c, w)
      else
        do { (ret, w) \<leftarrow> send_in_chunks S (pc_outbound_connection_socket c) data w;
             Some (if ret < 0 then TRANSPORT_ERROR else SUCCESS, c, w) })"

definition Posix_shutdown :: "'w posix_ops \<Rightarrow> 'w posix_state \<Rightarrow> 'w posix_state" where
  "Posix_shutdown S cw =
     (let (c, w) = cw;
          c = c\<lparr> pc_shutdown_requested := True \<rparr>;
          w = (if pc_setup_socket c \<ge> 0 then snd (sys_shutdown S (pc_setup_socket c) w) else w);
          w = (if pc_inbound_socket c \<ge> 0 then snd (sys_shutdown S (pc_inbound_socket c) w) else w)
      in (c, w))"

definition Posix_dispose :: "'w posix_ops \<Rightarrow> 'w posix_state \<Rightarrow> 'w posix_state" where
  "Posix_dispose S cw =
     (let (c, w) = cw;
          cl = (\<lambda>fd w. if fd \<ge> 0 then snd (sys_close S fd w) else w);
          clu = (\<lambda>fd w. if fd \<noteq> UNUSED_SOCKET \<and> fd \<ge> 0 then snd (sys_close S fd w) else w);
          w = clu (pc_inbound_connection_socket c) w;
          w = clu (pc_setup_connection_socket c) w;
          w = clu (pc_outbound_connection_socket c) w;
          w = cl (pc_inbound_socket c) w;
          w = cl (pc_outbound_socket c) w;
          w = cl (pc_setup_socket c) w;
          w = (if pc_transport_layer c = IPC then
                 let w = snd (fs_unlink S (c_str (pc_setup_endpoint c)) w);
                     w = snd (fs_unlink S (c_str (pc_inbound_endpoint c)) w);
                     w = snd (fs_unlink S (c_str (pc_outbound_endpoint c)) w)
                 in snd (fs_rmdir S IPC_BASE_DIR w)
               else w)
      in (c\<lparr> pc_setup_socket := -1, pc_setup_connection_socket := UNUSED_SOCKET,
             pc_inbound_socket := -1, pc_inbound_connection_socket := UNUSED_SOCKET,
             pc_outbound_socket := -1, pc_outbound_connection_socket := UNUSED_SOCKET,
             pc_connected := False \<rparr>, w))"

definition PosixE3Connector_ops ::
    "'w posix_ops \<Rightarrow> ('w \<Rightarrow> bool) \<Rightarrow> 'w posix_state connector_ops" where
  "PosixE3Connector_ops S env =
     \<lparr> conn_setup_initial_connection = (\<lambda>cw. Some (Posix_setup_initial_connection S cw)),
       conn_recv_setup_request = Posix_recv_setup_request S env,
       conn_send_response = Posix_send_response S,
       conn_setup_inbound_connection = Posix_setup_inbound_connection S env,
       conn_receive = Posix_receive S,
       conn_setup_outbound_connection = Posix_setup_outbound_connection S,
       conn_send = Posix_send S,
       conn_dispose = (\<lambda>cw. Some (Posix_dispose S cw)),
       conn_shutdown = Posix_shutdown S,
       conn_link_layer = (\<lambda>cw. POSIX),
       conn_transport_layer = (\<lambda>cw. pc_transport_layer (fst cw)),
       conn_is_connected = (\<lambda>cw. pc_connected (fst cw)) \<rparr>"

section \<open>The connector's contract\<close>

lemmas posix_op_defs =
  PosixE3Connector_ops_def Posix_setup_initial_connection_def Posix_recv_setup_request_def
  Posix_receive_def Posix_send_def Posix_send_response_def Posix_dispose_def

text \<open>The contract holds of any behaviour of the system calls.\<close>

interpretation posix: connector_contract "PosixE3Connector_ops S env" for S :: "'w posix_ops" and env
proof (unfold_locales, goal_cases)
  case 1
  then show ?case
    by (auto simp: posix_op_defs Let_def split: if_splits prod.splits bind_splits)
next
  case 2
  then show ?case
    by (auto simp: posix_op_defs Let_def split: if_splits prod.splits bind_splits)
next
  case 3
  then show ?case
    by (auto simp: posix_op_defs Let_def error_code_of_int_def LIBE3_ERROR_CODE_LIST_def
        split: if_splits prod.splits bind_splits)
next
  case 4
  then show ?case
    by (auto simp: posix_op_defs Let_def error_code_of_int_def LIBE3_ERROR_CODE_LIST_def
        split: if_splits prod.splits bind_splits)
next
  case 5
  then show ?case
    by (auto simp: posix_op_defs Let_def split: if_splits prod.splits option.splits)
qed (auto simp: posix_op_defs Let_def UNUSED_SOCKET_def split: prod.splits)

section \<open>Framed transfers\<close>

text \<open>
  What is documented of \<^verbatim>\<open>send\<close> on a blocking stream socket: when it returns, it returns -1 or the number
  of bytes it took, at least one; \<open>sent\<close> is the byte stream handed to the peer. A peer that does not
  read can block it.
\<close>

locale posix_sender =
  fixes S :: "'w posix_ops" and fd :: int and sent :: "'w \<Rightarrow> bytes"
  assumes send_error: "sys_send S fd bs w = Some (-1, w') \<Longrightarrow> sent w' = sent w"
    and send_some:
      "sys_send S fd bs w = Some (r, w') \<Longrightarrow> r \<noteq> -1 \<Longrightarrow> bs \<noteq> [] \<Longrightarrow>
       0 < r \<and> r \<le> int (length bs) \<and> sent w' = sent w @ take (nat r) bs"
begin

lemma send_chunk:
  assumes "0 \<le> k" and "k \<le> n" and "n \<le> int (length buf)"
  shows "send_chunk_loop S fd buf n k w = None \<or>
    (\<exists>res w' j. send_chunk_loop S fd buf n k w = Some (res, w') \<and> j \<le> nat (n - k) \<and>
    sent w' = sent w @ take j (drop (nat k) buf) \<and> (res = Some n \<and> j = nat (n - k) \<or> res = None))"
  using assms
proof (induction "nat (n - k)" arbitrary: k w rule: less_induct)
  case less
  let ?bs = "take (nat (n - k)) (drop (nat k) buf)"
  consider "\<not> k < n" | "k < n" "sys_send S fd ?bs w = None" | w1 where "k < n" "sys_send S fd ?bs w = Some (-1, w1)"
    | r w1 where "k < n" "r \<noteq> -1" "sys_send S fd ?bs w = Some (r, w1)" by fastforce
  then show ?case
  proof cases
    case 1
    then show ?thesis using less.prems by (subst send_chunk_loop.simps) simp
  next
    case 2
    then show ?thesis by (simp add: send_chunk_loop.simps[of S fd buf n k w])
  next
    case (3 w1)
    then show ?thesis
      using send_error[of ?bs w w1] by (simp add: send_chunk_loop.simps[of S fd buf n k w]) (auto intro!: exI[of _ "0 :: nat"])
  next
    case (4 r w1)
    note s = 4(3) and 3 = 4(1,2)
    have len: "length ?bs = nat (n - k)" using less.prems by simp
    then have "?bs \<noteq> []" using 3(1) by (metis list.size(3) nat_0_iff not_le diff_le_0_iff_le)
    from send_some[OF s 3(2) this] len
    have r: "0 < r" "r \<le> n - k" and w1: "sent w1 = sent w @ take (nat r) (drop (nat k) buf)"
      using 3 by (auto simp: min_def)
    have rec: "send_chunk_loop S fd buf n k w = send_chunk_loop S fd buf n (k + r) w1"
      using 3 s by (subst send_chunk_loop.simps) simp
    have kr: "nat (k + r) = nat k + nat r" using r less.prems by (simp add: nat_add_distrib)
    have "nat (n - (k + r)) < nat (n - k)" using r 3 by simp
    from less.hyps[OF this, of w1] r less.prems consider "send_chunk_loop S fd buf n (k + r) w1 = None" | res w2 j
      where "send_chunk_loop S fd buf n (k + r) w1 = Some (res, w2)" "j \<le> nat (n - (k + r))"
        "sent w2 = sent w1 @ take j (drop (nat (k + r)) buf)"
        "res = Some n \<and> j = nat (n - (k + r)) \<or> res = None"
      by auto
    then show ?thesis
    proof cases
      case 1
      then show ?thesis using rec by simp
    next
      case IH: (2 res w2 j)
      have "sent w2 = sent w @ take (nat r + j) (drop (nat k) buf)"
        using IH(3) w1 kr take_drop_add[of "nat r" "nat k" buf j] by simp
      moreover have "nat r + nat (n - (k + r)) = nat (n - k)" using r by simp
      ultimately show ?thesis
        using rec IH by (intro disjI2 exI[of _ res] exI[of _ w2] exI[of _ "nat r + j"]) auto
    qed
  qed
qed

lemma send_all:
  assumes "k \<le> length buf"
  shows "send_loop S fd buf k w = None \<or>
    (\<exists>r w' j. send_loop S fd buf k w = Some (r, w') \<and> j \<le> length buf - k \<and>
    sent w' = sent w @ take j (drop k buf) \<and> (r = 0 \<and> j = length buf - k \<or> r = -1))"
  using assms
proof (induction "length buf - k" arbitrary: k w rule: less_induct)
  case less
  show ?case
  proof (cases "k < length buf")
    case False
    then show ?thesis using less.prems by (subst send_loop.simps) simp
  next
    case True
    let ?n = "min CHUNK_SIZE (int (length buf - k))"
    have n: "0 < ?n" "nat ?n \<le> length buf - k" using True by (simp_all add: CHUNK_SIZE_def)
    consider "send_chunk_loop S fd (drop k buf) ?n 0 w = None"
      | w1 i where "send_chunk_loop S fd (drop k buf) ?n 0 w = Some (None, w1)"
        "i \<le> nat ?n" "sent w1 = sent w @ take i (drop k buf)"
      | w1 where "send_chunk_loop S fd (drop k buf) ?n 0 w = Some (Some ?n, w1)"
        "sent w1 = sent w @ take (nat ?n) (drop k buf)"
      using send_chunk[of 0 ?n "drop k buf" w] n by auto
    then show ?thesis
    proof cases
      case 1
      then show ?thesis using True by (simp add: send_loop.simps[of S fd buf k w])
    next
      case (2 w1 i)
      then have "send_loop S fd buf k w = Some (-1, w1)" using True by (subst send_loop.simps) simp
      then show ?thesis using order_trans[OF 2(2) n(2)] 2(3) by blast
    next
      case (3 w1)
      have rec: "send_loop S fd buf k w = send_loop S fd buf (k + nat ?n) w1"
        using 3(1) True by (subst send_loop.simps) simp
      have k: "k + nat ?n \<le> length buf" "length buf - (k + nat ?n) < length buf - k"
        using n True by auto
      have cat: "take (nat ?n) (drop k buf) @ take j (drop (k + nat ?n) buf) = take (nat ?n + j) (drop k buf)" for j
        using take_drop_add[of "nat ?n" k buf j] by simp
      have le: "nat ?n + j \<le> length buf - k"
        "j = length buf - (k + nat ?n) \<Longrightarrow> nat ?n + j = length buf - k" if "j \<le> length buf - (k + nat ?n)" for j
        using that k(1) by linarith+
      from less.hyps[OF k(2) k(1), of w1] show ?thesis
        unfolding rec 3(2) append_assoc cat using le by blast
    qed
  qed
qed

lemma send_frame:
  assumes "send_in_chunks S fd buf w = Some (r, w')"
  shows "\<exists>j \<le> 4 + length buf. sent w' = sent w @ take j (htonl_bytes (of_nat (length buf)) @ buf) \<and>
    (r = 0 \<and> j = 4 + length buf \<or> r = -1)"
proof -
  let ?h = "htonl_bytes (of_nat (length buf))"
  have h: "length ?h = 4" "?h \<noteq> []" by (simp_all add: htonl_bytes_def)
  obtain s w1 where s: "sys_send S fd ?h w = Some (s, w1)"
    using assms by (auto simp: send_in_chunks_def split: bind_splits)
  show ?thesis
  proof (cases "s = 4")
    case True
    then have w1: "sent w1 = sent w @ ?h" using send_some[OF s _ h(2)] h(1) by simp
    have "send_loop S fd buf 0 w1 = Some (r, w')" using assms s True by (simp add: send_in_chunks_def)
    then obtain j where l: "j \<le> length buf" "sent w' = sent w1 @ take j buf" "r = 0 \<and> j = length buf \<or> r = -1"
      using send_all[of 0 buf w1] by auto
    moreover have "sent w' = sent w @ take (4 + j) (?h @ buf)" using l(2) w1 h(1) by simp
    ultimately show ?thesis by (intro exI[of _ "4 + j"]) auto
  next
    case False
    have r: "r = -1" "w' = w1" using assms s False by (simp_all add: send_in_chunks_def)
    show ?thesis
    proof (cases "s = -1")
      case True
      then show ?thesis using r s send_error[of ?h w w1] by (intro exI[of _ 0]) simp
    next
      case False
      then have "sent w1 = sent w @ take (nat s) (?h @ buf)" "nat s \<le> 4 + length buf"
        using send_some[OF s False h(2)] h(1) by auto
      then show ?thesis using r by blast
    qed
  qed
qed

end

text \<open>
  A stream from which bytes can be read while there are some: \<open>pending\<close> is what the peer has sent
  and the connector has not read. A call returns at least one byte and may return fewer than asked.
\<close>

locale posix_receiver =
  fixes S :: "'w posix_ops" and fd :: int and pending :: "'w \<Rightarrow> bytes"
  assumes recv_some:
    "0 < n \<Longrightarrow> pending w \<noteq> [] \<Longrightarrow>
     \<exists>bs w'. sys_recv S fd n w = Some (int (length bs), bs, w') \<and> bs \<noteq> [] \<and> length bs \<le> n \<and>
       pending w = bs @ pending w'"
begin

lemma recv_some_of:
  assumes "0 < n" and "pending w = d @ rest" and "length d = m" and "0 < m" and "n \<le> m"
  obtains bs w' where "sys_recv S fd n w = Some (int (length bs), bs, w')" "bs \<noteq> []" "length bs \<le> n"
    "d = bs @ drop (length bs) d" "pending w' = drop (length bs) d @ rest"
proof -
  have "pending w \<noteq> []" using assms(2-4) by auto
  from recv_some[OF assms(1) this] obtain bs w'
    where r: "sys_recv S fd n w = Some (int (length bs), bs, w')" "bs \<noteq> []" "length bs \<le> n"
      "pending w = bs @ pending w'" by blast
  have "bs = take (length bs) (d @ rest)" "pending w' = drop (length bs) (d @ rest)"
    using r(4) assms(2) by (metis append_eq_conv_conj)+
  moreover have "length bs \<le> length d" using r(3) assms(3,5) by simp
  ultimately have "bs = take (length bs) d" "pending w' = drop (length bs) d @ rest" by auto
  then show ?thesis using that[OF r(1-3)] by (metis append_take_drop_id)
qed

lemma recv_header:
  assumes "k \<le> 4" and "length hdr = 4" and "pending w = d @ rest" and "length d = 4 - k"
  shows "\<exists>w'. recv_header_loop S fd hdr k w = Some (Inr (take k hdr @ d), w') \<and> pending w' = rest"
  using assms
proof (induction "4 - k" arbitrary: k hdr d w rule: less_induct)
  case less
  show ?case
  proof (cases "k < 4")
    case False
    then show ?thesis using less.prems by (subst recv_header_loop.simps) simp
  next
    case True
    then have m: "0 < 4 - k" by simp
    from recv_some_of[OF m less.prems(3,4) m order_refl]
    obtain bs w1 where r: "sys_recv S fd (4 - k) w = Some (int (length bs), bs, w1)" "bs \<noteq> []"
      "length bs \<le> 4 - k" "d = bs @ drop (length bs) d" "pending w1 = drop (length bs) d @ rest" .
    then have l: "0 < length bs" by simp
    let ?hdr = "write_at k bs hdr"
    have rec: "recv_header_loop S fd hdr k w = recv_header_loop S fd ?hdr (k + length bs) w1"
      using True r(1,2) by (subst recv_header_loop.simps) simp
    have p: "4 - (k + length bs) < 4 - k" "k + length bs \<le> 4" "length ?hdr = 4"
      "length (drop (length bs) d) = 4 - (k + length bs)"
      using l r(3) True less.prems(2,4) by (simp_all del: length_greater_0_conv)
    from less.hyps[OF p(1-3) r(5) p(4)]
    have "\<exists>w'. recv_header_loop S fd ?hdr (k + length bs) w1 =
        Some (Inr (take (k + length bs) ?hdr @ drop (length bs) d), w') \<and> pending w' = rest" .
    moreover have "take (k + length bs) ?hdr @ drop (length bs) d = take k hdr @ d"
      using take_write_at[of k hdr bs] less.prems r(4) by simp
    ultimately show ?thesis using rec by simp
  qed
qed

lemma recv_payload:
  assumes "k \<le> n" and "length buf = n" and "pending w = d @ rest" and "length d = n - k"
  shows "\<exists>w'. recv_payload_loop S fd n buf k w = Some (int n, take k buf @ d, w') \<and> pending w' = rest"
  using assms
proof (induction "n - k" arbitrary: k buf d w rule: less_induct)
  case less
  show ?case
  proof (cases "k < n")
    case False
    then show ?thesis using less.prems by (subst recv_payload_loop.simps) simp
  next
    case True
    let ?m = "min (nat CHUNK_SIZE) (n - k)"
    have m: "0 < ?m" "?m \<le> n - k" using True by (simp_all add: CHUNK_SIZE_def)
    from recv_some_of[OF m(1) less.prems(3,4) less_le_trans[OF m] m(2)]
    obtain bs w1 where r: "sys_recv S fd ?m w = Some (int (length bs), bs, w1)" "bs \<noteq> []"
      "length bs \<le> ?m" "d = bs @ drop (length bs) d" "pending w1 = drop (length bs) d @ rest" .
    then have l: "0 < length bs" "length bs \<le> n - k" using m(2) by simp_all
    let ?buf = "write_at k bs buf"
    have rec: "recv_payload_loop S fd n buf k w = recv_payload_loop S fd n ?buf (k + length bs) w1"
      using True r(1,2) by (subst recv_payload_loop.simps) simp
    have p: "n - (k + length bs) < n - k" "k + length bs \<le> n" "length ?buf = n"
      "length (drop (length bs) d) = n - (k + length bs)"
      using l True less.prems(2,4) by (simp_all del: length_greater_0_conv)
    from less.hyps[OF p(1-3) r(5) p(4)]
    have "\<exists>w'. recv_payload_loop S fd n ?buf (k + length bs) w1 =
        Some (int n, take (k + length bs) ?buf @ drop (length bs) d, w') \<and> pending w' = rest" .
    moreover have "take (k + length bs) ?buf @ drop (length bs) d = take k buf @ d"
      using take_write_at[of k buf bs] less.prems r(4) by simp
    ultimately show ?thesis using rec by simp
  qed
qed

text \<open>One frame: the payload if its size is acceptable, else an error that leaves the buffer.\<close>

lemma recv_frame:
  assumes "length h = 4" and "pending w = h @ d @ rest" and "length d = unat (ntohl_bytes h)"
  shows "if 0 < length d \<and> length d \<le> MAX_PROTOCOL_DATA_SIZE * 2
    then \<exists>w'. recv_with_size S fd buf w = Some (int (length d), d, w') \<and> pending w' = rest
    else \<exists>w'. recv_with_size S fd buf w = Some (error_code_to_int TRANSPORT_ERROR, buf, w')
           \<and> pending w' = d @ rest"
proof -
  obtain w1 where h: "recv_header_loop S fd [0, 0, 0, 0] 0 w = Some (Inr h, w1)" "pending w1 = d @ rest"
    using recv_header[of 0 "[0, 0, 0, 0]" w h "d @ rest"] assms by auto
  show ?thesis
    using h assms(3) recv_payload[of 0 "length d" "vec_resize (length d) buf" w1 d rest]
    by (auto simp: recv_with_size_def)
qed

end

lemma ntohl_htonl [simp]: "ntohl_bytes (htonl_bytes n) = n"
proof (rule bit_word_eqI)
  fix i assume "i < LENGTH(32)"
  then consider "i < 8" | "8 \<le> i" "i < 16" | "16 \<le> i" "i < 24" | "24 \<le> i" "i < 32" by fastforce
  then show "bit (ntohl_bytes (htonl_bytes n)) i = bit n i"
    by cases (auto simp: ntohl_bytes_def htonl_bytes_def bit_simps)
qed

lemma length_htonl [simp]: "length (htonl_bytes n) = 4"
  by (simp add: htonl_bytes_def)

section \<open>Descriptors\<close>

text \<open>
  What is documented of descriptors: \<^verbatim>\<open>socket\<close> and \<^verbatim>\<open>accept\<close> fail or return a descriptor that was not
  open, \<^verbatim>\<open>close\<close> releases the one it is given, and no other call opens or closes any.
\<close>

locale posix_descriptors =
  fixes S :: "'w posix_ops" and opens :: "'w \<Rightarrow> int set"
  assumes socket_fd: "sys_socket S d p w = (r, w') \<Longrightarrow>
      r < 0 \<and> opens w' = opens w \<or> 0 \<le> r \<and> r \<notin> opens w \<and> opens w' = insert r (opens w)"
    and accept_fd: "sys_accept S fd w = Some (r, w') \<Longrightarrow>
      r < 0 \<and> opens w' = opens w \<or> 0 \<le> r \<and> r \<notin> opens w \<and> opens w' = insert r (opens w)"
    and close_fd [simp]: "opens (snd (sys_close S fd w)) = opens w - {fd}"
    and bind_fd [simp]: "opens (snd (sys_bind S fd a w)) = opens w"
    and listen_fd [simp]: "opens (snd (sys_listen S fd n w)) = opens w"
    and poll_fd [simp]: "opens (snd (sys_poll S fd t w)) = opens w"
    and recv_fd: "sys_recv S fd n w = Some (r, bs, w') \<Longrightarrow> opens w' = opens w"
    and send_fd: "sys_send S fd bs w = Some (r, w') \<Longrightarrow> opens w' = opens w"
    and shutdown_fd [simp]: "opens (snd (sys_shutdown S fd w)) = opens w"
    and stat_fd [simp]: "opens (snd (fs_stat S f w)) = opens w"
    and mkdir_fd [simp]: "opens (snd (fs_mkdir S f m w)) = opens w"
    and chmod_fd [simp]: "opens (snd (fs_chmod S f m w)) = opens w"
    and unlink_fd [simp]: "opens (snd (fs_unlink S f w)) = opens w"
    and rmdir_fd [simp]: "opens (snd (fs_rmdir S f w)) = opens w"

definition held :: "PosixE3Connector \<Rightarrow> int set" where
  "held c = {fd. 0 \<le> fd \<and>
     fd \<in> {pc_setup_socket c, pc_setup_connection_socket c, pc_inbound_socket c,
           pc_inbound_connection_socket c, pc_outbound_socket c, pc_outbound_connection_socket c}}"

context posix_descriptors
begin

lemma ipc_dir_fds: "opens (snd (ensure_ipc_dir S t w)) = opens w"
  by (simp add: ensure_ipc_dir_def split_beta Let_def)

lemma socket_fd_snd:
  "fst (sys_socket S d p w) < 0 \<and> opens (snd (sys_socket S d p w)) = opens w \<or>
   0 \<le> fst (sys_socket S d p w) \<and> fst (sys_socket S d p w) \<notin> opens w \<and>
   opens (snd (sys_socket S d p w)) = insert (fst (sys_socket S d p w)) (opens w)"
  by (rule socket_fd) simp

lemma open_and_bind_fds:
  assumes "open_and_bind S t p e w = (sock, ret, w')"
  shows "sock < 0 \<and> opens w' = opens w
    \<or> 0 \<le> sock \<and> sock \<notin> opens w \<and> opens w' = insert sock (opens w)"
proof -
  let ?d = "if t = IPC then AF_UNIX else AF_INET"
  let ?p = "if t = SCTP then IPPROTO_SCTP else IPPROTO_DEFAULT"
  have "fst (sys_socket S ?d ?p w) = sock \<and> opens w' = opens (snd (sys_socket S ?d ?p w))"
    using assms by (cases t) (auto simp: open_and_bind_def split_beta Let_def prod_eq_iff)
  then show ?thesis using socket_fd_snd[of ?d ?p w] by metis
qed

lemma open_listener_fds:
  assumes "open_listener S t p e w = (l, w')"
  shows "case l of None \<Rightarrow> opens w' = opens w
    | Some sock \<Rightarrow> 0 \<le> sock \<and> sock \<notin> opens w \<and> opens w' = insert sock (opens w)"
proof -
  obtain ok w0 where d: "ensure_ipc_dir S t w = (ok, w0)" by fastforce
  then have w0: "opens w0 = opens w" using ipc_dir_fds[of t w] by simp
  obtain sock ret w1 where b: "open_and_bind S t p e w0 = (sock, ret, w1)" by (metis prod_cases3)
  obtain lr w2 where ls: "sys_listen S sock 5 w1 = (lr, w2)" by fastforce
  then have w2: "opens w2 = opens w1" by (metis listen_fd snd_conv)
  consider "\<not> ok" | "ok" "sock < 0" | "ok" "0 \<le> sock" "ret < 0" | "ok" "0 \<le> sock" "0 \<le> ret" "lr < 0"
    | "ok" "0 \<le> sock" "0 \<le> ret" "0 \<le> lr" by linarith
  then show ?thesis
    using assms open_and_bind_fds[OF b] w0 w2
    by cases (auto simp: open_listener_def d b ls)
qed

lemma inbound_wait_fds:
  assumes "inbound_wait_loop S env c w = Some r"
  shows "opens (snd r) = opens w"
proof -
  have "S = S \<longrightarrow> opens (snd r) = opens w"
  proof (rule inbound_wait_loop.raw_induct[where
        P = "\<lambda>S' env c w r. S' = S \<longrightarrow> opens (snd r) = opens w", OF _ assms], goal_cases)
    case (1 f S' env c w r)
    then show ?case by (auto simp: wait_for_socket_def Let_def split: if_splits)
  qed
  then show ?thesis by simp
qed

lemma send_chunk_fds:
  assumes "send_chunk_loop S fd buf n k w = Some r"
  shows "opens (snd r) = opens w"
proof -
  have "S = S \<longrightarrow> opens (snd r) = opens w"
  proof (rule send_chunk_loop.raw_induct[where
        P = "\<lambda>S' fd buf n k w r. S' = S \<longrightarrow> opens (snd r) = opens w", OF _ assms], goal_cases)
    case (1 f S' fd buf n k w r)
    then show ?case by (auto split: if_splits bind_splits dest: send_fd)
  qed
  then show ?thesis by simp
qed

lemma send_loop_fds:
  assumes "send_loop S fd buf k w = Some r"
  shows "opens (snd r) = opens w"
proof -
  have "S = S \<longrightarrow> opens (snd r) = opens w"
  proof (rule send_loop.raw_induct[where
        P = "\<lambda>S' fd buf k w r. S' = S \<longrightarrow> opens (snd r) = opens w", OF _ assms], goal_cases)
    case (1 f S' fd buf k w r)
    let ?c = "send_chunk_loop S fd (drop k buf) (min CHUNK_SIZE (int (length buf - k))) 0 w"
    show ?case
    proof (cases "k < length buf \<and> S' = S")
      case False
      then show ?thesis using 1(2) by auto
    next
      case True
      then obtain res w1 where c: "?c = Some (res, w1)" using 1(2) by (cases ?c) auto
      then have "opens w1 = opens w" using send_chunk_fds[OF c] by simp
      then show ?thesis
        using 1(1)[of S fd buf _ w1] 1(2) True c by (cases res) auto
    qed
  qed
  then show ?thesis by simp
qed

lemma send_in_chunks_fds:
  assumes "send_in_chunks S fd buf w = Some (r, w')"
  shows "opens w' = opens w"
proof -
  let ?s = "sys_send S fd (htonl_bytes (of_nat (length buf))) w"
  obtain n w1 where s: "?s = Some (n, w1)" using assms by (cases ?s) (auto simp: send_in_chunks_def)
  then have "opens w1 = opens w" by (rule send_fd)
  moreover have "n \<noteq> 4 \<Longrightarrow> w' = w1" "n = 4 \<Longrightarrow> send_loop S fd buf 0 w1 = Some (r, w')"
    using assms s by (simp_all add: send_in_chunks_def)
  ultimately show ?thesis using send_loop_fds[of fd buf 0 w1 "(r, w')"] by (cases "n = 4") auto
qed

end

text \<open>A slot that is not in use and gets a descriptor, or the negative result of a failed call.\<close>

lemma held_set [simp]:
  "pc_setup_socket c < 0 \<Longrightarrow> held (c\<lparr>pc_setup_socket := r\<rparr>) = (if 0 \<le> r then insert r (held c) else held c)"
  "pc_setup_connection_socket c < 0 \<Longrightarrow>
   held (c\<lparr>pc_setup_connection_socket := r\<rparr>) = (if 0 \<le> r then insert r (held c) else held c)"
  "pc_inbound_socket c < 0 \<Longrightarrow> held (c\<lparr>pc_inbound_socket := r\<rparr>) = (if 0 \<le> r then insert r (held c) else held c)"
  "pc_inbound_connection_socket c < 0 \<Longrightarrow>
   held (c\<lparr>pc_inbound_connection_socket := r\<rparr>) = (if 0 \<le> r then insert r (held c) else held c)"
  "pc_outbound_socket c < 0 \<Longrightarrow> held (c\<lparr>pc_outbound_socket := r\<rparr>) = (if 0 \<le> r then insert r (held c) else held c)"
  "pc_outbound_connection_socket c < 0 \<Longrightarrow>
   held (c\<lparr>pc_outbound_connection_socket := r\<rparr>) = (if 0 \<le> r then insert r (held c) else held c)"
  by (auto simp: held_def)

lemma held_other [simp]:
  "held (c\<lparr>pc_connected := b\<rparr>) = held c" "held (sync_shutdown env w c) = held c"
  "held (c\<lparr>pc_shutdown_requested := b\<rparr>) = held c"
  by (auto simp: held_def sync_shutdown_def)

text \<open>Every open descriptor was open before the connector was made, or the connector holds it.\<close>

definition fds_ok :: "('w \<Rightarrow> int set) \<Rightarrow> int set \<Rightarrow> PosixE3Connector \<Rightarrow> 'w \<Rightarrow> bool" where
  "fds_ok opens base c w \<longleftrightarrow> opens w = base \<union> held c \<and> held c \<inter> base = {}"

lemma fds_ok_same: "fds_ok opens base c w \<Longrightarrow> opens w' = opens w \<Longrightarrow> held c' = held c \<Longrightarrow> fds_ok opens base c' w'"
  by (simp add: fds_ok_def)

lemma fds_ok_fresh:
  assumes "fds_ok opens base c w" and "r \<notin> opens w" and "opens w' = insert r (opens w)"
    and "held c' = insert r (held c)"
  shows "fds_ok opens base c' w'"
  using assms by (auto simp: fds_ok_def)

text \<open>What a setup request that found a connection waiting leaves behind.\<close>

lemma recv_setup_accepted:
  assumes "0 \<le> pc_setup_socket c" and "wait_for_socket S (pc_setup_socket c) POLL_TIMEOUT_MS w = (pr, w1)"
    and "0 < pr" and "sys_accept S (pc_setup_socket c) w1 = Some (s, w2)"
    and "Posix_recv_setup_request S env b (c, w) = Some (r, b', c', w')"
  shows "(c' = c\<lparr>pc_setup_connection_socket := s\<rparr> \<or>
      c' = sync_shutdown env w2 (c\<lparr>pc_setup_connection_socket := s\<rparr>))
    \<and> (w' = w2 \<or> (\<exists>n ret bs. sys_recv S s n w2 = Some (ret, bs, w')))"
proof (cases "s < 0")
  case True
  then show ?thesis
    using assms by (simp add: Posix_recv_setup_request_def Let_def split: if_splits) blast+
next
  case False
  let ?n = "length (vec_resize DEFAULT_BUFFER_SIZE b)"
  obtain ret bs w3 where "sys_recv S s ?n w2 = Some (ret, bs, w3)"
    using assms False by (cases "sys_recv S s ?n w2") (auto simp: Posix_recv_setup_request_def Let_def)
  then show ?thesis
    using assms False by (simp add: Posix_recv_setup_request_def Let_def split: if_splits) blast+
qed

context posix_descriptors
begin

lemma accept_ok:
  assumes "sys_accept S fd w = Some (r, w')" and "fds_ok opens base c w"
    and "held c' = (if 0 \<le> r then insert r (held c) else held c)"
  shows "fds_ok opens base c' w'"
  using accept_fd[OF assms(1)] assms(2,3) fds_ok_fresh[OF assms(2)] fds_ok_same[OF assms(2)] by auto

lemma listener_ok:
  assumes "open_listener S t p e w = (l, w')" and "fds_ok opens base c w"
    and "held c' = (case l of None \<Rightarrow> held c | Some s \<Rightarrow> if 0 \<le> s then insert s (held c) else held c)"
  shows "fds_ok opens base c' w'"
  using open_listener_fds[OF assms(1)] assms(2,3) fds_ok_fresh[OF assms(2)] fds_ok_same[OF assms(2)]
  by (auto split: option.splits)

lemma initial_ok:
  assumes "fds_ok opens base c w" and "pc_setup_socket c < 0"
  shows "fds_ok opens base (fst (snd (Posix_setup_initial_connection S (c, w))))
    (snd (snd (Posix_setup_initial_connection S (c, w))))"
proof -
  obtain l w1 where l: "open_listener S (pc_transport_layer c) (pc_setup_port c) (pc_setup_endpoint c) w = (l, w1)"
    by fastforce
  show ?thesis
    using l listener_ok[OF l assms(1)] assms(2)
    by (cases l) (simp_all add: Posix_setup_initial_connection_def)
qed

lemma recv_setup_ok:
  assumes "fds_ok opens base c w" and "pc_setup_connection_socket c < 0"
    and "Posix_recv_setup_request S env b (c, w) = Some (r, b', c', w')"
  shows "fds_ok opens base c' w'"
proof -
  obtain pr w1 where p: "wait_for_socket S (pc_setup_socket c) POLL_TIMEOUT_MS w = (pr, w1)" by fastforce
  then have w1: "opens w1 = opens w" by (metis wait_for_socket_def poll_fd snd_conv)
  then have ok1: "fds_ok opens base c w1" using assms(1) by (simp add: fds_ok_def)
  show ?thesis
  proof (cases "pc_setup_socket c < 0 \<or> pr \<le> 0")
    case True
    then show ?thesis using assms p ok1
      by (auto simp: Posix_recv_setup_request_def split: if_splits)
  next
    case False
    then obtain sock w2 where a: "sys_accept S (pc_setup_socket c) w1 = Some (sock, w2)"
      using assms(3) p
      by (cases "sys_accept S (pc_setup_socket c) w1") (auto simp: Posix_recv_setup_request_def)
    let ?c = "c\<lparr>pc_setup_connection_socket := sock\<rparr>"
    have ok2: "fds_ok opens base ?c w2" using accept_ok[OF a ok1, of ?c] assms(2) by simp
    have "0 \<le> pc_setup_socket c" "0 < pr" using False by simp_all
    from recv_setup_accepted[OF this(1) p this(2) a assms(3)]
    have "opens w' = opens w2 \<and> held c' = held ?c" using recv_fd held_other(2) by metis
    then show ?thesis using fds_ok_same[OF ok2] by metis
  qed
qed

lemma inbound_ok:
  assumes "fds_ok opens base c w" and "pc_inbound_socket c < 0" and "pc_inbound_connection_socket c < 0"
    and "Posix_setup_inbound_connection S env (c, w) = Some (ec, c', w')"
  shows "fds_ok opens base c' w'"
proof -
  obtain l w1 where l: "open_listener S (pc_transport_layer c) (pc_inbound_port c) (pc_inbound_endpoint c) w = (l, w1)"
    by fastforce
  show ?thesis
  proof (cases l)
    case None
    then show ?thesis using assms l listener_ok[OF l assms(1), of c]
      by (simp add: Posix_setup_inbound_connection_def)
  next
    case (Some sock)
    let ?c = "c\<lparr>pc_inbound_socket := sock\<rparr>"
    have ok1: "fds_ok opens base ?c w1" using listener_ok[OF l assms(1), of ?c] assms(2) Some by simp
    obtain rdy w2 where i: "inbound_wait_loop S env ?c w1 = Some (rdy, w2)"
      using assms(4) l Some by (auto simp: Posix_setup_inbound_connection_def Let_def split: bind_splits)
    have ok2: "fds_ok opens base ?c w2" using inbound_wait_fds[OF i] fds_ok_same[OF ok1] by simp
    show ?thesis
    proof (cases "\<not> rdy \<or> shutdown_seen env ?c w2")
      case True
      then show ?thesis using assms(4) l Some i ok2 fds_ok_same[OF ok2, of w2]
        by (auto simp: Posix_setup_inbound_connection_def Let_def split: if_splits)
    next
      case False
      then obtain conn w3 where a: "sys_accept S sock w2 = Some (conn, w3)"
        using assms(4) l Some i
        by (auto simp: Posix_setup_inbound_connection_def Let_def split: bind_splits)
      let ?c3 = "?c\<lparr>pc_inbound_connection_socket := conn\<rparr>"
      have ok3: "fds_ok opens base ?c3 w3" using accept_ok[OF a ok2, of ?c3] assms(3) by simp
      have "w' = w3 \<and> held c' = held ?c3"
        using assms(4) l Some i False a
        by (auto simp: Posix_setup_inbound_connection_def Let_def split: if_splits)
      then show ?thesis using fds_ok_same[OF ok3] by metis
    qed
  qed
qed

lemma outbound_ok:
  assumes "fds_ok opens base c w" and "pc_outbound_socket c < 0" and "pc_outbound_connection_socket c < 0"
    and "Posix_setup_outbound_connection S (c, w) = Some (ec, c', w')"
  shows "fds_ok opens base c' w'"
proof -
  obtain l w1 where l: "open_listener S (pc_transport_layer c) (pc_outbound_port c) (pc_outbound_endpoint c) w = (l, w1)"
    by fastforce
  show ?thesis
  proof (cases l)
    case None
    then show ?thesis using assms l listener_ok[OF l assms(1), of c]
      by (simp add: Posix_setup_outbound_connection_def)
  next
    case (Some sock)
    let ?c = "c\<lparr>pc_outbound_socket := sock\<rparr>"
    have ok1: "fds_ok opens base ?c w1" using listener_ok[OF l assms(1), of ?c] assms(2) Some by simp
    obtain conn w2 where a: "sys_accept S sock w1 = Some (conn, w2)"
      using assms(4) l Some by (auto simp: Posix_setup_outbound_connection_def split: bind_splits)
    let ?c2 = "?c\<lparr>pc_outbound_connection_socket := conn\<rparr>"
    have "fds_ok opens base ?c2 w2" using accept_ok[OF a ok1, of ?c2] assms(3) by simp
    then show ?thesis using assms(4) l Some a by (auto simp: Posix_setup_outbound_connection_def)
  qed
qed

lemma receive_ok:
  assumes "fds_ok opens base c w" and "Posix_receive S b (c, w) = Some (r, b', c', w')"
  shows "fds_ok opens base c' w'"
proof -
  have "c' = c \<and> opens w' = opens w"
    using assms(2) poll_fd
    by (auto simp: Posix_receive_def wait_for_socket_def split_beta Let_def
        split: if_splits bind_splits dest!: recv_fd)
  then show ?thesis using fds_ok_same[OF assms(1)] by metis
qed

lemma send_ok:
  assumes "fds_ok opens base c w"
  shows "Posix_send S d (c, w) = Some (ec, c', w') \<Longrightarrow> fds_ok opens base c' w'"
    and "Posix_send_response S d (c, w) = Some (ec, c', w') \<Longrightarrow> fds_ok opens base c' w'"
  using assms
  by (auto simp: Posix_send_def Posix_send_response_def fds_ok_def split: if_splits bind_splits
      dest!: send_in_chunks_fds)

lemma shutdown_ok:
  assumes "fds_ok opens base c w"
  shows "fds_ok opens base (fst (Posix_shutdown S (c, w))) (snd (Posix_shutdown S (c, w)))"
  using assms by (simp add: Posix_shutdown_def Let_def fds_ok_def)

lemma dispose_closes: "opens (snd (Posix_dispose S (c, w))) = opens w - held c"
  by (auto simp: Posix_dispose_def held_def UNUSED_SOCKET_def Let_def)

end

section \<open>Sequences of calls\<close>

datatype posix_call =
    PC_setup_initial | PC_recv_setup bytes | PC_send_response bytes | PC_setup_inbound
  | PC_receive bytes | PC_setup_outbound | PC_send bytes | PC_shutdown

fun posix_step :: "'w posix_ops \<Rightarrow> ('w \<Rightarrow> bool) \<Rightarrow> posix_call \<Rightarrow> 'w posix_state \<Rightarrow> 'w posix_state option" where
  "posix_step S env PC_setup_initial cw = Some (snd (Posix_setup_initial_connection S cw))"
| "posix_step S env (PC_recv_setup b) cw = map_option (snd \<circ> snd) (Posix_recv_setup_request S env b cw)"
| "posix_step S env (PC_send_response d) cw = map_option snd (Posix_send_response S d cw)"
| "posix_step S env PC_setup_inbound cw = map_option snd (Posix_setup_inbound_connection S env cw)"
| "posix_step S env (PC_receive b) cw = map_option (snd \<circ> snd) (Posix_receive S b cw)"
| "posix_step S env PC_setup_outbound cw = map_option snd (Posix_setup_outbound_connection S cw)"
| "posix_step S env (PC_send d) cw = map_option snd (Posix_send S d cw)"
| "posix_step S env PC_shutdown cw = Some (Posix_shutdown S cw)"

fun posix_run :: "'w posix_ops \<Rightarrow> ('w \<Rightarrow> bool) \<Rightarrow> posix_call list \<Rightarrow> 'w posix_state \<Rightarrow> 'w posix_state option" where
  "posix_run S env [] cw = Some cw"
| "posix_run S env (a # as) cw = Option.bind (posix_step S env a cw) (posix_run S env as)"

text \<open>The slots a call assigns hold no descriptor, at every call of the sequence.\<close>

fun slots_free :: "posix_call \<Rightarrow> PosixE3Connector \<Rightarrow> bool" where
  "slots_free PC_setup_initial c = (pc_setup_socket c < 0)"
| "slots_free (PC_recv_setup b) c = (pc_setup_connection_socket c < 0)"
| "slots_free PC_setup_inbound c = (pc_inbound_socket c < 0 \<and> pc_inbound_connection_socket c < 0)"
| "slots_free PC_setup_outbound c = (pc_outbound_socket c < 0 \<and> pc_outbound_connection_socket c < 0)"
| "slots_free _ c = True"

fun slots_free_run :: "'w posix_ops \<Rightarrow> ('w \<Rightarrow> bool) \<Rightarrow> posix_call list \<Rightarrow> 'w posix_state \<Rightarrow> bool" where
  "slots_free_run S env [] cw = True"
| "slots_free_run S env (a # as) cw =
     (slots_free a (fst cw) \<and>
      (case posix_step S env a cw of None \<Rightarrow> True | Some cw' \<Rightarrow> slots_free_run S env as cw'))"

context posix_descriptors
begin

lemma step_ok:
  assumes "fds_ok opens base c w" and "slots_free a c" and "posix_step S env a (c, w) = Some (c', w')"
  shows "fds_ok opens base c' w'"
  using assms
proof (cases a)
  case PC_setup_initial
  then show ?thesis using assms initial_ok[OF assms(1)] by simp
next
  case PC_shutdown
  then show ?thesis using assms shutdown_ok[OF assms(1)] by simp
qed (auto dest: recv_setup_ok[OF assms(1)] inbound_ok[OF assms(1)] outbound_ok[OF assms(1)]
      receive_ok[OF assms(1)] send_ok(1)[OF assms(1)] send_ok(2)[OF assms(1)])

lemma run_ok:
  assumes "fds_ok opens base c w" and "slots_free_run S env as (c, w)"
    and "posix_run S env as (c, w) = Some (c', w')"
  shows "fds_ok opens base c' w'"
  using assms
proof (induction as arbitrary: c w)
  case (Cons a as)
  then obtain c1 w1 where s: "posix_step S env a (c, w) = Some (c1, w1)"
    by (auto split: bind_splits)
  then have "fds_ok opens base c1 w1" using Cons.prems step_ok by auto
  then show ?case using Cons s by simp
qed simp

end

section \<open>An operating system in memory\<close>

text \<open>
  A system with byte streams per descriptor, a queue of connections waiting to be accepted (each
  with the bytes its peer has sent) and a bound on what one transfer moves, so that transfers are
  partial. It instantiates the parameter and satisfies every law above.
\<close>

record mem_world =
  mw_open :: "int list"
  mw_next :: int
  mw_backlog :: "bytes list"
  mw_in :: "int \<Rightarrow> bytes"
  mw_out :: "int \<Rightarrow> bytes"
  mw_step :: nat

definition mem_alloc :: "bytes \<Rightarrow> mem_world \<Rightarrow> int \<times> mem_world" where
  "mem_alloc d w = (\<bar>mw_next w\<bar> + sum_list (map abs (mw_open w)) + 1,
     w\<lparr> mw_open := (\<bar>mw_next w\<bar> + sum_list (map abs (mw_open w)) + 1) # mw_open w,
        mw_in := (mw_in w)(\<bar>mw_next w\<bar> + sum_list (map abs (mw_open w)) + 1 := d) \<rparr>)"

definition mem_os :: "mem_world posix_ops" where
  "mem_os =
     \<lparr> fs_errno = (\<lambda>w. EAGAIN), fs_stat = (\<lambda>f w. (0, w)), fs_mkdir = (\<lambda>f m w. (0, w)),
       fs_chmod = (\<lambda>f m w. (0, w)), fs_getgrnam = (\<lambda>g w. (None, w)),
       fs_chown_group = (\<lambda>f g w. (0, w)), fs_unlink = (\<lambda>f w. (0, w)), fs_rmdir = (\<lambda>f w. (0, w)),
       sys_socket = (\<lambda>d p w. mem_alloc [] w), sys_bind = (\<lambda>fd a w. (0, w)),
       sys_listen = (\<lambda>fd n w. (0, w)),
       sys_accept = (\<lambda>fd w. case mw_backlog w of
          [] \<Rightarrow> None | d # ds \<Rightarrow> Some (mem_alloc d (w\<lparr> mw_backlog := ds \<rparr>))),
       sys_poll = (\<lambda>fd t w. (if mw_backlog w \<noteq> [] \<or> mw_in w fd \<noteq> [] then 1 else 0, w)),
       sys_recv = (\<lambda>fd n w. if mw_in w fd = [] then None
          else let bs = take (min n (Suc (mw_step w))) (mw_in w fd)
               in Some (int (length bs), bs,
                        w\<lparr> mw_in := (mw_in w)(fd := drop (min n (Suc (mw_step w))) (mw_in w fd)) \<rparr>)),
       sys_send = (\<lambda>fd bs w. let n = min (length bs) (mw_step w + 4)
               in Some (int n, w\<lparr> mw_out := (mw_out w)(fd := mw_out w fd @ take n bs) \<rparr>)),
       sys_shutdown = (\<lambda>fd w. (0, w)),
       sys_close = (\<lambda>fd w. (0, w\<lparr> mw_open := removeAll fd (mw_open w) \<rparr>)) \<rparr>"

lemma sum_list_abs_ge: "x \<in> set xs \<Longrightarrow> x \<le> sum_list (map abs (xs :: int list))"
proof (induction xs)
  case (Cons y ys)
  have "0 \<le> sum_list (map abs ys)" by (rule sum_list_nonneg) auto
  then show ?case using Cons by auto
qed simp

lemma mem_alloc_fresh:
  assumes "mem_alloc d w = (r, w')"
  shows "0 \<le> r \<and> r \<notin> set (mw_open w) \<and> set (mw_open w') = insert r (set (mw_open w))"
proof -
  have "0 \<le> sum_list (map abs (mw_open w))" by (rule sum_list_nonneg) auto
  moreover have "r = \<bar>mw_next w\<bar> + sum_list (map abs (mw_open w)) + 1" "mw_open w' = r # mw_open w"
    using assms by (auto simp: mem_alloc_def)
  ultimately show ?thesis using sum_list_abs_ge[of r "mw_open w"] by auto
qed

interpretation mem_send: posix_sender mem_os fd "\<lambda>w. mw_out w fd" for fd
  by unfold_locales (auto simp: mem_os_def Let_def)

interpretation mem_recv: posix_receiver mem_os fd "\<lambda>w. mw_in w fd" for fd
  by unfold_locales (auto simp: mem_os_def Let_def)

interpretation mem_fds: posix_descriptors mem_os "\<lambda>w. set (mw_open w)"
proof (unfold_locales, goal_cases)
  case (1 d p w r w')
  then show ?case using mem_alloc_fresh[of "[]" w r w'] by (auto simp: mem_os_def)
next
  case (2 fd w r w')
  then obtain d ds where "mw_backlog w = d # ds" "mem_alloc d (w\<lparr>mw_backlog := ds\<rparr>) = (r, w')"
    by (auto simp: mem_os_def split: list.splits)
  then show ?case using mem_alloc_fresh[of d "w\<lparr>mw_backlog := ds\<rparr>" r w'] by auto
qed (auto simp: mem_os_def Let_def split: if_splits)

definition mem_init :: "bytes list \<Rightarrow> mem_world" where
  "mem_init backlog = \<lparr> mw_open = [0, 1, 2], mw_next = 0, mw_backlog = backlog,
     mw_in = (\<lambda>_. []), mw_out = (\<lambda>_. []), mw_step = 1 \<rparr>"

text \<open>Its connections stay up: a framed send succeeds.\<close>

lemma mem_chunk_up:
  assumes "0 \<le> k" and "k \<le> n" and "n \<le> int (length buf)"
  shows "\<exists>w'. send_chunk_loop mem_os fd buf n k w = Some (Some n, w')"
  using assms
proof (induction "nat (n - k)" arbitrary: k w rule: less_induct)
  case less
  show ?case
  proof (cases "k < n")
    case True
    let ?bs = "take (nat (n - k)) (drop (nat k) buf)" and ?r = "int (min (nat (n - k)) (mw_step w + 4))"
    have "length ?bs = nat (n - k)" using less.prems by simp
    then obtain w1 where s: "sys_send mem_os fd ?bs w = Some (?r, w1)" by (simp add: mem_os_def Let_def)
    have r: "0 < ?r" "?r \<le> n - k" using True by auto
    have "nat (n - (k + ?r)) < nat (n - k)" using r by simp
    from less.hyps[OF this, of w1] obtain w' where "send_chunk_loop mem_os fd buf n (k + ?r) w1 = Some (Some n, w')"
      using r less.prems by auto
    moreover have "send_chunk_loop mem_os fd buf n k w = send_chunk_loop mem_os fd buf n (k + ?r) w1"
      using True s r(1) by (subst send_chunk_loop.simps) simp
    ultimately show ?thesis by auto
  qed (use less.prems in \<open>subst send_chunk_loop.simps; simp\<close>)
qed

lemma mem_send_up: "\<exists>w'. send_in_chunks mem_os fd bs w = Some (0, w')"
proof -
  have "k \<le> length bs \<Longrightarrow> \<exists>w'. send_loop mem_os fd bs k w = Some (0, w')" for k w
  proof (induction "length bs - k" arbitrary: k w rule: less_induct)
    case less
    show ?case
    proof (cases "k < length bs")
      case True
      let ?n = "min CHUNK_SIZE (int (length bs - k))"
      have n: "0 < ?n" "?n \<le> int (length bs - k)" using True by (simp_all add: CHUNK_SIZE_def)
      obtain w1 where "send_chunk_loop mem_os fd (drop k bs) ?n 0 w = Some (Some ?n, w1)"
        using mem_chunk_up[of 0 ?n "drop k bs" fd w] n by auto
      then have "send_loop mem_os fd bs k w = send_loop mem_os fd bs (k + nat ?n) w1"
        using True by (subst send_loop.simps) simp
      moreover have "length bs - (k + nat ?n) < length bs - k" "k + nat ?n \<le> length bs" using n True by linarith+
      ultimately show ?thesis using less.hyps by metis
    qed (subst send_loop.simps, simp)
  qed
  moreover obtain w1 where "sys_send mem_os fd (htonl_bytes (of_nat (length bs))) w = Some (4, w1)"
    by (simp add: mem_os_def Let_def)
  ultimately show ?thesis by (simp add: send_in_chunks_def)
qed

section \<open>Properties\<close>

text \<open>
  C15: the receiver of the length prefix inverts the sender: when the frame a successful
  \<^verbatim>\<open>send_in_chunks\<close> handed over is read by \<^verbatim>\<open>recv_with_size\<close>, over any partial reads, the result is
  the data and its size, and the bytes after the frame stay in the stream. A frame that is empty
  or longer than twice the protocol's limit is refused and leaves the buffer as it was.
\<close>

theorem frame_roundtrip:
  assumes "posix_sender S fd sent" and "posix_receiver S' fd' pending"
    and "send_in_chunks S fd data w = Some (0, w')" and "length data < 4294967296"
    and "pending v = drop (length (sent w)) (sent w') @ rest"
  shows "\<exists>v'. recv_with_size S' fd' buffer v =
    (if 0 < length data \<and> length data \<le> 65536 then Some (int (length data), data, v')
     else Some (error_code_to_int TRANSPORT_ERROR, buffer, v')) \<and>
    pending v' = (if 0 < length data \<and> length data \<le> 65536 then rest else data @ rest)"
proof -
  let ?h = "htonl_bytes (of_nat (length data))"
  have "sent w' = sent w @ ?h @ data"
    using posix_sender.send_frame[OF assms(1,3)] by auto
  then have p: "pending v = ?h @ data @ rest" using assms(5) by simp
  have len: "length data = unat (ntohl_bytes ?h)" using assms(4) by simp
  show ?thesis
    using posix_receiver.recv_frame[OF assms(2) length_htonl p len, of buffer]
    by (auto simp: MAX_PROTOCOL_DATA_SIZE_def split: if_splits)
qed

theorem frame_roundtrip_witness:
  "\<exists>v'. recv_with_size mem_os 3 [] (mem_init []\<lparr> mw_in := (\<lambda>_. [0, 0, 0, 2, 65, 66, 99]) \<rparr>) =
     Some (2, [65, 66], v') \<and> mw_in v' 3 = [99]"
proof -
  obtain w' where w': "send_in_chunks mem_os 5 [65, 66] (mem_init []) = Some (0, w')"
    "mw_out w' 5 = [0, 0, 0, 2, 65, 66]"
    by (simp add: send_in_chunks_def mem_os_def mem_init_def htonl_bytes_def Let_def CHUNK_SIZE_def
        send_loop.simps send_chunk_loop.simps)
  have "mw_in (mem_init []\<lparr> mw_in := (\<lambda>_. [0, 0, 0, 2, 65, 66, 99]) \<rparr>) 3 =
      drop (length (mw_out (mem_init []) 5)) (mw_out w' 5) @ [99]"
    using w'(2) by (simp add: mem_init_def)
  from frame_roundtrip[OF mem_send.posix_sender_axioms mem_recv.posix_receiver_axioms w'(1) _ this, of "[]"]
  show ?thesis by simp
qed

text \<open>
  C16: no descriptor is leaked and none closed that the connector does not own: after any calls on
  a new connector, each made while the slots it fills hold no descriptor, \<^verbatim>\<open>dispose\<close> leaves exactly
  the descriptors open that were open before the connector was made.
\<close>

theorem posix_dispose_no_leak:
  assumes "posix_descriptors S opens"
    and "c = new_PosixE3Connector t e1 e2 e3 p1 p2 p3"
    and "slots_free_run S env calls (c, w)"
    and "posix_run S env calls (c, w) = Some cw'"
  shows "opens (snd (Posix_dispose S cw')) = opens w \<and> held (fst (Posix_dispose S cw')) = {}"
proof -
  obtain c' w' where cw: "cw' = (c', w')" by fastforce
  have "fds_ok opens (opens w) c w"
    by (auto simp: fds_ok_def held_def assms(2) new_PosixE3Connector_def UNUSED_SOCKET_def)
  from posix_descriptors.run_ok[OF assms(1) this assms(3)] assms(4) cw
  have ok: "fds_ok opens (opens w) c' w'" by simp
  have "opens (snd (Posix_dispose S (c', w'))) = opens w' - held c'"
    by (rule posix_descriptors.dispose_closes[OF assms(1)])
  then have "opens (snd (Posix_dispose S cw')) = opens w"
    using ok cw by (auto simp: fds_ok_def)
  moreover have "held (fst (Posix_dispose S cw')) = {}"
    by (auto simp: cw Posix_dispose_def Let_def held_def UNUSED_SOCKET_def)
  ultimately show ?thesis by simp
qed

theorem posix_dispose_no_leak_witness:
  "\<exists>cw'. posix_run mem_os (\<lambda>_. False) [PC_setup_initial, PC_recv_setup [], PC_send [2], PC_shutdown]
       (new_PosixE3Connector TCP [] [] [] 1 2 3, mem_init [[5]]) = Some cw'
     \<and> set (mw_open (snd (Posix_dispose mem_os cw'))) = {0, 1, 2}"
proof -
  let ?c = "new_PosixE3Connector TCP [] [] [] 1 2 3" and ?w = "mem_init [[5]]"
  let ?as = "[PC_setup_initial, PC_recv_setup [], PC_send [2], PC_shutdown]"
  have "slots_free_run mem_os (\<lambda>_. False) ?as (?c, ?w) \<and> posix_run mem_os (\<lambda>_. False) ?as (?c, ?w) \<noteq> None"
    by (simp add: posix_op_defs Posix_shutdown_def mem_os_def mem_init_def mem_alloc_def
        open_listener_def open_and_bind_def ensure_ipc_dir_def wait_for_socket_def
        new_PosixE3Connector_def UNUSED_SOCKET_def Let_def)
  then obtain cw' where "posix_run mem_os (\<lambda>_. False) ?as (?c, ?w) = Some cw'"
    "slots_free_run mem_os (\<lambda>_. False) ?as (?c, ?w)" by blast
  then show ?thesis
    using posix_dispose_no_leak[OF mem_fds.posix_descriptors_axioms refl] by (fastforce simp: mem_init_def)
qed

text \<open>
  A second setup request leaks the first one's connection: \<^verbatim>\<open>recv_setup_request\<close> overwrites the
  descriptor of the accepted connection without closing it, so the descriptor is still open after
  \<^verbatim>\<open>dispose\<close> and no field of the connector refers to it.
\<close>

lemma second_setup_request_leaks:
  assumes "posix_descriptors S opens"
    and "pc_setup_connection_socket c = fd" and "fd \<in> opens w" and "0 \<le> pc_setup_socket c"
    and "fd \<notin> held (c\<lparr> pc_setup_connection_socket := UNUSED_SOCKET \<rparr>)"
    and "sys_poll S (pc_setup_socket c) POLL_TIMEOUT_MS w = (1, w1)"
    and "Posix_recv_setup_request S env b (c, w) = Some (r, b', c', w')"
  shows "fd \<notin> held c' \<and> fd \<in> opens (snd (Posix_dispose S (c', w')))"
proof -
  have w1: "opens w1 = opens w" using posix_descriptors.poll_fd[OF assms(1)] assms(6) by (metis snd_conv)
  obtain s w2 where a: "sys_accept S (pc_setup_socket c) w1 = Some (s, w2)"
    using assms(4,6,7)
    by (cases "sys_accept S (pc_setup_socket c) w1")
      (auto simp: Posix_recv_setup_request_def wait_for_socket_def)
  let ?c = "c\<lparr> pc_setup_connection_socket := s \<rparr>"
  have fd: "fd \<noteq> s \<or> s < 0" "fd \<in> opens w2"
    using posix_descriptors.accept_fd[OF assms(1) a] assms(3) w1 by auto
  have "wait_for_socket S (pc_setup_socket c) POLL_TIMEOUT_MS w = (1, w1)"
    using assms(6) by (simp add: wait_for_socket_def)
  from recv_setup_accepted[OF assms(4) this zero_less_one a assms(7)]
  have "opens w' = opens w2 \<and> held c' = held ?c"
    using posix_descriptors.recv_fd[OF assms(1)] held_other(2) by metis
  moreover have "fd \<notin> held ?c"
    using fd(1) assms(5) by (auto simp: held_def UNUSED_SOCKET_def)
  ultimately show ?thesis
    using posix_descriptors.dispose_closes[OF assms(1), of c' w'] fd(2) by auto
qed

lemma second_setup_request_leaks_witness:
  "let c = (new_PosixE3Connector TCP [] [] [] 1 2 3)\<lparr> pc_setup_socket := 4, pc_setup_connection_socket := 8 \<rparr>;
       w = (mem_init [[5]])\<lparr> mw_open := [8, 4, 2, 1, 0] \<rparr>
   in \<exists>r b' cw'. Posix_recv_setup_request mem_os (\<lambda>_. False) [] (c, w) = Some (r, b', cw')
        \<and> 8 \<in> set (mw_open (snd (Posix_dispose mem_os cw')))"
proof -
  let ?c = "(new_PosixE3Connector TCP [] [] [] 1 2 3)\<lparr> pc_setup_socket := 4, pc_setup_connection_socket := 8 \<rparr>"
  let ?w = "(mem_init [[5]])\<lparr> mw_open := [8, 4, 2, 1, 0] \<rparr>"
  obtain r b' c' w' where r: "Posix_recv_setup_request mem_os (\<lambda>_. False) [] (?c, ?w) = Some (r, b', c', w')"
    by (simp add: posix_op_defs mem_os_def mem_init_def mem_alloc_def wait_for_socket_def Let_def
        new_PosixE3Connector_def)
  have "8 \<in> set (mw_open (snd (Posix_dispose mem_os (c', w'))))"
    using second_setup_request_leaks[OF mem_fds.posix_descriptors_axioms _ _ _ _ _ r, of 8 ?w]
    by (simp add: mem_os_def mem_init_def held_def UNUSED_SOCKET_def new_PosixE3Connector_def)
  then show ?thesis using r unfolding Let_def by blast
qed

text \<open>
  C33: a shutdown ends the wait for the inbound connection: when the polls of the listening socket
  time out and another thread requests the shutdown during the n-th, the call returns CANCELLED
  after at most n polls with the flag set. The outbound set-up has no such wait: it returns exactly
  if its blocking \<^verbatim>\<open>accept\<close> does, whatever the flag.
\<close>

theorem inbound_setup_cancelled:
  assumes "open_listener S (pc_transport_layer c) (pc_inbound_port c) (pc_inbound_endpoint c) w = (Some sock, v 0)"
    and "\<forall>i < n. sys_poll S sock POLL_TIMEOUT_MS (v i) = (0, v (Suc i))"
    and "env (v n)"
    and "open_listener S (pc_transport_layer c) (pc_outbound_port c) (pc_outbound_endpoint c) w = (Some sock', w1)"
  shows "(\<exists>k c'. k \<le> n \<and> Posix_setup_inbound_connection S env (c, w) = Some (CANCELLED, c', v k)
      \<and> pc_shutdown_requested c')
    \<and> (Posix_setup_outbound_connection S (c, w) = None \<longleftrightarrow> sys_accept S sock' w1 = None)"
proof -
  let ?c = "c\<lparr> pc_inbound_socket := sock \<rparr>"
  have "i \<le> n \<Longrightarrow> \<exists>k \<le> n. inbound_wait_loop S env ?c (v i) = Some (True, v k) \<and> shutdown_seen env ?c (v k)" for i
  proof (induction "n - i" arbitrary: i)
    case 0
    then show ?case using assms(3) by (subst inbound_wait_loop.simps) (auto simp: shutdown_seen_def)
  next
    case (Suc m)
    then have "\<exists>k \<le> n. inbound_wait_loop S env ?c (v (Suc i)) = Some (True, v k) \<and> shutdown_seen env ?c (v k)"
      by simp
    then show ?case using Suc.prems Suc.hyps(2) assms(2)
      by (subst inbound_wait_loop.simps) (auto simp: wait_for_socket_def)
  qed
  from this[of 0] obtain k where k: "k \<le> n" "inbound_wait_loop S env ?c (v 0) = Some (True, v k)"
    "shutdown_seen env ?c (v k)" by auto
  have "Posix_setup_inbound_connection S env (c, w) = Some (CANCELLED, sync_shutdown env (v k) ?c, v k)"
    using assms(1) k by (simp add: Posix_setup_inbound_connection_def)
  moreover have "pc_shutdown_requested (sync_shutdown env (v k) ?c)" using k(3) by (simp add: sync_shutdown_def)
  moreover have "Posix_setup_outbound_connection S (c, w) = None \<longleftrightarrow> sys_accept S sock' w1 = None"
    using assms(4) by (auto simp: Posix_setup_outbound_connection_def split: bind_splits)
  ultimately show ?thesis using k(1) by blast
qed

theorem inbound_setup_cancelled_witness:
  "\<exists>k c'. k \<le> (2 :: nat) \<and> Posix_setup_inbound_connection
       (mem_os\<lparr> sys_poll := (\<lambda>fd t w. (0, w\<lparr> mw_next := mw_next w + 1 \<rparr>)) \<rparr>) (\<lambda>w. mw_next w = 2)
       (new_PosixE3Connector TCP [] [] [] 1 2 3, mem_init [])
     = Some (CANCELLED, c', (snd (mem_alloc [] (mem_init [])))\<lparr> mw_next := int k \<rparr>) \<and> pc_shutdown_requested c'"
proof -
  let ?S = "mem_os\<lparr> sys_poll := (\<lambda>fd t w. (0, w\<lparr> mw_next := mw_next w + 1 \<rparr>)) \<rparr>"
  let ?c = "new_PosixE3Connector TCP [] [] [] 1 2 3"
  let ?v = "\<lambda>k :: nat. (snd (mem_alloc [] (mem_init [])))\<lparr> mw_next := int k \<rparr>"
  have "open_listener ?S (pc_transport_layer ?c) p e (mem_init []) = (Some 4, ?v 0)" for p e
    by (simp add: mem_os_def mem_init_def mem_alloc_def open_listener_def open_and_bind_def
        ensure_ipc_dir_def new_PosixE3Connector_def)
  moreover have "\<forall>i < 2. sys_poll ?S 4 POLL_TIMEOUT_MS (?v i) = (0, ?v (Suc i))" by simp
  ultimately show ?thesis
    using inbound_setup_cancelled[of ?S ?c "mem_init []" 4 ?v 2 "\<lambda>w. mw_next w = 2" 4 "?v 0"] by simp
qed

end
