(* ===== verification/Zmq_Connector.thy ===== *)
theory Zmq_Connector
  imports E3_Connector
begin

text \<open>
  \<^verbatim>\<open>src/connector/zmq_connector.cpp\<close> and \<^verbatim>\<open>zmq_connector.hpp\<close>: the connector over ZeroMQ. The
  functions of libzmq are the parameter \<open>zmq_ops\<close> over a state of the library and the operating
  system; a context or socket pointer is a handle, None for the null pointer. What the library's
  manual promises is stated in the locales \<open>zmq_messages\<close> and \<open>zmq_sockets\<close>, and a library in memory
  shows that the laws can hold.
\<close>

section \<open>Library calls\<close>

datatype zmq_socket_type = ZMQ_REP | ZMQ_SUB | ZMQ_PUB
datatype zmq_option = ZMQ_RCVTIMEO int | ZMQ_SUBSCRIBE string | ZMQ_CONFLATE int

type_synonym handle = nat

text \<open>
  \<open>z_recv\<close> returns the size of the message and the bytes it wrote into the buffer;
  \<open>z_ctx_destroy\<close> waits for its sockets to be closed and for unsent messages, None if for ever.
\<close>

record 'w zmq_ops = "'w fs_ops" +
  z_ctx_new :: "'w \<Rightarrow> handle option \<times> 'w"
  z_ctx_set_io_threads :: "handle \<Rightarrow> int \<Rightarrow> 'w \<Rightarrow> int \<times> 'w"
  z_ctx_destroy :: "handle \<Rightarrow> 'w \<Rightarrow> 'w option"
  z_socket :: "handle \<Rightarrow> zmq_socket_type \<Rightarrow> 'w \<Rightarrow> handle option \<times> 'w"
  z_setsockopt :: "handle \<Rightarrow> zmq_option \<Rightarrow> 'w \<Rightarrow> int \<times> 'w"
  z_bind :: "handle \<Rightarrow> string \<Rightarrow> 'w \<Rightarrow> int \<times> 'w"
  z_recv :: "handle \<Rightarrow> nat \<Rightarrow> 'w \<Rightarrow> (int \<times> bytes \<times> 'w) option"
  z_send :: "handle \<Rightarrow> bytes \<Rightarrow> 'w \<Rightarrow> (int \<times> 'w) option"
  z_close :: "handle \<Rightarrow> 'w \<Rightarrow> int \<times> 'w"

section \<open>State\<close>

record ZmqE3Connector =
  zc_transport_layer :: E3TransportLayer
  zc_io_threads :: size_t
  zc_setup_endpoint :: string
  zc_inbound_endpoint :: string
  zc_outbound_endpoint :: string
  zc_setup_port :: u16
  zc_inbound_port :: u16
  zc_outbound_port :: u16
  zc_context :: "handle option"
  zc_setup_socket :: "handle option"
  zc_inbound_socket :: "handle option"
  zc_outbound_socket :: "handle option"
  zc_connected :: bool

definition RECV_TIMEOUT_MS :: int where
  "RECV_TIMEOUT_MS = 500"

text \<open>\<^verbatim>\<open>std::to_string\<close> of an unsigned integer.\<close>

fun decimal :: "nat \<Rightarrow> string" where
  "decimal n = (if n < 10 then [char_of (48 + n)] else decimal (n div 10) @ [char_of (48 + n mod 10)])"

declare decimal.simps [simp del]

definition new_ZmqE3Connector ::
    "E3TransportLayer \<Rightarrow> string \<Rightarrow> string \<Rightarrow> string \<Rightarrow> u16 \<Rightarrow> u16 \<Rightarrow> u16 \<Rightarrow> size_t \<Rightarrow> ZmqE3Connector" where
  "new_ZmqE3Connector transport setup_ep inbound_ep outbound_ep setup_pt inbound_pt outbound_pt io_threads =
     (let ep = (\<lambda>e p. if transport = TCP then ''tcp://*:'' @ decimal (unat p) else e)
      in \<lparr> zc_transport_layer = transport, zc_io_threads = io_threads,
           zc_setup_endpoint = ep setup_ep setup_pt,
           zc_inbound_endpoint = ep inbound_ep inbound_pt,
           zc_outbound_endpoint = ep outbound_ep outbound_pt,
           zc_setup_port = setup_pt, zc_inbound_port = inbound_pt, zc_outbound_port = outbound_pt,
           zc_context = None, zc_setup_socket = None, zc_inbound_socket = None,
           zc_outbound_socket = None, zc_connected = False \<rparr>)"

section \<open>Operations\<close>

type_synonym 'w zmq_state = "ZmqE3Connector \<times> 'w"

definition ipc_prefix :: string where
  "ipc_prefix = ''ipc://''"

definition setup_ipc_permissions :: "'w zmq_ops \<Rightarrow> string \<Rightarrow> 'w \<Rightarrow> 'w" where
  "setup_ipc_permissions Z endpoint w =
     (if take (length ipc_prefix) endpoint \<noteq> ipc_prefix then w
      else snd (fs_chmod Z (c_str (drop (length ipc_prefix) endpoint)) 438 w))"

definition ipc_permissions :: "'w zmq_ops \<Rightarrow> ZmqE3Connector \<Rightarrow> string \<Rightarrow> 'w \<Rightarrow> 'w" where
  "ipc_permissions Z c endpoint w =
     (if zc_transport_layer c = IPC then setup_ipc_permissions Z endpoint w else w)"

text \<open>The part of \<^verbatim>\<open>setup_initial_connection\<close> that creates the directory; True is the early return.\<close>

definition zmq_ipc_dir :: "'w zmq_ops \<Rightarrow> ZmqE3Connector \<Rightarrow> 'w \<Rightarrow> bool \<times> 'w" where
  "zmq_ipc_dir Z c w =
     (if zc_transport_layer c = IPC then
        let (st, w) = fs_stat Z IPC_BASE_DIR w;
            (failed, w) =
              (if st = -1 then let (md, w) = fs_mkdir Z IPC_BASE_DIR 511 w in (md = -1, w)
               else (False, w))
        in if failed then (True, w)
           else
             let w = snd (fs_chmod Z IPC_BASE_DIR 511 w);
                 (grp, w) = fs_getgrnam Z ''dapp'' w;
                 w = (case grp of None \<Rightarrow> w | Some gid \<Rightarrow> snd (fs_chown_group Z IPC_BASE_DIR gid w))
             in (False, w)
      else (False, w))"

text \<open>\<^verbatim>\<open>static_cast<int>(io_threads_)\<close> keeps the low 32 bits.\<close>

definition Zmq_setup_initial_connection ::
    "'w zmq_ops \<Rightarrow> 'w zmq_state \<Rightarrow> (ErrorCode \<times> 'w zmq_state) option" where
  "Zmq_setup_initial_connection Z cw =
     (let (c, w) = cw;
          (ctx, w) = z_ctx_new Z w;
          c = c\<lparr> zc_context := ctx \<rparr>
      in case ctx of
           None \<Rightarrow> Some (CONNECTION_FAILED, c, w)
         | Some h \<Rightarrow>
             let (ret, w) = z_ctx_set_io_threads Z h (sint (ucast (zc_io_threads c) :: 32 word)) w in
             if ret \<noteq> 0 then
               do { w \<leftarrow> z_ctx_destroy Z h w;
                    Some (CONNECTION_FAILED, c\<lparr> zc_context := None \<rparr>, w) }
             else
               let (failed, w) = zmq_ipc_dir Z c w in
               if failed then Some (CONNECTION_FAILED, c, w)
               else
                 let (sock, w) = z_socket Z h ZMQ_REP w;
                     c = c\<lparr> zc_setup_socket := sock \<rparr>
                 in case sock of
                      None \<Rightarrow> Some (CONNECTION_FAILED, c, w)
                    | Some s \<Rightarrow>
                        let w = snd (z_setsockopt Z s (ZMQ_RCVTIMEO RECV_TIMEOUT_MS) w);
                            (ret, w) = z_bind Z s (c_str (zc_setup_endpoint c)) w
                        in if ret \<noteq> 0 then Some (CONNECTION_FAILED, c, w)
                           else
                             let w = ipc_permissions Z c (zc_setup_endpoint c) w
                             in Some (SUCCESS, c\<lparr> zc_connected := True \<rparr>, w))"

definition reset_setup_socket :: "'w zmq_ops \<Rightarrow> 'w zmq_state \<Rightarrow> bool \<times> 'w zmq_state" where
  "reset_setup_socket Z cw =
     (let (c, w) = cw;
          w = (case zc_setup_socket c of Some s \<Rightarrow> snd (z_close Z s w) | None \<Rightarrow> w);
          c = c\<lparr> zc_setup_socket := None \<rparr>
      in case zc_context c of
           None \<Rightarrow> (False, c, w)
         | Some h \<Rightarrow>
             let (sock, w) = z_socket Z h ZMQ_REP w in
             case sock of
               None \<Rightarrow> (False, c, w)
             | Some s \<Rightarrow>
                 let w = snd (z_setsockopt Z s (ZMQ_RCVTIMEO RECV_TIMEOUT_MS) w);
                     (ret, w) = z_bind Z s (c_str (zc_setup_endpoint c)) w
                 in if ret \<noteq> 0 then (False, c, snd (z_close Z s w))
                    else (True, c\<lparr> zc_setup_socket := Some s \<rparr>,
                          ipc_permissions Z c (zc_setup_endpoint c) w))"

definition Zmq_recv_setup_request ::
    "'w zmq_ops \<Rightarrow> bytes \<Rightarrow> 'w zmq_state \<Rightarrow> (int \<times> bytes \<times> 'w zmq_state) option" where
  "Zmq_recv_setup_request Z buffer cw =
     (let (c, w) = cw in
      case zc_setup_socket c of
        None \<Rightarrow> Some (error_code_to_int NOT_CONNECTED, buffer, c, w)
      | Some s \<Rightarrow> do {
          let buffer = vec_resize DEFAULT_BUFFER_SIZE buffer;
          (ret, bs, w) \<leftarrow> z_recv Z s (length buffer) w;
          if ret < 0 then
            if fs_errno Z w = EAGAIN then Some (0, buffer, c, w)
            else Some (error_code_to_int TRANSPORT_ERROR, buffer, snd (reset_setup_socket Z (c, w)))
          else Some (ret, vec_resize (nat ret) (write_at 0 bs buffer), c, w)
        })"

definition Zmq_send_response ::
    "'w zmq_ops \<Rightarrow> bytes \<Rightarrow> 'w zmq_state \<Rightarrow> (ErrorCode \<times> 'w zmq_state) option" where
  "Zmq_send_response Z data cw =
     (let (c, w) = cw in
      case zc_setup_socket c of
        None \<Rightarrow> Some (NOT_CONNECTED, c, w)
      | Some s \<Rightarrow> do {
          (ret, w) \<leftarrow> z_send Z s data w;
          if ret < 0 then Some (TRANSPORT_ERROR, snd (reset_setup_socket Z (c, w)))
          else Some (SUCCESS, c, w)
        })"

definition Zmq_setup_inbound_connection ::
    "'w zmq_ops \<Rightarrow> 'w zmq_state \<Rightarrow> ErrorCode \<times> 'w zmq_state" where
  "Zmq_setup_inbound_connection Z cw =
     (let (c, w) = cw in
      case zc_context c of
        None \<Rightarrow> (NOT_INITIALIZED, c, w)
      | Some h \<Rightarrow>
          let (sock, w) = z_socket Z h ZMQ_SUB w;
              c = c\<lparr> zc_inbound_socket := sock \<rparr>
          in case sock of
               None \<Rightarrow> (CONNECTION_FAILED, c, w)
             | Some s \<Rightarrow>
                 let w = snd (z_setsockopt Z s (ZMQ_SUBSCRIBE []) w);
                     w = snd (z_setsockopt Z s (ZMQ_CONFLATE 1) w);
                     w = snd (z_setsockopt Z s (ZMQ_RCVTIMEO RECV_TIMEOUT_MS) w);
                     (ret, w) = z_bind Z s (c_str (zc_inbound_endpoint c)) w
                 in if ret \<noteq> 0 then (CONNECTION_FAILED, c, w)
                    else (SUCCESS, c, ipc_permissions Z c (zc_inbound_endpoint c) w))"

definition Zmq_receive ::
    "'w zmq_ops \<Rightarrow> bytes \<Rightarrow> 'w zmq_state \<Rightarrow> (int \<times> bytes \<times> 'w zmq_state) option" where
  "Zmq_receive Z buffer cw =
     (let (c, w) = cw in
      case zc_inbound_socket c of
        None \<Rightarrow> Some (error_code_to_int NOT_CONNECTED, buffer, c, w)
      | Some s \<Rightarrow> do {
          let buffer = vec_resize DEFAULT_BUFFER_SIZE buffer;
          (ret, bs, w) \<leftarrow> z_recv Z s (length buffer) w;
          if ret < 0 then
            if fs_errno Z w = EAGAIN then Some (0, buffer, c, w)
            else Some (error_code_to_int TRANSPORT_ERROR, buffer, c, w)
          else Some (ret, vec_resize (nat ret) (write_at 0 bs buffer), c, w)
        })"

definition Zmq_setup_outbound_connection ::
    "'w zmq_ops \<Rightarrow> 'w zmq_state \<Rightarrow> ErrorCode \<times> 'w zmq_state" where
  "Zmq_setup_outbound_connection Z cw =
     (let (c, w) = cw in
      case zc_context c of
        None \<Rightarrow> (NOT_INITIALIZED, c, w)
      | Some h \<Rightarrow>
          let (sock, w) = z_socket Z h ZMQ_PUB w;
              c = c\<lparr> zc_outbound_socket := sock \<rparr>
          in case sock of
               None \<Rightarrow> (CONNECTION_FAILED, c, w)
             | Some s \<Rightarrow>
                 let (ret, w) = z_bind Z s (c_str (zc_outbound_endpoint c)) w
                 in if ret \<noteq> 0 then (CONNECTION_FAILED, c, w)
                    else (SUCCESS, c, ipc_permissions Z c (zc_outbound_endpoint c) w))"

definition Zmq_send ::
    "'w zmq_ops \<Rightarrow> bytes \<Rightarrow> 'w zmq_state \<Rightarrow> (ErrorCode \<times> 'w zmq_state) option" where
  "Zmq_send Z data cw =
     (let (c, w) = cw in
      case zc_outbound_socket c of
        None \<Rightarrow> Some (NOT_CONNECTED, c, w)
      | Some s \<Rightarrow> do {
          (ret, w) \<leftarrow> z_send Z s data w;
          Some (if ret < 0 then TRANSPORT_ERROR else SUCCESS, c, w)
        })"

definition extract_path :: "string \<Rightarrow> string" where
  "extract_path endpoint =
     (if take (length ipc_prefix) endpoint = ipc_prefix then drop (length ipc_prefix) endpoint else [])"

definition unlink_endpoint :: "'w zmq_ops \<Rightarrow> string \<Rightarrow> 'w \<Rightarrow> 'w" where
  "unlink_endpoint Z endpoint w =
     (if extract_path endpoint = [] then w else snd (fs_unlink Z (c_str (extract_path endpoint)) w))"

definition close_socket :: "'w zmq_ops \<Rightarrow> handle option \<Rightarrow> 'w \<Rightarrow> 'w" where
  "close_socket Z sock w = (case sock of Some s \<Rightarrow> snd (z_close Z s w) | None \<Rightarrow> w)"

definition Zmq_dispose :: "'w zmq_ops \<Rightarrow> 'w zmq_state \<Rightarrow> 'w zmq_state option" where
  "Zmq_dispose Z cw =
     (let (c, w) = cw;
          w = close_socket Z (zc_setup_socket c) w;
          w = close_socket Z (zc_inbound_socket c) w;
          w = close_socket Z (zc_outbound_socket c) w
      in do {
        w \<leftarrow> (case zc_context c of Some h \<Rightarrow> z_ctx_destroy Z h w | None \<Rightarrow> Some w);
        let w = (if zc_transport_layer c = IPC then
                   let w = unlink_endpoint Z (zc_setup_endpoint c) w;
                       w = unlink_endpoint Z (zc_inbound_endpoint c) w;
                       w = unlink_endpoint Z (zc_outbound_endpoint c) w
                   in snd (fs_rmdir Z IPC_BASE_DIR w)
                 else w);
        Some (c\<lparr> zc_setup_socket := None, zc_inbound_socket := None, zc_outbound_socket := None,
                zc_context := None, zc_connected := False \<rparr>, w)
      })"

definition Zmq_shutdown :: "'w zmq_state \<Rightarrow> 'w zmq_state" where
  "Zmq_shutdown cw = cw"

definition ZmqE3Connector_ops :: "'w zmq_ops \<Rightarrow> 'w zmq_state connector_ops" where
  "ZmqE3Connector_ops Z =
     \<lparr> conn_setup_initial_connection = Zmq_setup_initial_connection Z,
       conn_recv_setup_request = Zmq_recv_setup_request Z,
       conn_send_response = Zmq_send_response Z,
       conn_setup_inbound_connection = (\<lambda>cw. Some (Zmq_setup_inbound_connection Z cw)),
       conn_receive = Zmq_receive Z,
       conn_setup_outbound_connection = (\<lambda>cw. Some (Zmq_setup_outbound_connection Z cw)),
       conn_send = Zmq_send Z,
       conn_dispose = Zmq_dispose Z,
       conn_shutdown = Zmq_shutdown,
       conn_link_layer = (\<lambda>cw. ZMQ),
       conn_transport_layer = (\<lambda>cw. zc_transport_layer (fst cw)),
       conn_is_connected = (\<lambda>cw. zc_connected (fst cw)) \<rparr>"

section \<open>The connector's contract\<close>

lemmas zmq_op_defs =
  ZmqE3Connector_ops_def Zmq_setup_initial_connection_def Zmq_recv_setup_request_def
  Zmq_receive_def Zmq_send_def Zmq_send_response_def Zmq_dispose_def

interpretation zmq: connector_contract "ZmqE3Connector_ops Z" for Z :: "'w zmq_ops"
proof (unfold_locales, goal_cases)
  case 1
  then show ?case
    by (auto simp: zmq_op_defs Let_def split: if_splits prod.splits bind_splits option.splits)
next
  case 2
  then show ?case
    by (auto simp: zmq_op_defs Let_def split: if_splits prod.splits bind_splits option.splits)
next
  case 3
  then show ?case
    by (auto simp: zmq_op_defs Let_def error_code_of_int_def LIBE3_ERROR_CODE_LIST_def
        split: if_splits prod.splits bind_splits option.splits)
next
  case 4
  then show ?case
    by (auto simp: zmq_op_defs Let_def error_code_of_int_def LIBE3_ERROR_CODE_LIST_def
        split: if_splits prod.splits bind_splits option.splits)
next
  case 5
  then show ?case
    by (auto simp: zmq_op_defs Let_def split: if_splits prod.splits bind_splits option.splits)
qed (auto simp: zmq_op_defs Let_def split: prod.splits bind_splits option.splits)

section \<open>Messages\<close>

text \<open>
  \<^verbatim>\<open>zmq_recv\<close> as its manual has it: the next message is taken from the socket's queue \<open>inbox\<close>, cut to the
  size of the buffer, and the value returned is the size of the whole message. \<open>arrive s m\<close> is what the
  library does when a message comes in from a peer: on a socket with the option \<^verbatim>\<open>ZMQ_CONFLATE\<close> it
  replaces whatever is queued.
\<close>

locale zmq_messages =
  fixes Z :: "'w zmq_ops" and inbox :: "handle \<Rightarrow> 'w \<Rightarrow> bytes list"
    and conflated :: "handle \<Rightarrow> 'w \<Rightarrow> bool" and arrive :: "handle \<Rightarrow> bytes \<Rightarrow> 'w \<Rightarrow> 'w"
  assumes recv_message: "inbox s w = m # ms \<Longrightarrow>
    \<exists>w'. z_recv Z s n w = Some (int (length m), take n m, w') \<and> inbox s w' = ms"
    and set_conflate: "conflated s (snd (z_setsockopt Z s (ZMQ_CONFLATE 1) w))"
    and set_timeout: "conflated s w \<Longrightarrow> conflated s (snd (z_setsockopt Z s (ZMQ_RCVTIMEO msec) w))"
    and bind_conflated: "conflated s w \<Longrightarrow> conflated s (snd (z_bind Z s e w))"
    and chmod_conflated: "conflated s w \<Longrightarrow> conflated s (snd (fs_chmod Z f mode w))"
    and arrive_conflated: "conflated s w \<Longrightarrow> conflated s (arrive s m w)"
    and arrive_latest: "conflated s w \<Longrightarrow> inbox s (arrive s m w) = [m]"
begin

lemma inbound_conflated:
  assumes "Zmq_setup_inbound_connection Z (c, w) = (SUCCESS, c', w')" and "zc_inbound_socket c' = Some s"
  shows "conflated s w'"
proof -
  have perm: "conflated s w \<Longrightarrow> conflated s (ipc_permissions Z c e w)" for c e w
    by (simp add: ipc_permissions_def setup_ipc_permissions_def chmod_conflated)
  show ?thesis
    using assms by (auto simp: Zmq_setup_inbound_connection_def split_beta Let_def split: option.splits if_splits
        intro!: perm bind_conflated set_timeout set_conflate)
qed

lemma arrivals_conflated: "conflated s w \<Longrightarrow> conflated s (fold (arrive s) ms w)"
  by (induction ms arbitrary: w) (simp_all add: arrive_conflated)

lemma arrivals_latest: "conflated s w \<Longrightarrow> inbox s (fold (arrive s) (ms @ [m]) w) = [m]"
  by (simp add: arrive_latest arrivals_conflated)

text \<open>The buffer after \<^verbatim>\<open>resize(ret)\<close>: the message, or its head and zeros up to its size.\<close>

lemma received_buffer:
  assumes "length b = n"
  shows "vec_resize (length m) (write_at 0 (take n m) b) =
    (if length m \<le> n then m else take n m @ replicate (length m - n) 0)"
  using assms by (auto simp: vec_resize_def write_at_def)

end

section \<open>Sockets\<close>

text \<open>
  What the manual promises of sockets: \<^verbatim>\<open>zmq_socket\<close> adds one socket to its context,
  \<^verbatim>\<open>zmq_close\<close> closes one, a new context has none. \<^verbatim>\<open>zmq_ctx_destroy\<close> waits for the sockets of the context to
  be closed and for the messages that were sent on them and are not transferred yet: the option
  \<^verbatim>\<open>ZMQ_LINGER\<close>, which the connector does not set, keeps them without limit of time by default, and
  \<^verbatim>\<open>zmq_close\<close> does not drop them. \<open>unsent\<close> says that a context has messages no peer takes any more;
  None is the call that does not return.
\<close>

locale zmq_sockets =
  fixes Z :: "'w zmq_ops" and socks :: "handle \<Rightarrow> 'w \<Rightarrow> handle set" and unsent :: "handle \<Rightarrow> 'w \<Rightarrow> bool"
  assumes new_context: "z_ctx_new Z w = (Some h, w') \<Longrightarrow> socks h w' = {} \<and> \<not> unsent h w'"
    and new_socket: "z_socket Z h t w = (so, w') \<Longrightarrow>
      socks h w' = set_option so \<union> socks h w \<and> set_option so \<inter> socks h w = {}"
    and close_socket [simp]: "socks h (snd (z_close Z s w)) = socks h w - {s}"
    and close_unsent [simp]: "unsent h (snd (z_close Z s w)) = unsent h w"
    and destroy_blocks: "z_ctx_destroy Z h w = None \<longleftrightarrow> socks h w \<noteq> {} \<or> unsent h w"
    and set_threads [simp]: "socks h (snd (z_ctx_set_io_threads Z h' k w)) = socks h w"
    and threads_unsent [simp]: "unsent h (snd (z_ctx_set_io_threads Z h' k w)) = unsent h w"
    and setsockopt [simp]: "socks h (snd (z_setsockopt Z s opt w)) = socks h w"
    and bind_socks [simp]: "socks h (snd (z_bind Z s e w)) = socks h w"
    and recv_socks: "z_recv Z s n w = Some (r, bs, w') \<Longrightarrow> socks h w' = socks h w"
    and send_socks: "z_send Z s d w = Some (r, w') \<Longrightarrow> socks h w' = socks h w"
    and stat_socks [simp]: "socks h (snd (fs_stat Z f w)) = socks h w"
    and mkdir_socks [simp]: "socks h (snd (fs_mkdir Z f m w)) = socks h w"
    and chmod_socks [simp]: "socks h (snd (fs_chmod Z f m w)) = socks h w"
    and getgrnam_socks [simp]: "socks h (snd (fs_getgrnam Z g w)) = socks h w"
    and chown_socks [simp]: "socks h (snd (fs_chown_group Z f gid w)) = socks h w"

definition zheld :: "ZmqE3Connector \<Rightarrow> handle set" where
  "zheld c = set_option (zc_setup_socket c) \<union> set_option (zc_inbound_socket c) \<union> set_option (zc_outbound_socket c)"

text \<open>Every open socket of the connector's context is one the connector refers to.\<close>

definition zmq_owned :: "(handle \<Rightarrow> 'w \<Rightarrow> handle set) \<Rightarrow> 'w zmq_state \<Rightarrow> bool" where
  "zmq_owned socks cw \<longleftrightarrow> (\<forall>h. zc_context (fst cw) = Some h \<longrightarrow> socks h (snd cw) \<subseteq> zheld (fst cw))"

context zmq_sockets
begin

lemma permissions_socks [simp]: "socks h (ipc_permissions Z c e w) = socks h w"
  by (simp add: ipc_permissions_def setup_ipc_permissions_def)

lemma ipc_dir_socks [simp]: "socks h (snd (zmq_ipc_dir Z c w)) = socks h w"
  by (simp add: zmq_ipc_dir_def split_beta Let_def split: option.splits)

lemma new_socket_snd: "socks h (snd (z_socket Z h t w)) = set_option (fst (z_socket Z h t w)) \<union> socks h w"
  using new_socket[of h t w] by simp

lemma inbound_owned:
  assumes "zmq_owned socks (c, w)" and "zc_inbound_socket c = None"
  shows "zmq_owned socks (snd (Zmq_setup_inbound_connection Z (c, w)))"
proof (cases "zc_context c")
  case (Some h)
  then show ?thesis
    using assms new_socket_snd[of h ZMQ_SUB w]
    by (auto simp: zmq_owned_def zheld_def Zmq_setup_inbound_connection_def split_beta Let_def
        split: option.splits)
qed (use assms in \<open>simp add: Zmq_setup_inbound_connection_def\<close>)

lemma outbound_owned:
  assumes "zmq_owned socks (c, w)" and "zc_outbound_socket c = None"
  shows "zmq_owned socks (snd (Zmq_setup_outbound_connection Z (c, w)))"
proof (cases "zc_context c")
  case (Some h)
  then show ?thesis
    using assms new_socket_snd[of h ZMQ_PUB w]
    by (auto simp: zmq_owned_def zheld_def Zmq_setup_outbound_connection_def split_beta Let_def
        split: option.splits)
qed (use assms in \<open>simp add: Zmq_setup_outbound_connection_def\<close>)

lemma reset_owned:
  assumes "zmq_owned socks (c, w)"
  shows "zmq_owned socks (snd (reset_setup_socket Z (c, w)))"
proof (cases "zc_context c")
  case (Some h)
  let ?w = "case zc_setup_socket c of Some s \<Rightarrow> snd (z_close Z s w) | None \<Rightarrow> w"
  have "socks h ?w \<subseteq> set_option (zc_inbound_socket c) \<union> set_option (zc_outbound_socket c)"
    using assms Some by (auto simp: zmq_owned_def zheld_def split: option.splits)
  then show ?thesis
    using Some new_socket_snd[of h ZMQ_REP ?w]
    by (cases "fst (z_socket Z h ZMQ_REP ?w)")
      (auto simp: zmq_owned_def zheld_def reset_setup_socket_def split_beta Let_def)
qed (use assms in \<open>simp add: reset_setup_socket_def zmq_owned_def Let_def\<close>)

lemma owned_same:
  assumes "zmq_owned socks (c, w)" and "\<And>h. socks h w' = socks h w"
  shows "zmq_owned socks (c, w')"
  using assms by (simp add: zmq_owned_def)

lemma recv_setup_owned:
  assumes "zmq_owned socks (c, w)" and "Zmq_recv_setup_request Z b (c, w) = Some (r, b', cw')"
  shows "zmq_owned socks cw'"
proof (cases "zc_setup_socket c")
  case (Some s)
  let ?r = "z_recv Z s (length (vec_resize DEFAULT_BUFFER_SIZE b)) w"
  obtain ret bs w1 where rv: "?r = Some (ret, bs, w1)"
    using assms(2) Some by (cases ?r) (auto simp: Zmq_recv_setup_request_def Let_def)
  then have ok: "zmq_owned socks (c, w1)" using owned_same[OF assms(1)] recv_socks by metis
  show ?thesis
    using assms(2) Some rv ok reset_owned[OF ok]
    by (auto simp: Zmq_recv_setup_request_def Let_def split: if_splits)
qed (use assms in \<open>auto simp: Zmq_recv_setup_request_def\<close>)

lemma receive_owned:
  assumes "zmq_owned socks (c, w)" and "Zmq_receive Z b (c, w) = Some (r, b', cw')"
  shows "zmq_owned socks cw'"
proof (cases "zc_inbound_socket c")
  case (Some s)
  let ?r = "z_recv Z s (length (vec_resize DEFAULT_BUFFER_SIZE b)) w"
  obtain ret bs w1 where rv: "?r = Some (ret, bs, w1)"
    using assms(2) Some by (cases ?r) (auto simp: Zmq_receive_def Let_def)
  then have ok: "zmq_owned socks (c, w1)" using owned_same[OF assms(1)] recv_socks by metis
  show ?thesis
    using assms(2) Some rv ok by (auto simp: Zmq_receive_def Let_def split: if_splits)
qed (use assms in \<open>auto simp: Zmq_receive_def\<close>)

lemma send_response_owned:
  assumes "zmq_owned socks (c, w)" and "Zmq_send_response Z d (c, w) = Some (ec, cw')"
  shows "zmq_owned socks cw'"
proof (cases "zc_setup_socket c")
  case (Some s)
  obtain ret w1 where sd: "z_send Z s d w = Some (ret, w1)"
    using assms(2) Some by (cases "z_send Z s d w") (auto simp: Zmq_send_response_def)
  then have ok: "zmq_owned socks (c, w1)" using owned_same[OF assms(1)] send_socks by metis
  show ?thesis
    using assms(2) Some sd ok reset_owned[OF ok] by (auto simp: Zmq_send_response_def split: if_splits)
qed (use assms in \<open>auto simp: Zmq_send_response_def\<close>)

lemma send_owned:
  assumes "zmq_owned socks (c, w)" and "Zmq_send Z d (c, w) = Some (ec, cw')"
  shows "zmq_owned socks cw'"
proof (cases "zc_outbound_socket c")
  case (Some s)
  obtain ret w1 where sd: "z_send Z s d w = Some (ret, w1)"
    using assms(2) Some by (cases "z_send Z s d w") (auto simp: Zmq_send_def)
  then have ok: "zmq_owned socks (c, w1)" using owned_same[OF assms(1)] send_socks by metis
  show ?thesis using assms(2) Some sd ok by (auto simp: Zmq_send_def split: if_splits)
qed (use assms in \<open>auto simp: Zmq_send_def\<close>)

lemma initial_owned:
  assumes "Zmq_setup_initial_connection Z (c, w) = Some (ec, cw')"
  shows "zmq_owned socks cw'"
proof -
  obtain ctx w1 where n: "z_ctx_new Z w = (ctx, w1)" by fastforce
  show ?thesis
  proof (cases ctx)
    case None
    then show ?thesis using assms n by (auto simp: Zmq_setup_initial_connection_def zmq_owned_def)
  next
    case (Some h)
    have e1: "socks h w1 = {}" "\<not> unsent h w1" using new_context[of w h w1] n Some by simp_all
    obtain ret w2 where t: "z_ctx_set_io_threads Z h (sint (ucast (zc_io_threads c) :: 32 word)) w1 = (ret, w2)"
      by fastforce
    let ?c = "c\<lparr> zc_context := Some h \<rparr>"
    obtain f w3 where d: "zmq_ipc_dir Z ?c w2 = (f, w3)" by fastforce
    have e3: "socks h w2 = {}" "socks h w3 = {}"
      using e1(1) set_threads[of h h _ w1] t ipc_dir_socks[of h ?c w2] d by (metis snd_conv)+
    have "\<not> unsent h w2" using e1(2) threads_unsent[of h h _ w1] t by (metis snd_conv)
    then have "z_ctx_destroy Z h w2 \<noteq> None" using e3(1) destroy_blocks by metis
    then show ?thesis
      using assms n Some t d e3 new_socket_snd[of h ZMQ_REP w3]
      by (cases "fst (z_socket Z h ZMQ_REP w3)")
        (auto simp: Zmq_setup_initial_connection_def zmq_owned_def zheld_def split_beta Let_def
          split: if_splits)
  qed
qed

lemma dispose_waits:
  assumes "zmq_owned socks (c, w)"
  shows "Zmq_dispose Z (c, w) = None \<longleftrightarrow> (\<exists>h. zc_context c = Some h \<and> unsent h w)"
proof (cases "zc_context c")
  case (Some h)
  let ?w = "close_socket Z (zc_outbound_socket c) (close_socket Z (zc_inbound_socket c)
    (close_socket Z (zc_setup_socket c) w))"
  have "socks h ?w = {}" "unsent h ?w = unsent h w"
    using assms Some by (auto simp: zmq_owned_def zheld_def close_socket_def split: option.splits)
  then have "z_ctx_destroy Z h ?w = None \<longleftrightarrow> unsent h w" using destroy_blocks by metis
  then show ?thesis using Some by (cases "z_ctx_destroy Z h ?w") (auto simp: Zmq_dispose_def Let_def)
qed (simp add: Zmq_dispose_def Let_def)

text \<open>A socket of the context that the connector has lost makes \<^verbatim>\<open>dispose\<close> block.\<close>

lemma dispose_blocks:
  assumes "zc_context c = Some h" and "s \<in> socks h w" and "s \<notin> zheld c"
  shows "Zmq_dispose Z (c, w) = None"
proof -
  let ?w = "close_socket Z (zc_outbound_socket c) (close_socket Z (zc_inbound_socket c)
    (close_socket Z (zc_setup_socket c) w))"
  have "s \<in> socks h ?w"
    using assms by (auto simp: zheld_def close_socket_def split: option.splits)
  then have "z_ctx_destroy Z h ?w = None" using destroy_blocks by blast
  then show ?thesis using assms(1) by (simp add: Zmq_dispose_def Let_def)
qed

end

section \<open>Waiting\<close>

text \<open>
  What the manual promises of waiting: \<^verbatim>\<open>zmq_recv\<close> on a socket with the option \<^verbatim>\<open>ZMQ_RCVTIMEO\<close> returns when
  the time is over, and \<^verbatim>\<open>zmq_send\<close> does not wait on the two types of socket the connector sends on:
  \<^verbatim>\<open>ZMQ_PUB\<close> and \<^verbatim>\<open>ZMQ_REP\<close> drop what they cannot deliver. \<open>timed\<close> is said of an open socket with a timeout;
  the handle of an open socket is not given to a new one.
\<close>

locale zmq_timeouts =
  fixes Z :: "'w zmq_ops" and opened :: "handle \<Rightarrow> 'w \<Rightarrow> bool" and timed :: "handle \<Rightarrow> 'w \<Rightarrow> bool"
  assumes recv_timeout: "timed s w \<Longrightarrow> z_recv Z s n w \<noteq> None"
    and send_drops: "z_send Z s d w \<noteq> None"
    and socket_opened: "z_socket Z h ty w = (Some s, w') \<Longrightarrow> opened s w'"
    and setopt_opened: "opened s w \<Longrightarrow> opened s (snd (z_setsockopt Z s opt w))"
    and set_timed: "opened s w \<Longrightarrow> 0 \<le> t \<Longrightarrow> timed s (snd (z_setsockopt Z s (ZMQ_RCVTIMEO t) w))"
    and socket_timed: "timed s w \<Longrightarrow> z_socket Z h ty w = (so, w') \<Longrightarrow> so \<noteq> Some s \<and> timed s w'"
    and close_timed: "timed s w \<Longrightarrow> s \<noteq> s' \<Longrightarrow> timed s (snd (z_close Z s' w))"
    and setopt_timed: "timed s w \<Longrightarrow> s \<noteq> s' \<Longrightarrow> timed s (snd (z_setsockopt Z s' opt w))"
    and bind_timed: "timed s w \<Longrightarrow> timed s (snd (z_bind Z s' e w))"
    and chmod_timed: "timed s w \<Longrightarrow> timed s (snd (fs_chmod Z f mode w))"
    and recv_timed: "timed s w \<Longrightarrow> z_recv Z s' n w = Some (r, bs, w') \<Longrightarrow> timed s w'"
    and send_timed: "timed s w \<Longrightarrow> z_send Z s' d w = Some (r', w') \<Longrightarrow> timed s w'"

text \<open>The sockets on which the connector receives are different and have timeouts.\<close>

definition zmq_live :: "(handle \<Rightarrow> 'w \<Rightarrow> bool) \<Rightarrow> 'w zmq_state \<Rightarrow> bool" where
  "zmq_live timed cw \<longleftrightarrow>
     (\<forall>s \<in> set_option (zc_setup_socket (fst cw)) \<union> set_option (zc_inbound_socket (fst cw)). timed s (snd cw))
     \<and> set_option (zc_setup_socket (fst cw)) \<inter> set_option (zc_inbound_socket (fst cw)) = {}"

context zmq_timeouts
begin

lemma permissions_timed: "timed s w \<Longrightarrow> timed s (ipc_permissions Z c e w)"
  by (simp add: ipc_permissions_def setup_ipc_permissions_def chmod_timed)

lemma timeout_set: "z_socket Z h ty w = (Some s, w') \<Longrightarrow> timed s (snd (z_setsockopt Z s (ZMQ_RCVTIMEO RECV_TIMEOUT_MS) w'))"
  by (rule set_timed[OF socket_opened]) (simp_all add: RECV_TIMEOUT_MS_def)

lemma live_frame:
  assumes "zmq_live timed (c, w)" and "\<And>s. timed s w \<Longrightarrow> timed s w'"
  shows "zmq_live timed (c, w')"
  using assms by (auto simp: zmq_live_def)

lemma reset_live:
  assumes "zmq_live timed (c, w)"
  shows "zmq_live timed (snd (reset_setup_socket Z (c, w)))"
proof -
  let ?w = "case zc_setup_socket c of Some s \<Rightarrow> snd (z_close Z s w) | None \<Rightarrow> w"
  have i: "timed s ?w" if "zc_inbound_socket c = Some s" for s
    using assms that close_timed[of s w] by (cases "zc_setup_socket c") (auto simp: zmq_live_def)
  show ?thesis
  proof (cases "\<exists>h s. zc_context c = Some h \<and> fst (z_socket Z h ZMQ_REP ?w) = Some s")
    case False
    have "timed t (snd (z_socket Z h ZMQ_REP ?w))" if "zc_inbound_socket c = Some t" for t h
      using socket_timed[OF i[OF that] prod.collapse[symmetric]] by blast
    then show ?thesis using False i
      by (auto simp: reset_setup_socket_def zmq_live_def split_beta Let_def split: option.split)
  next
    case True
    then obtain h s w1 where h: "zc_context c = Some h" "z_socket Z h ZMQ_REP ?w = (Some s, w1)"
      by (metis prod.collapse)
    let ?w2 = "snd (z_setsockopt Z s (ZMQ_RCVTIMEO RECV_TIMEOUT_MS) w1)"
    let ?w3 = "snd (z_bind Z s (c_str (zc_setup_endpoint c)) ?w2)"
    have s: "timed s ?w3" using bind_timed[OF timeout_set[OF h(2)]] .
    have t: "t \<noteq> s \<and> timed t ?w3" if "zc_inbound_socket c = Some t" for t
      using socket_timed[OF i[OF that] h(2)] setopt_timed[of t w1 s] bind_timed by blast
    then have "timed t (snd (z_close Z s ?w3))" if "zc_inbound_socket c = Some t" for t
      using close_timed[of t ?w3 s] that by blast
    then show ?thesis using h s t permissions_timed
      by (auto simp: reset_setup_socket_def zmq_live_def split_beta Let_def split: option.split)
  qed
qed

lemma recv_setup_live:
  assumes "zmq_live timed (c, w)"
  shows "\<exists>r b' cw'. Zmq_recv_setup_request Z b (c, w) = Some (r, b', cw') \<and> zmq_live timed cw'"
proof (cases "zc_setup_socket c")
  case (Some s)
  let ?n = "length (vec_resize DEFAULT_BUFFER_SIZE b)"
  have "timed s w" using assms Some by (auto simp: zmq_live_def)
  then obtain r bs w1 where r: "z_recv Z s ?n w = Some (r, bs, w1)" using recv_timeout[of s w ?n] by auto
  have "zmq_live timed (c, w1)" using live_frame[OF assms] recv_timed r by blast
  then show ?thesis using Some r reset_live[of c w1]
    by (cases "reset_setup_socket Z (c, w1)") (auto simp: Zmq_recv_setup_request_def Let_def)
qed (use assms in \<open>simp add: Zmq_recv_setup_request_def\<close>)

lemma receive_live:
  assumes "zmq_live timed (c, w)"
  shows "\<exists>r b' cw'. Zmq_receive Z b (c, w) = Some (r, b', cw') \<and> zmq_live timed cw'"
proof (cases "zc_inbound_socket c")
  case (Some s)
  let ?n = "length (vec_resize DEFAULT_BUFFER_SIZE b)"
  have "timed s w" using assms Some by (auto simp: zmq_live_def)
  then obtain r bs w1 where r: "z_recv Z s ?n w = Some (r, bs, w1)" using recv_timeout[of s w ?n] by auto
  have "zmq_live timed (c, w1)" using live_frame[OF assms] recv_timed r by blast
  then show ?thesis using Some r by (auto simp: Zmq_receive_def Let_def)
qed (use assms in \<open>simp add: Zmq_receive_def\<close>)

lemma send_response_live:
  assumes "zmq_live timed (c, w)"
  shows "\<exists>ec cw'. Zmq_send_response Z d (c, w) = Some (ec, cw') \<and> zmq_live timed cw'"
proof (cases "zc_setup_socket c")
  case (Some s)
  obtain r w1 where r: "z_send Z s d w = Some (r, w1)" using send_drops[of s d w] by auto
  have "zmq_live timed (c, w1)" using live_frame[OF assms] send_timed r by blast
  then show ?thesis using Some r reset_live[of c w1]
    by (cases "reset_setup_socket Z (c, w1)") (auto simp: Zmq_send_response_def)
qed (use assms in \<open>simp add: Zmq_send_response_def\<close>)

lemma send_live:
  assumes "zmq_live timed (c, w)"
  shows "\<exists>ec cw'. Zmq_send Z d (c, w) = Some (ec, cw') \<and> zmq_live timed cw'"
proof (cases "zc_outbound_socket c")
  case (Some s)
  obtain r w1 where r: "z_send Z s d w = Some (r, w1)" using send_drops[of s d w] by auto
  have "zmq_live timed (c, w1)" using live_frame[OF assms] send_timed r by blast
  then show ?thesis using Some r by (auto simp: Zmq_send_def)
qed (use assms in \<open>simp add: Zmq_send_def\<close>)

lemma outbound_live:
  assumes "zmq_live timed (c, w)"
  shows "zmq_live timed (snd (Zmq_setup_outbound_connection Z (c, w)))"
proof (cases "zc_context c")
  case (Some h)
  obtain so w1 where so: "z_socket Z h ZMQ_PUB w = (so, w1)" by fastforce
  have t: "timed s w1" "timed s (snd (z_bind Z s' e w1))" if "timed s w" for s s' e
    using socket_timed[OF that so] bind_timed by blast+
  show ?thesis using assms Some so t permissions_timed
    by (auto simp: Zmq_setup_outbound_connection_def zmq_live_def split_beta Let_def split: option.split)
qed (use assms in \<open>simp add: Zmq_setup_outbound_connection_def\<close>)

lemma inbound_live:
  assumes "zmq_live timed (c, w)"
  shows "zmq_live timed (snd (Zmq_setup_inbound_connection Z (c, w)))"
proof (cases "\<exists>h s. zc_context c = Some h \<and> fst (z_socket Z h ZMQ_SUB w) = Some s")
  case False
  have "timed t (snd (z_socket Z h ZMQ_SUB w))" if "timed t w" for t h
    using socket_timed[OF that prod.collapse[symmetric]] by blast
  then show ?thesis using False assms
    by (auto simp: Zmq_setup_inbound_connection_def zmq_live_def split_beta Let_def split: option.split)
next
  case True
  then obtain h s w1 where h: "zc_context c = Some h" "z_socket Z h ZMQ_SUB w = (Some s, w1)"
    by (metis prod.collapse)
  let ?o = "\<lambda>opt w. snd (z_setsockopt Z s opt w)"
  let ?w2 = "?o (ZMQ_CONFLATE 1) (?o (ZMQ_SUBSCRIBE []) w1)"
  let ?w4 = "snd (z_bind Z s (c_str (zc_inbound_endpoint c)) (?o (ZMQ_RCVTIMEO RECV_TIMEOUT_MS) ?w2))"
  have "timed s (?o (ZMQ_RCVTIMEO RECV_TIMEOUT_MS) ?w2)"
    by (intro set_timed setopt_opened socket_opened[OF h(2)]) (simp add: RECV_TIMEOUT_MS_def)
  then have s: "timed s ?w4" by (rule bind_timed)
  have t: "t \<noteq> s \<and> timed t ?w4" if "zc_setup_socket c = Some t" for t
  proof -
    have "timed t w" using assms that by (auto simp: zmq_live_def)
    from socket_timed[OF this h(2)] show ?thesis by (auto intro!: bind_timed setopt_timed)
  qed
  show ?thesis using h s t permissions_timed
    by (auto simp: Zmq_setup_inbound_connection_def zmq_live_def split_beta Let_def split: option.split)
qed

text \<open>The invariant is there once the initial set-up has succeeded.\<close>

lemma initial_live:
  assumes "Zmq_setup_initial_connection Z (c, w) = Some (SUCCESS, cw')" and "zc_inbound_socket c = None"
  shows "zmq_live timed cw'"
proof -
  obtain h s w1 w2 e c' where s: "z_socket Z h ZMQ_REP w1 = (Some s, w2)" "cw' = (c',
      ipc_permissions Z e (zc_setup_endpoint c)
        (snd (z_bind Z s (c_str (zc_setup_endpoint c)) (snd (z_setsockopt Z s (ZMQ_RCVTIMEO RECV_TIMEOUT_MS) w2)))))"
    "zc_setup_socket c' = Some s" "zc_inbound_socket c' = None"
    using assms by (auto simp: Zmq_setup_initial_connection_def Let_def split: prod.splits option.splits if_splits bind_splits)
  then show ?thesis using permissions_timed[OF bind_timed[OF timeout_set[OF s(1)]]] by (simp add: zmq_live_def)
qed

end

section \<open>Sequences of calls\<close>

datatype zmq_call =
    ZC_setup_initial | ZC_recv_setup bytes | ZC_send_response bytes | ZC_setup_inbound
  | ZC_receive bytes | ZC_setup_outbound | ZC_send bytes | ZC_shutdown

fun zmq_step :: "'w zmq_ops \<Rightarrow> zmq_call \<Rightarrow> 'w zmq_state \<Rightarrow> 'w zmq_state option" where
  "zmq_step Z ZC_setup_initial cw = map_option snd (Zmq_setup_initial_connection Z cw)"
| "zmq_step Z (ZC_recv_setup b) cw = map_option (snd \<circ> snd) (Zmq_recv_setup_request Z b cw)"
| "zmq_step Z (ZC_send_response d) cw = map_option snd (Zmq_send_response Z d cw)"
| "zmq_step Z ZC_setup_inbound cw = Some (snd (Zmq_setup_inbound_connection Z cw))"
| "zmq_step Z (ZC_receive b) cw = map_option (snd \<circ> snd) (Zmq_receive Z b cw)"
| "zmq_step Z ZC_setup_outbound cw = Some (snd (Zmq_setup_outbound_connection Z cw))"
| "zmq_step Z (ZC_send d) cw = map_option snd (Zmq_send Z d cw)"
| "zmq_step Z ZC_shutdown cw = Some (Zmq_shutdown cw)"

fun zmq_run :: "'w zmq_ops \<Rightarrow> zmq_call list \<Rightarrow> 'w zmq_state \<Rightarrow> 'w zmq_state option" where
  "zmq_run Z [] cw = Some cw"
| "zmq_run Z (a # as) cw = Option.bind (zmq_step Z a cw) (zmq_run Z as)"

fun zmq_slot_free :: "zmq_call \<Rightarrow> ZmqE3Connector \<Rightarrow> bool" where
  "zmq_slot_free ZC_setup_inbound c = (zc_inbound_socket c = None)"
| "zmq_slot_free ZC_setup_outbound c = (zc_outbound_socket c = None)"
| "zmq_slot_free _ c = True"

fun zmq_slots_free_run :: "'w zmq_ops \<Rightarrow> zmq_call list \<Rightarrow> 'w zmq_state \<Rightarrow> bool" where
  "zmq_slots_free_run Z [] cw = True"
| "zmq_slots_free_run Z (a # as) cw =
     (zmq_slot_free a (fst cw) \<and>
      (case zmq_step Z a cw of None \<Rightarrow> True | Some cw' \<Rightarrow> zmq_slots_free_run Z as cw'))"

context zmq_sockets
begin

lemma step_owned:
  assumes "zmq_owned socks (c, w)" and "zmq_slot_free a c" and "zmq_step Z a (c, w) = Some cw'"
  shows "zmq_owned socks cw'"
proof (cases a)
  case ZC_setup_inbound
  then show ?thesis using assms inbound_owned[OF assms(1)] by auto
next
  case ZC_setup_outbound
  then show ?thesis using assms outbound_owned[OF assms(1)] by auto
next
  case ZC_shutdown
  then show ?thesis using assms by (simp add: Zmq_shutdown_def)
qed (use assms(3) in \<open>auto dest: initial_owned recv_setup_owned[OF assms(1)] receive_owned[OF assms(1)]
      send_response_owned[OF assms(1)] send_owned[OF assms(1)]\<close>)

lemma run_owned:
  assumes "zmq_owned socks cw" and "zmq_slots_free_run Z as cw" and "zmq_run Z as cw = Some cw'"
  shows "zmq_owned socks cw'"
  using assms
proof (induction as arbitrary: cw)
  case (Cons a as)
  then obtain cw1 where s: "zmq_step Z a cw = Some cw1" by (auto split: bind_splits)
  then have "zmq_owned socks cw1" using Cons.prems step_owned[of "fst cw" "snd cw" a cw1] by auto
  then show ?case using Cons s by simp
qed simp

end

section \<open>A message library in memory\<close>

text \<open>Sockets with their contexts, messages waiting per socket, the results of the next binds, the
  sockets that conflate, the contexts with unsent messages and the sockets with a timeout. A receive
  without timeout on a socket without message never returns.\<close>

record mem_zmq =
  mz_next :: nat
  mz_socks :: "(handle \<times> handle) list"
  mz_inbox :: "handle \<Rightarrow> bytes list"
  mz_binds :: "int list"
  mz_conflated :: "handle list"
  mz_unsent :: "handle list"
  mz_timed :: "handle list"

definition mem_zmq_ops :: "mem_zmq zmq_ops" where
  "mem_zmq_ops =
     \<lparr> fs_errno = (\<lambda>w. EAGAIN), fs_stat = (\<lambda>f w. (0, w)), fs_mkdir = (\<lambda>f m w. (0, w)),
       fs_chmod = (\<lambda>f m w. (0, w)), fs_getgrnam = (\<lambda>g w. (None, w)),
       fs_chown_group = (\<lambda>f g w. (0, w)), fs_unlink = (\<lambda>f w. (0, w)), fs_rmdir = (\<lambda>f w. (0, w)),
       z_ctx_new = (\<lambda>w. (Some (mz_next w + sum_list (map fst (mz_socks w)) + sum_list (mz_unsent w) + 1),
          w\<lparr> mz_next := mz_next w + sum_list (map fst (mz_socks w)) + sum_list (mz_unsent w) + 1 \<rparr>)),
       z_ctx_set_io_threads = (\<lambda>h n w. (0, w)),
       z_ctx_destroy = (\<lambda>h w. if h \<in> fst ` set (mz_socks w) \<or> h \<in> set (mz_unsent w) then None else Some w),
       z_socket = (\<lambda>h t w. (Some (mz_next w + sum_list (map snd (mz_socks w)) + 1),
          w\<lparr> mz_next := mz_next w + sum_list (map snd (mz_socks w)) + 1,
             mz_socks := (h, mz_next w + sum_list (map snd (mz_socks w)) + 1) # mz_socks w \<rparr>)),
       z_setsockopt = (\<lambda>s opt w. (0, case opt of
          ZMQ_CONFLATE n \<Rightarrow> if n = 1 then w\<lparr> mz_conflated := s # mz_conflated w \<rparr> else w
        | ZMQ_RCVTIMEO t \<Rightarrow> w\<lparr> mz_timed := (if 0 \<le> t then s # mz_timed w else removeAll s (mz_timed w)) \<rparr>
        | _ \<Rightarrow> w)),
       z_bind = (\<lambda>s e w. case mz_binds w of [] \<Rightarrow> (0, w) | r # rs \<Rightarrow> (r, w\<lparr> mz_binds := rs \<rparr>)),
       z_recv = (\<lambda>s n w. case mz_inbox w s of
          [] \<Rightarrow> if s \<in> set (mz_timed w) then Some (-1, [], w) else None
        | m # ms \<Rightarrow> Some (int (length m), take n m, w\<lparr> mz_inbox := (mz_inbox w)(s := ms) \<rparr>)),
       z_send = (\<lambda>s d w. Some (int (length d), w)),
       z_close = (\<lambda>s w. (0, w\<lparr> mz_socks := filter (\<lambda>hs. snd hs \<noteq> s) (mz_socks w) \<rparr>)) \<rparr>"

definition mem_zmq_init :: mem_zmq where
  "mem_zmq_init = \<lparr> mz_next = 0, mz_socks = [], mz_inbox = (\<lambda>_. []), mz_binds = [],
     mz_conflated = [], mz_unsent = [], mz_timed = [] \<rparr>"

definition mz_arrive :: "handle \<Rightarrow> bytes \<Rightarrow> mem_zmq \<Rightarrow> mem_zmq" where
  "mz_arrive s m w = w\<lparr> mz_inbox := (mz_inbox w)(s := (if s \<in> set (mz_conflated w) then [m] else mz_inbox w s @ [m])) \<rparr>"

definition mz_open :: "handle \<Rightarrow> mem_zmq \<Rightarrow> handle set" where
  "mz_open h w = {s. (h, s) \<in> set (mz_socks w)}"

lemma fresh_handle:
  fixes xs :: "(nat \<times> nat) list"
  shows "(Suc (n + sum_list (map fst xs) + k), b) \<notin> set xs" and "(a, Suc (n + sum_list (map snd xs))) \<notin> set xs"
proof -
  have "a \<le> sum_list (map fst xs) \<and> b \<le> sum_list (map snd xs)" if "(a, b) \<in> set xs" for a b
    using that member_le_sum_list[of a "map fst xs"] member_le_sum_list[of b "map snd xs"] by force
  then show "(Suc (n + sum_list (map fst xs) + k), b) \<notin> set xs" "(a, Suc (n + sum_list (map snd xs))) \<notin> set xs"
    by fastforce+
qed

lemma fresh_unsent: "Suc (n + sum_list xs) \<notin> set (xs :: nat list)"
  using member_le_sum_list[of "Suc (n + sum_list xs)" xs] by auto

interpretation mem_zmsg: zmq_messages mem_zmq_ops "\<lambda>s w. mz_inbox w s" "\<lambda>s w. s \<in> set (mz_conflated w)" mz_arrive
  by unfold_locales (auto simp: mem_zmq_ops_def mz_arrive_def split: list.split zmq_option.split)

interpretation mem_zsock: zmq_sockets mem_zmq_ops mz_open "\<lambda>h w. h \<in> set (mz_unsent w)"
proof (unfold_locales, goal_cases)
  case (1 w h w')
  then show ?case
    using fresh_unsent[of "mz_next w + sum_list (map fst (mz_socks w))" "mz_unsent w"]
    by (auto simp: mem_zmq_ops_def mz_open_def fresh_handle)
next
  case (2 h t w so w')
  then show ?case by (auto simp: mem_zmq_ops_def mz_open_def fresh_handle)
qed (force simp: mem_zmq_ops_def mz_open_def split: list.splits zmq_option.splits if_splits)+

interpretation mem_ztime: zmq_timeouts mem_zmq_ops "\<lambda>s w. s \<in> snd ` set (mz_socks w)"
  "\<lambda>s w. s \<in> snd ` set (mz_socks w) \<and> s \<in> set (mz_timed w)"
proof (unfold_locales, goal_cases)
  case (6 s w h ty so w')
  then show ?case by (auto simp: mem_zmq_ops_def fresh_handle)
qed (auto simp: mem_zmq_ops_def split: list.splits zmq_option.splits if_splits)

section \<open>Properties\<close>

text \<open>
  C34: the inbound socket conflates. Of the messages that arrive between two calls of \<^verbatim>\<open>receive\<close> on a
  socket that \<^verbatim>\<open>setup_inbound_connection\<close> has made, the next call returns only the last one, and no
  other can be received any more. It returns it unchanged when it fits the buffer of 60000 bytes. A
  longer message is not refused: the buffer gets its first 60000 bytes followed by zeros up to the
  full size, and the return value is the full size.
\<close>

theorem zmq_receive_latest:
  assumes "zmq_messages Z inbox conflated arrive"
    and "Zmq_setup_inbound_connection Z (c, w) = (SUCCESS, c', w')" and "zc_inbound_socket c' = Some s"
  shows "\<exists>w''. Zmq_receive Z b (c', fold (arrive s) (ms @ [m]) w') =
      Some (int (length m),
            if length m \<le> DEFAULT_BUFFER_SIZE then m
            else take DEFAULT_BUFFER_SIZE m @ replicate (length m - DEFAULT_BUFFER_SIZE) 0, c', w'')
    \<and> inbox s w'' = []"
proof -
  let ?b = "vec_resize DEFAULT_BUFFER_SIZE b" and ?w = "fold (arrive s) (ms @ [m]) w'"
  have "inbox s ?w = [m]"
    using zmq_messages.arrivals_latest[OF assms(1) zmq_messages.inbound_conflated[OF assms]] .
  from zmq_messages.recv_message[OF assms(1) this, of DEFAULT_BUFFER_SIZE] obtain w'' where
    "z_recv Z s DEFAULT_BUFFER_SIZE ?w = Some (int (length m), take DEFAULT_BUFFER_SIZE m, w'')"
    "inbox s w'' = []" by blast
  then show ?thesis
    using assms(3) zmq_messages.received_buffer[OF assms(1), of ?b DEFAULT_BUFFER_SIZE m]
    by (simp add: Zmq_receive_def Let_def del: fold_append)
qed

theorem zmq_receive_latest_witness:
  "let c = (new_ZmqE3Connector SCTP [] [] [] 1 2 3 2)\<lparr> zc_context := Some 1 \<rparr>;
       (ec, c', w') = Zmq_setup_inbound_connection mem_zmq_ops (c, mem_zmq_init)
   in ec = SUCCESS \<and> (\<exists>w''. Zmq_receive mem_zmq_ops [] (c', mz_arrive 1 [66, 67] (mz_arrive 1 [65] w'))
        = Some (2, [66, 67], c', w'') \<and> mz_inbox w'' 1 = [])"
proof -
  let ?c = "(new_ZmqE3Connector SCTP [] [] [] 1 2 3 2)\<lparr> zc_context := Some 1 \<rparr>"
  obtain c' w' where s: "Zmq_setup_inbound_connection mem_zmq_ops (?c, mem_zmq_init) = (SUCCESS, c', w')"
    "zc_inbound_socket c' = Some 1"
    by (simp add: Zmq_setup_inbound_connection_def mem_zmq_ops_def mem_zmq_init_def ipc_permissions_def
        new_ZmqE3Connector_def Let_def)
  from zmq_receive_latest[OF mem_zmsg.zmq_messages_axioms s, of "[]" "[[65]]" "[66, 67]"] s(1) show ?thesis
    by (simp add: DEFAULT_BUFFER_SIZE_def)
qed

text \<open>
  C35: after any calls on a new connector in which the inbound and outbound set-up are called only
  while their socket is null, \<^verbatim>\<open>dispose\<close> has closed every socket of the context before it destroys it,
  so it waits for unsent messages only: it does not return exactly when there are some, because the
  connector leaves \<^verbatim>\<open>ZMQ_LINGER\<close> at its unlimited default. When it returns, the connector holds nothing.
\<close>

theorem zmq_dispose_waits_for_unsent:
  assumes "zmq_sockets Z socks unsent"
    and "c = new_ZmqE3Connector t e1 e2 e3 p1 p2 p3 n"
    and "zmq_slots_free_run Z calls (c, w)" and "zmq_run Z calls (c, w) = Some (c', w')"
  shows "(Zmq_dispose Z (c', w') = None \<longleftrightarrow> (\<exists>h. zc_context c' = Some h \<and> unsent h w'))
    \<and> (\<forall>c'' w''. Zmq_dispose Z (c', w') = Some (c'', w'') \<longrightarrow> zheld c'' = {} \<and> zc_context c'' = None)"
proof -
  have "zmq_owned socks (c, w)" by (simp add: zmq_owned_def assms(2) new_ZmqE3Connector_def Let_def)
  from zmq_sockets.run_owned[OF assms(1) this assms(3,4)]
  have "Zmq_dispose Z (c', w') = None \<longleftrightarrow> (\<exists>h. zc_context c' = Some h \<and> unsent h w')"
    by (rule zmq_sockets.dispose_waits[OF assms(1)])
  moreover have "zheld c'' = {} \<and> zc_context c'' = None" if "Zmq_dispose Z (c', w') = Some (c'', w'')" for c'' w''
    using that by (auto simp: Zmq_dispose_def zheld_def Let_def split: bind_splits)
  ultimately show ?thesis by blast
qed

theorem zmq_dispose_waits_for_unsent_witness:
  "\<exists>c' w' cw''. zmq_run mem_zmq_ops [ZC_setup_initial, ZC_setup_inbound, ZC_setup_outbound, ZC_receive []]
       (new_ZmqE3Connector SCTP [] [] [] 1 2 3 2, mem_zmq_init) = Some (c', w') \<and> zc_context c' = Some 1
     \<and> Zmq_dispose mem_zmq_ops (c', w') = Some cw''"
proof -
  let ?as = "[ZC_setup_initial, ZC_setup_inbound, ZC_setup_outbound, ZC_receive []]"
  let ?cw = "(new_ZmqE3Connector SCTP [] [] [] 1 2 3 2, mem_zmq_init)"
  obtain c' w' where r: "zmq_slots_free_run mem_zmq_ops ?as ?cw" "zmq_run mem_zmq_ops ?as ?cw = Some (c', w')"
    "zc_context c' = Some 1" "mz_unsent w' = []"
    by (simp add: zmq_op_defs Zmq_setup_inbound_connection_def Zmq_setup_outbound_connection_def
        mem_zmq_ops_def mem_zmq_init_def zmq_ipc_dir_def ipc_permissions_def new_ZmqE3Connector_def
        RECV_TIMEOUT_MS_def Let_def)
  from zmq_dispose_waits_for_unsent[OF mem_zsock.zmq_sockets_axioms refl r(1,2)] r show ?thesis
    by (cases "Zmq_dispose mem_zmq_ops (c', w')") auto
qed

text \<open>
  A retried outbound set-up makes the shutdown hang: when the first \<^verbatim>\<open>setup_outbound_connection\<close>
  fails to bind and the call is repeated, as \<^verbatim>\<open>publisher_loop\<close> does, the first socket is neither
  closed nor referred to any more, and \<^verbatim>\<open>dispose\<close> never returns from \<^verbatim>\<open>zmq_ctx_destroy\<close>.
\<close>

lemma zmq_outbound_retry_blocks:
  assumes "zmq_sockets Z socks unsent"
    and "zc_context c = Some h" and "zheld c \<subseteq> socks h w"
    and "fst (z_socket Z h ZMQ_PUB w) \<noteq> None"
    and "Zmq_setup_outbound_connection Z (c, w) = (CONNECTION_FAILED, c1, w1)"
    and "Zmq_setup_outbound_connection Z (c1, w1) = (ec, c2, w2)"
  shows "Zmq_dispose Z (c2, w2) = None"
proof -
  obtain s w0 where s: "z_socket Z h ZMQ_PUB w = (Some s, w0)" using assms(4) by (metis fst_conv not_None_eq surj_pair)
  note zs = zmq_sockets.new_socket[OF assms(1)]
  have c1: "c1 = c\<lparr> zc_outbound_socket := Some s \<rparr>" and w1: "socks h w1 = socks h w0"
    using assms(2,5) s zmq_sockets.bind_socks[OF assms(1)]
    by (auto simp: Zmq_setup_outbound_connection_def split_beta Let_def split: if_splits)
  obtain so w3 where s2: "z_socket Z h ZMQ_PUB w1 = (so, w3)" by fastforce
  have c2: "c2 = c1\<lparr> zc_outbound_socket := so \<rparr>" and w2: "socks h w2 = socks h w3"
    using assms(2,6) s2 c1 zmq_sockets.bind_socks[OF assms(1)] zmq_sockets.permissions_socks[OF assms(1)]
    by (auto simp: Zmq_setup_outbound_connection_def split_beta Let_def split: option.splits if_splits)
  have "s \<in> socks h w2" "s \<notin> zheld c2"
    using zs[OF s] zs[OF s2] w1 w2 assms(3) c1 c2 by (auto simp: zheld_def)
  then show ?thesis
    using zmq_sockets.dispose_blocks[OF assms(1)] assms(2) c1 c2 by simp
qed

lemma zmq_outbound_retry_blocks_witness:
  "let cw = (the (zmq_run mem_zmq_ops [ZC_setup_initial] (new_ZmqE3Connector SCTP [] [] [] 1 2 3 2, mem_zmq_init)));
       cw1 = (fst cw, (snd cw)\<lparr> mz_binds := [-1, 0] \<rparr>);
       cw2 = snd (Zmq_setup_outbound_connection mem_zmq_ops cw1)
   in Zmq_dispose mem_zmq_ops (snd (Zmq_setup_outbound_connection mem_zmq_ops cw2)) = None"
proof -
  let ?c = "(new_ZmqE3Connector SCTP [] [] [] 1 2 3 2)\<lparr> zc_context := Some 1, zc_setup_socket := Some 2, zc_connected := True \<rparr>"
  let ?w = "mem_zmq_init\<lparr> mz_next := 2, mz_socks := [(1, 2)], mz_timed := [2], mz_binds := [-1, 0] \<rparr>"
  have r: "zmq_run mem_zmq_ops [ZC_setup_initial] (new_ZmqE3Connector SCTP [] [] [] 1 2 3 2, mem_zmq_init)
      = Some (?c, ?w\<lparr> mz_binds := [] \<rparr>)"
    by (simp add: zmq_op_defs mem_zmq_ops_def mem_zmq_init_def zmq_ipc_dir_def ipc_permissions_def
        new_ZmqE3Connector_def RECV_TIMEOUT_MS_def Let_def)
  obtain c1 w1 where 1: "Zmq_setup_outbound_connection mem_zmq_ops (?c, ?w) = (CONNECTION_FAILED, c1, w1)"
    by (simp add: Zmq_setup_outbound_connection_def mem_zmq_ops_def mem_zmq_init_def new_ZmqE3Connector_def Let_def)
  obtain ec c2 w2 where 2: "Zmq_setup_outbound_connection mem_zmq_ops (c1, w1) = (ec, c2, w2)" by (metis prod_cases3)
  have "zc_context ?c = Some 1" "zheld ?c \<subseteq> mz_open 1 ?w" "fst (z_socket mem_zmq_ops 1 ZMQ_PUB ?w) \<noteq> None"
    by (simp_all add: mem_zmq_ops_def mz_open_def zheld_def new_ZmqE3Connector_def Let_def)
  from zmq_outbound_retry_blocks[OF mem_zsock.zmq_sockets_axioms this 1 2]
  have "Zmq_dispose mem_zmq_ops (c2, w2) = None" .
  then show ?thesis using r 1 2 by (simp add: Let_def)
qed

end
