(* ===== verification/E3_Factories.thy ===== *)
theory E3_Factories
  imports Posix_Connector Zmq_Connector Json_Encoder Asn1_Encoder
begin

text \<open>
  \<^verbatim>\<open>src/connector/connector_factory.cpp\<close> and \<^verbatim>\<open>src/encoder/encoder_factory.cpp\<close>, and the virtual
  dispatch of a \<^verbatim>\<open>std::unique_ptr<E3Connector>\<close>: an object of one of the two connector classes, whose
  methods are those of its class.
\<close>

section \<open>Connectors\<close>

datatype E3Connector = Zmq_object ZmqE3Connector | Posix_object PosixE3Connector

fun create_connector :: "E3LinkLayer \<Rightarrow> E3TransportLayer \<Rightarrow> string \<Rightarrow> string \<Rightarrow> string
    \<Rightarrow> u16 \<Rightarrow> u16 \<Rightarrow> u16 \<Rightarrow> size_t \<Rightarrow> E3Connector option" where
  "create_connector ZMQ transport setup_ep inbound_ep outbound_ep setup_pt inbound_pt outbound_pt io_threads =
     Some (Zmq_object (new_ZmqE3Connector transport setup_ep inbound_ep outbound_ep
       setup_pt inbound_pt outbound_pt io_threads))"
| "create_connector POSIX transport setup_ep inbound_ep outbound_ep setup_pt inbound_pt outbound_pt io_threads =
     Some (Posix_object (new_PosixE3Connector transport setup_ep inbound_ep outbound_ep
       setup_pt inbound_pt outbound_pt))"

type_synonym 'w conn_state = "E3Connector \<times> 'w"

definition on_zmq :: "ZmqE3Connector \<times> 'w \<Rightarrow> 'w conn_state" where
  "on_zmq cw = (Zmq_object (fst cw), snd cw)"

definition on_posix :: "PosixE3Connector \<times> 'w \<Rightarrow> 'w conn_state" where
  "on_posix cw = (Posix_object (fst cw), snd cw)"

text \<open>A method call through the base class, for the three shapes of result.\<close>

definition virtual_code ::
    "(ZmqE3Connector \<times> 'w \<Rightarrow> (ErrorCode \<times> ZmqE3Connector \<times> 'w) option)
     \<Rightarrow> (PosixE3Connector \<times> 'w \<Rightarrow> (ErrorCode \<times> PosixE3Connector \<times> 'w) option)
     \<Rightarrow> 'w conn_state \<Rightarrow> (ErrorCode \<times> 'w conn_state) option" where
  "virtual_code fz fp cw =
     (case fst cw of
        Zmq_object z \<Rightarrow> map_option (apsnd on_zmq) (fz (z, snd cw))
      | Posix_object p \<Rightarrow> map_option (apsnd on_posix) (fp (p, snd cw)))"

definition virtual_recv ::
    "(ZmqE3Connector \<times> 'w \<Rightarrow> (int \<times> bytes \<times> ZmqE3Connector \<times> 'w) option)
     \<Rightarrow> (PosixE3Connector \<times> 'w \<Rightarrow> (int \<times> bytes \<times> PosixE3Connector \<times> 'w) option)
     \<Rightarrow> 'w conn_state \<Rightarrow> (int \<times> bytes \<times> 'w conn_state) option" where
  "virtual_recv fz fp cw =
     (case fst cw of
        Zmq_object z \<Rightarrow> map_option (apsnd (apsnd on_zmq)) (fz (z, snd cw))
      | Posix_object p \<Rightarrow> map_option (apsnd (apsnd on_posix)) (fp (p, snd cw)))"

definition virtual_connector :: "'w posix_ops \<Rightarrow> 'w zmq_ops \<Rightarrow> ('w \<Rightarrow> bool) \<Rightarrow> 'w conn_state connector_ops" where
  "virtual_connector S Z env =
     (let p = PosixE3Connector_ops S env; z = ZmqE3Connector_ops Z
      in \<lparr> conn_setup_initial_connection =
             virtual_code (conn_setup_initial_connection z) (conn_setup_initial_connection p),
           conn_recv_setup_request =
             (\<lambda>b. virtual_recv (conn_recv_setup_request z b) (conn_recv_setup_request p b)),
           conn_send_response =
             (\<lambda>d. virtual_code (conn_send_response z d) (conn_send_response p d)),
           conn_setup_inbound_connection =
             virtual_code (conn_setup_inbound_connection z) (conn_setup_inbound_connection p),
           conn_receive = (\<lambda>b. virtual_recv (conn_receive z b) (conn_receive p b)),
           conn_setup_outbound_connection =
             virtual_code (conn_setup_outbound_connection z) (conn_setup_outbound_connection p),
           conn_send = (\<lambda>d. virtual_code (conn_send z d) (conn_send p d)),
           conn_dispose = (\<lambda>cw. case fst cw of
               Zmq_object c \<Rightarrow> map_option on_zmq (conn_dispose z (c, snd cw))
             | Posix_object c \<Rightarrow> map_option on_posix (conn_dispose p (c, snd cw))),
           conn_shutdown = (\<lambda>cw. case fst cw of
               Zmq_object c \<Rightarrow> on_zmq (conn_shutdown z (c, snd cw))
             | Posix_object c \<Rightarrow> on_posix (conn_shutdown p (c, snd cw))),
           conn_link_layer = (\<lambda>cw. case fst cw of
               Zmq_object c \<Rightarrow> conn_link_layer z (c, snd cw)
             | Posix_object c \<Rightarrow> conn_link_layer p (c, snd cw)),
           conn_transport_layer = (\<lambda>cw. case fst cw of
               Zmq_object c \<Rightarrow> conn_transport_layer z (c, snd cw)
             | Posix_object c \<Rightarrow> conn_transport_layer p (c, snd cw)),
           conn_is_connected = (\<lambda>cw. case fst cw of
               Zmq_object c \<Rightarrow> conn_is_connected z (c, snd cw)
             | Posix_object c \<Rightarrow> conn_is_connected p (c, snd cw)) \<rparr>)"

text \<open>The contract of the two classes is the contract of the base class pointer.\<close>

lemma virtual_recv_Some:
  "virtual_recv fz fp cw = Some (r, b', cw') \<longleftrightarrow>
     (\<exists>z cw''. fst cw = Zmq_object z \<and> fz (z, snd cw) = Some (r, b', cw'') \<and> cw' = on_zmq cw'') \<or>
     (\<exists>p cw''. fst cw = Posix_object p \<and> fp (p, snd cw) = Some (r, b', cw'') \<and> cw' = on_posix cw'')"
  by (cases "fst cw") (auto simp: virtual_recv_def)

lemma virtual_code_Some:
  "virtual_code fz fp cw = Some (ec, cw') \<longleftrightarrow>
     (\<exists>z cw''. fst cw = Zmq_object z \<and> fz (z, snd cw) = Some (ec, cw'') \<and> cw' = on_zmq cw'') \<or>
     (\<exists>p cw''. fst cw = Posix_object p \<and> fp (p, snd cw) = Some (ec, cw'') \<and> cw' = on_posix cw'')"
  by (cases "fst cw") (auto simp: virtual_code_def)

lemmas virtual_simps = virtual_connector_def Let_def virtual_recv_Some virtual_code_Some on_zmq_def on_posix_def

interpretation virt: connector_contract "virtual_connector S Z env" for S :: "'w posix_ops" and Z env
proof (unfold_locales, goal_cases)
  case (1 b c r b' c')
  then show ?case by (auto simp: virtual_simps dest: zmq.recv_setup_length posix.recv_setup_length)
next
  case (2 b c r b' c')
  then show ?case by (auto simp: virtual_simps dest: zmq.receive_length posix.receive_length)
next
  case (3 b c r b' c')
  then show ?case by (auto simp: virtual_simps dest: zmq.recv_setup_error posix.recv_setup_error)
next
  case (4 b c r b' c')
  then show ?case by (auto simp: virtual_simps dest: zmq.receive_error posix.receive_error)
next
  case (5 c c')
  then show ?case by (auto simp: virtual_simps dest: zmq.initial_connects posix.initial_connects)
next
  case (6 c c')
  then show ?case
    by (cases "fst c") (auto simp: virtual_simps dest: zmq.disposed_not_connected posix.disposed_not_connected)
next
  case (7 c c' b)
  then show ?case
    by (cases "fst c") (auto simp: virtual_simps dest: zmq.disposed_recv_setup posix.disposed_recv_setup)
next
  case (8 c c' b)
  then show ?case
    by (cases "fst c") (auto simp: virtual_simps dest: zmq.disposed_receive posix.disposed_receive)
next
  case (9 c c' d)
  then show ?case
    by (cases "fst c") (auto simp: virtual_simps dest: zmq.disposed_send_response posix.disposed_send_response)
next
  case (10 c c' d)
  then show ?case
    by (cases "fst c") (auto simp: virtual_simps dest: zmq.disposed_send posix.disposed_send)
qed

section \<open>Encoders\<close>

text \<open>
  The switch has only the cases of the encodings that were built; the others reach the default. The
  encoder object is a function of the time of the call, which the ASN.1 decoder stamps on PDUs.
\<close>

definition create_encoder :: "bool \<Rightarrow> bool \<Rightarrow> 'j json_ops \<Rightarrow> aper_ops \<Rightarrow> EncodingFormat
    \<Rightarrow> (u64 \<Rightarrow> encoder_ops) option" where
  "create_encoder enable_asn1 enable_json J A format =
     (case format of
        ASN1 \<Rightarrow> if enable_asn1 then Some (Asn1E3Encoder A) else None
      | JSON \<Rightarrow> if enable_json then Some (\<lambda>now. JsonE3Encoder J) else None)"

end
