(* ===== verification/E3_Interface.thy ===== *)
theory E3_Interface
  imports E3_Factories Subscription_Manager Response_Queue Sm_Registry
begin

text \<open>
  \<^verbatim>\<open>src/core/e3_interface.cpp\<close> and \<^verbatim>\<open>include/libe3/e3_interface.hpp\<close>: the protocol layer. It owns the
  connector, the encoder, the subscription manager and the outbound queue, runs the setup, the
  subscriber and the publisher thread, and drives the service models of the process-wide registry.

  The record \<open>E3Interface\<close> holds the members of the class, and the three things outside it that its
  functions change: the registry singleton, the state of the operating system and transport
  libraries, and the calls of the two handlers the agent has installed. Everything the code takes
  from its surroundings is in \<open>platform\<close>: system calls, clocks, the random generator, the encoder
  factory of the build, the class of the service models, and the size the compiler gives to a slot
  of the outbound queue.

  A function returns an option where a call in it may never return; None also stands for the
  dereference of a null pointer. A thread's loop is a recursion over its body; what other threads do
  between two rounds is the parameter \<open>env\<close>, a function on the state.
\<close>

section \<open>State\<close>

record ('sm, 'w) platform =
  pl_posix :: "'w posix_ops"
  pl_zmq :: "'w zmq_ops"
  pl_shutdown_seen :: "'w \<Rightarrow> bool"
  pl_encoder :: "EncodingFormat \<Rightarrow> (u64 \<Rightarrow> encoder_ops) option"
  pl_sm :: "'sm service_model"
  pl_now :: "'w \<Rightarrow> u64"
  pl_steady :: "'w \<Rightarrow> u64"
  pl_random :: "'w \<Rightarrow> u32 \<times> 'w"
  pl_set_affinity :: "int \<Rightarrow> 'w \<Rightarrow> 'w"
  pl_set_niceness :: "int \<Rightarrow> 'w \<Rightarrow> 'w"
  pl_ignore_sigpipe :: "'w \<Rightarrow> 'w"
  pl_slot_size :: u32

datatype handler_call = Report_call DAppReport | Status_changed_call

record ('sm, 'w) E3Interface =
  if_config :: E3Config
  if_state :: AgentState
  if_should_stop :: bool
  if_connector :: "E3Connector option"
  if_encoder :: "(u64 \<Rightarrow> encoder_ops) option"
  if_subscription_manager :: "SubscriptionManager option"
  if_response_queue :: "ResponseQueue option"
  if_setup_thread :: bool
  if_subscriber_thread :: bool
  if_publisher_thread :: bool
  if_sm_data_thread :: bool
  if_dapp_report_handler :: bool
  if_dapp_status_changed_handler :: bool
  g_registry :: "'sm SmRegistry"
  g_world :: 'w
  g_calls :: "handler_call list"

text \<open>A thread pointer is True while its thread is joinable. The logger is set up by the constructor.\<close>

definition new_E3Interface :: "E3Config \<Rightarrow> 'sm SmRegistry \<Rightarrow> 'w \<Rightarrow> handler_call list \<Rightarrow> ('sm, 'w) E3Interface" where
  "new_E3Interface config registry w calls =
     \<lparr> if_config = config, if_state = UNINITIALIZED, if_should_stop = False,
       if_connector = None, if_encoder = None, if_subscription_manager = None,
       if_response_queue = None, if_setup_thread = False, if_subscriber_thread = False,
       if_publisher_thread = False, if_sm_data_thread = False,
       if_dapp_report_handler = False, if_dapp_status_changed_handler = False,
       g_registry = registry, g_world = w, g_calls = calls \<rparr>"

definition E3Interface_state :: "('sm, 'w) E3Interface \<Rightarrow> AgentState" where
  "E3Interface_state a = if_state a"

definition E3Interface_is_running :: "('sm, 'w) E3Interface \<Rightarrow> bool" where
  "E3Interface_is_running a \<longleftrightarrow> if_state a = RUNNING"

definition apply_thread_config :: "('sm, 'w) platform \<Rightarrow> int \<Rightarrow> int \<Rightarrow> 'w \<Rightarrow> 'w" where
  "apply_thread_config P affinity niceness w =
     (let w = (if affinity \<ge> 0 then pl_set_affinity P affinity w else w)
      in if niceness \<noteq> 0 then pl_set_niceness P niceness w else w)"

text \<open>\<^verbatim>\<open>std::uniform_int_distribution(1, 1000)\<close> on what the generator yields.\<close>

definition generate_message_id :: "('sm, 'w) platform \<Rightarrow> ('sm, 'w) E3Interface \<Rightarrow> u32 \<times> ('sm, 'w) E3Interface" where
  "generate_message_id P a =
     (let (r, w) = pl_random P (g_world a) in (1 + r mod 1000, a\<lparr> g_world := w \<rparr>))"

abbreviation now_of :: "('sm, 'w) platform \<Rightarrow> ('sm, 'w) E3Interface \<Rightarrow> u64" where
  "now_of P a \<equiv> pl_now P (g_world a)"

text \<open>The methods of the connector, on the connector member and the world.\<close>

definition the_connector :: "('sm, 'w) platform \<Rightarrow> 'w conn_state connector_ops" where
  "the_connector P = virtual_connector (pl_posix P) (pl_zmq P) (pl_shutdown_seen P)"

definition put_conn :: "'w conn_state \<Rightarrow> ('sm, 'w) E3Interface \<Rightarrow> ('sm, 'w) E3Interface" where
  "put_conn cw a = a\<lparr> if_connector := Some (fst cw), g_world := snd cw \<rparr>"

definition conn_code :: "('w conn_state \<Rightarrow> (ErrorCode \<times> 'w conn_state) option) \<Rightarrow> ('sm, 'w) E3Interface
    \<Rightarrow> (ErrorCode \<times> ('sm, 'w) E3Interface) option" where
  "conn_code f a =
     do { c \<leftarrow> if_connector a; (ec, cw) \<leftarrow> f (c, g_world a); Some (ec, put_conn cw a) }"

definition conn_recv :: "('w conn_state \<Rightarrow> (int \<times> bytes \<times> 'w conn_state) option) \<Rightarrow> ('sm, 'w) E3Interface
    \<Rightarrow> (int \<times> bytes \<times> ('sm, 'w) E3Interface) option" where
  "conn_recv f a =
     do { c \<leftarrow> if_connector a; (r, b, cw) \<leftarrow> f (c, g_world a); Some (r, b, put_conn cw a) }"

section \<open>Life cycle\<close>

definition E3Interface_init :: "('sm, 'w) platform \<Rightarrow> ('sm, 'w) E3Interface
    \<Rightarrow> (ErrorCode \<times> ('sm, 'w) E3Interface) option" where
  "E3Interface_init P a =
     (if if_state a \<noteq> UNINITIALIZED then Some (ALREADY_INITIALIZED, a)
      else
        let cfg = if_config a;
            a = a\<lparr> if_encoder := pl_encoder P (cfg_encoding cfg) \<rparr>
        in if if_encoder a = None then Some (INTERNAL_ERROR, a)
           else
             do { let a = a\<lparr> if_subscription_manager :=
                              Some (set_sm_lifecycle_callback new_SubscriptionManager True) \<rparr>;
                  q \<leftarrow> new_ResponseQueue (pl_slot_size P) 128 (now_of P a);
                  let a = a\<lparr> if_response_queue := Some q,
                            if_connector := create_connector (cfg_link_layer cfg) (cfg_transport_layer cfg)
                              (cfg_setup_endpoint cfg) (cfg_subscriber_endpoint cfg)
                              (cfg_publisher_endpoint cfg) (cfg_setup_port cfg)
                              (cfg_subscriber_port cfg) (cfg_publisher_port cfg) (cfg_io_threads cfg) \<rparr>;
                  if if_connector a = None then Some (INTERNAL_ERROR, a)
                  else Some (SUCCESS, a\<lparr> if_state := INITIALIZED \<rparr>) })"

definition E3Interface_start :: "('sm, 'w) platform \<Rightarrow> ('sm, 'w) E3Interface
    \<Rightarrow> (ErrorCode \<times> ('sm, 'w) E3Interface) option" where
  "E3Interface_start P a =
     (if if_state a \<noteq> INITIALIZED then Some (STATE_ERROR, a)
      else
        do { let a = a\<lparr> if_state := CONNECTING, if_should_stop := False \<rparr>;
             (conn_result, a) \<leftarrow> conn_code (conn_setup_initial_connection (the_connector P)) a;
             if conn_result \<noteq> SUCCESS then Some (conn_result, a\<lparr> if_state := ERROR \<rparr>)
             else Some (SUCCESS, a\<lparr> if_setup_thread := True, if_subscriber_thread := True,
                                   if_publisher_thread := True, if_state := RUNNING \<rparr>) })"

text \<open>
  \<open>join\<close> is what happens while \<^verbatim>\<open>stop\<close> joins the threads: they run to their end, or some thread does not
  end and \<^verbatim>\<open>stop\<close> never returns.
\<close>

definition stop_request :: "('sm, 'w) platform \<Rightarrow> ('sm, 'w) E3Interface \<Rightarrow> ('sm, 'w) E3Interface" where
  "stop_request P a =
     (let a = a\<lparr> if_state := STOPPING, if_should_stop := True \<rparr>;
          a = a\<lparr> if_response_queue := map_option ResponseQueue_shutdown (if_response_queue a) \<rparr>
      in case if_connector a of
           None \<Rightarrow> a
         | Some c \<Rightarrow> put_conn (conn_shutdown (the_connector P) (c, g_world a)) a)"

definition stop_finish :: "('sm, 'w) platform \<Rightarrow> ('sm, 'w) E3Interface \<Rightarrow> ('sm, 'w) E3Interface option" where
  "stop_finish P a =
     do { let a = a\<lparr> if_setup_thread := False, if_subscriber_thread := False,
                    if_publisher_thread := False, if_sm_data_thread := False,
                    g_registry := fst (SmRegistry_clear (pl_sm P) (g_registry a)) \<rparr>;
          a \<leftarrow> (case if_connector a of
                  None \<Rightarrow> Some a
                | Some c \<Rightarrow> map_option (\<lambda>cw. put_conn cw a) (conn_dispose (the_connector P) (c, g_world a)));
          Some (a\<lparr> if_state := INITIALIZED \<rparr>) }"

definition E3Interface_stop :: "('sm, 'w) platform \<Rightarrow> (('sm, 'w) E3Interface \<Rightarrow> ('sm, 'w) E3Interface option)
    \<Rightarrow> ('sm, 'w) E3Interface \<Rightarrow> ('sm, 'w) E3Interface option" where
  "E3Interface_stop P join a =
     (if if_state a = UNINITIALIZED \<or> if_state a = STOPPING then Some a
      else Option.bind (join (stop_request P a)) (stop_finish P))"

definition queue_outbound :: "('sm, 'w) E3Interface \<Rightarrow> Pdu \<Rightarrow> (ErrorCode \<times> ('sm, 'w) E3Interface) option" where
  "queue_outbound a pdu =
     (case if_response_queue a of
        None \<Rightarrow> Some (NOT_INITIALIZED, a)
      | Some q \<Rightarrow> map_option (\<lambda>(ec, q'). (ec, a\<lparr> if_response_queue := Some q' \<rparr>)) (ResponseQueue_push q pdu))"

definition E3Interface_get_available_ran_functions :: "('sm, 'w) E3Interface \<Rightarrow> u32 list" where
  "E3Interface_get_available_ran_functions a = SmRegistry_get_available_ran_functions (g_registry a)"

text \<open>The two callbacks \<^verbatim>\<open>register_sm\<close> gives to a service model.\<close>

definition subscribers_provider :: "u32 \<Rightarrow> ('sm, 'w) E3Interface \<Rightarrow> u32 list" where
  "subscribers_provider ran_function_id a =
     (case if_subscription_manager a of
        None \<Rightarrow> []
      | Some s \<Rightarrow> get_subscribed_dapps s ran_function_id)"

definition outbound_emitter :: "('sm, 'w) platform \<Rightarrow> ('sm, 'w) E3Interface \<Rightarrow> Pdu
    \<Rightarrow> (ErrorCode \<times> ('sm, 'w) E3Interface) option" where
  "outbound_emitter P a pdu =
     (if pdu_message_id pdu = 0
      then let (i, a) = generate_message_id P a in queue_outbound a (pdu\<lparr> pdu_message_id := i \<rparr>)
      else queue_outbound a pdu)"

definition E3Interface_register_sm :: "('sm, 'w) platform \<Rightarrow> ('sm, 'w) E3Interface \<Rightarrow> 'sm sm_object option
    \<Rightarrow> ErrorCode \<times> ('sm, 'w) E3Interface" where
  "E3Interface_register_sm P a sm =
     (case sm of
        None \<Rightarrow> (INVALID_PARAM, a)
      | Some ob \<Rightarrow>
          let (ec, r) = SmRegistry_register_sm (pl_sm P) (g_registry a)
                          (Some (ob\<lparr> smo_provider := True, smo_emitter := True \<rparr>))
          in (ec, a\<lparr> g_registry := r \<rparr>))"

definition set_dapp_report_handler :: "bool \<Rightarrow> ('sm, 'w) E3Interface \<Rightarrow> ('sm, 'w) E3Interface" where
  "set_dapp_report_handler h a = a\<lparr> if_dapp_report_handler := h \<rparr>"

definition set_dapp_status_changed_handler :: "bool \<Rightarrow> ('sm, 'w) E3Interface \<Rightarrow> ('sm, 'w) E3Interface" where
  "set_dapp_status_changed_handler h a = a\<lparr> if_dapp_status_changed_handler := h \<rparr>"

definition notify_dapp_status_changed :: "('sm, 'w) E3Interface \<Rightarrow> ('sm, 'w) E3Interface" where
  "notify_dapp_status_changed a =
     (if if_dapp_status_changed_handler a then a\<lparr> g_calls := g_calls a @ [Status_changed_call] \<rparr> else a)"

section \<open>Message handlers\<close>

definition on_sm_lifecycle_change :: "('sm, 'w) platform \<Rightarrow> ('sm, 'w) E3Interface \<Rightarrow> u32 \<Rightarrow> bool
    \<Rightarrow> ('sm, 'w) E3Interface" where
  "on_sm_lifecycle_change P a ran_function_id should_start =
     (if should_start
      then a\<lparr> g_registry := snd (start_sm (pl_sm P) (g_registry a) ran_function_id) \<rparr>
      else a\<lparr> g_registry := snd (stop_sm (pl_sm P) (g_registry a) ran_function_id) \<rparr>)"

text \<open>The calls of the lifecycle callback an operation of the subscription manager makes.\<close>

definition run_lifecycle :: "('sm, 'w) platform \<Rightarrow> ('sm, 'w) E3Interface \<Rightarrow> lifecycle_event list
    \<Rightarrow> ('sm, 'w) E3Interface" where
  "run_lifecycle P a evs = foldl (\<lambda>a (i, b). on_sm_lifecycle_change P a i b) a evs"

definition put_sm :: "SubscriptionManager \<Rightarrow> ('sm, 'w) E3Interface \<Rightarrow> ('sm, 'w) E3Interface" where
  "put_sm s a = a\<lparr> if_subscription_manager := Some s \<rparr>"

text \<open>The loop of \<^verbatim>\<open>handle_setup_request\<close> that describes the available RAN functions.\<close>

fun describe_ran_functions :: "'sm service_model \<Rightarrow> u32 list \<Rightarrow> 'sm SmRegistry
    \<Rightarrow> RanFunctionDef list \<times> 'sm SmRegistry" where
  "describe_ran_functions V [] r = ([], r)"
| "describe_ran_functions V (i # ids) r =
     (let (sm, r) = get_by_ran_function V r i;
          func = (case sm of
                    None \<Rightarrow> \<lparr> rf_ran_function_identifier = i, rf_telemetry_identifier_list = [],
                             rf_control_identifier_list = [], rf_ran_function_data = [] \<rparr>
                  | Some ob \<Rightarrow> \<lparr> rf_ran_function_identifier = i,
                       rf_telemetry_identifier_list = vt_telemetry_ids V (smo_state ob),
                       rf_control_identifier_list = vt_control_ids V (smo_state ob),
                       rf_ran_function_data = vt_ran_function_data V (smo_state ob) \<rparr>);
          (funcs, r) = describe_ran_functions V ids r
      in (func # funcs, r))"

definition handle_setup_request :: "('sm, 'w) platform \<Rightarrow> ('sm, 'w) E3Interface \<Rightarrow> SetupRequest \<Rightarrow> u32
    \<Rightarrow> ('sm, 'w) E3Interface option" where
  "handle_setup_request P a request request_message_id =
     do { s \<leftarrow> if_subscription_manager a;
          enc \<leftarrow> if_encoder a;
          let ((result, assigned_dapp_id), s') = register_dapp s (pl_steady P (g_world a));
          let a = put_sm s' a;
          let response_code = (if result = SUCCESS then POSITIVE else NEGATIVE);
          let a = (if result = SUCCESS then notify_dapp_status_changed a else a);
          let ids = SmRegistry_get_available_ran_functions (g_registry a);
          let (ran_function_list, r) = describe_ran_functions (pl_sm P) ids (g_registry a);
          let a = a\<lparr> g_registry := r \<rparr>;
          let (mid, a) = generate_message_id P a;
          case encode_setup_response (enc (now_of P a)) (now_of P a) mid request_message_id response_code
                 (Some (cfg_e3ap_version (if_config a))) (Some assigned_dapp_id)
                 (cfg_ran_identifier (if_config a)) ran_function_list of
            Inl _ \<Rightarrow> Some a
          | Inr m \<Rightarrow>
              do { (send_result, a) \<leftarrow> conn_code (conn_send_response (the_connector P) (em_buffer m)) a;
                   Some a } }"

definition handle_subscription_request :: "('sm, 'w) platform \<Rightarrow> ('sm, 'w) E3Interface \<Rightarrow> SubscriptionRequest
    \<Rightarrow> u32 \<Rightarrow> ('sm, 'w) E3Interface option" where
  "handle_subscription_request P a request request_message_id =
     do { s \<leftarrow> if_subscription_manager a;
          let (response_code, subscription_id, a) =
            (if \<not> is_dapp_registered s (subreq_dapp_identifier request) then (NEGATIVE, 1, a)
             else
               let ((result, sub_id), s', evs) = add_subscription s (subreq_dapp_identifier request)
                                                   (subreq_ran_function_identifier request);
                   a = run_lifecycle P (put_sm s' a) evs
               in if result = SUCCESS \<or> result = SUBSCRIPTION_EXISTS
                  then (POSITIVE, sub_id, if result = SUCCESS then notify_dapp_status_changed a else a)
                  else (NEGATIVE, sub_id, a));
          let pdu = new_Pdu SUBSCRIPTION_RESPONSE (now_of P a);
          let (mid, a) = generate_message_id P a;
          let pdu = pdu\<lparr> pdu_message_id := mid, pdu_choice := C_SubscriptionResponse
                \<lparr> subresp_request_id = request_message_id,
                  subresp_dapp_identifier = subreq_dapp_identifier request,
                  subresp_response_code = response_code,
                  subresp_subscription_id =
                    (if response_code = POSITIVE then Some subscription_id else None) \<rparr> \<rparr>;
          map_option snd (queue_outbound a pdu) }"

definition handle_subscription_delete :: "('sm, 'w) platform \<Rightarrow> ('sm, 'w) E3Interface \<Rightarrow> SubscriptionDelete
    \<Rightarrow> u32 \<Rightarrow> ('sm, 'w) E3Interface option" where
  "handle_subscription_delete P a del request_message_id =
     do { s \<leftarrow> if_subscription_manager a;
          let (result, s', evs) = remove_subscription_by_id s (subdel_dapp_identifier del)
                                    (subdel_subscription_id del);
          let a = run_lifecycle P (put_sm s' a) evs;
          let (response_code, a) =
            (if result = SUCCESS then (POSITIVE, notify_dapp_status_changed a) else (NEGATIVE, a));
          let pdu = new_Pdu MESSAGE_ACK (now_of P a);
          let (mid, a) = generate_message_id P a;
          let pdu = pdu\<lparr> pdu_message_id := mid, pdu_choice := C_MessageAck
                \<lparr> ack_request_id = request_message_id, ack_response_code = response_code \<rparr> \<rparr>;
          map_option snd (queue_outbound a pdu) }"

text \<open>
  The service model's handler runs on the object the registry holds; what it emits goes through the
  callbacks of \<^verbatim>\<open>register_sm\<close>, and its new private state is stored in the object.
\<close>

definition store_sm :: "u32 \<Rightarrow> 'sm sm_object \<Rightarrow> 'sm \<Rightarrow> ('sm, 'w) E3Interface \<Rightarrow> ('sm, 'w) E3Interface" where
  "store_sm i ob st a =
     a\<lparr> g_registry := (g_registry a)\<lparr> reg_sms :=
          AList.update i (ob\<lparr> smo_state := st \<rparr>) (reg_sms (g_registry a)) \<rparr> \<rparr>"

definition handle_control_action :: "('sm, 'w) platform \<Rightarrow> ('sm, 'w) E3Interface \<Rightarrow> DAppControlAction \<Rightarrow> u32
    \<Rightarrow> ('sm, 'w) E3Interface option" where
  "handle_control_action P a action request_message_id =
     (let i = dca_ran_function_identifier action;
          (sm, r) = get_by_ran_function (pl_sm P) (g_registry a) i;
          a = a\<lparr> g_registry := r \<rparr>
      in case sm of
           None \<Rightarrow> Some a
         | Some ob \<Rightarrow>
             if \<not> vt_is_running (pl_sm P) (smo_state ob) then Some a
             else
               do { ((result, st), a) \<leftarrow>
                      run_sm_act (outbound_emitter P) (subscribers_provider
                          (vt_ran_function_id (pl_sm P) (smo_state ob))) ob
                        (vt_handle_control_action (pl_sm P) request_message_id action (smo_state ob)) a;
                    Some (store_sm i ob st a) })"

definition handle_dapp_report :: "('sm, 'w) E3Interface \<Rightarrow> DAppReport \<Rightarrow> ('sm, 'w) E3Interface" where
  "handle_dapp_report a report =
     (if if_dapp_report_handler a then a\<lparr> g_calls := g_calls a @ [Report_call report] \<rparr> else a)"

definition handle_dapp_disconnection :: "('sm, 'w) platform \<Rightarrow> ('sm, 'w) E3Interface \<Rightarrow> u32
    \<Rightarrow> ('sm, 'w) E3Interface option" where
  "handle_dapp_disconnection P a dapp_id =
     do { s \<leftarrow> if_subscription_manager a;
          let (result, s', evs) = unregister_dapp s dapp_id;
          let a = run_lifecycle P (put_sm s' a) evs;
          Some (if result = SUCCESS then notify_dapp_status_changed a else a) }"

definition handle_release_message :: "('sm, 'w) platform \<Rightarrow> ('sm, 'w) E3Interface \<Rightarrow> ReleaseMessage
    \<Rightarrow> ('sm, 'w) E3Interface option" where
  "handle_release_message P a release = handle_dapp_disconnection P a (rel_dapp_identifier release)"

section \<open>Thread loops\<close>

definition setup_round :: "('sm, 'w) platform \<Rightarrow> ('sm, 'w) E3Interface \<Rightarrow> ('sm, 'w) E3Interface option" where
  "setup_round P a =
     do { (ret, buffer, a) \<leftarrow> conn_recv (conn_recv_setup_request (the_connector P) []) a;
          if ret \<le> 0 then Some a
          else do {
            enc \<leftarrow> if_encoder a;
            case enc_decode (enc (now_of P a)) (take (nat ret) buffer) of
              Inl _ \<Rightarrow> Some a
            | Inr pdu \<Rightarrow>
                if pdu_type pdu \<noteq> SETUP_REQUEST then Some a
                else (case pdu_choice pdu of
                        C_SetupRequest request \<Rightarrow> handle_setup_request P a request (pdu_message_id pdu)
                      | _ \<Rightarrow> Some a)
          } }"

type_synonym ('sm, 'w) thread_env = "nat \<Rightarrow> ('sm, 'w) E3Interface \<Rightarrow> ('sm, 'w) E3Interface"

partial_function (option) setup_loop :: "('sm, 'w) platform \<Rightarrow> ('sm, 'w) thread_env \<Rightarrow> nat
    \<Rightarrow> ('sm, 'w) E3Interface \<Rightarrow> ('sm, 'w) E3Interface option" where
  "setup_loop P env n a =
     (if if_should_stop a then Some a
      else Option.bind (setup_round P a) (\<lambda>a'. setup_loop P env (n + 1) (env n a')))"

text \<open>The switch of the subscriber thread; \<^verbatim>\<open>std::get_if\<close> is the inner case distinction.\<close>

definition dispatch :: "('sm, 'w) platform \<Rightarrow> ('sm, 'w) E3Interface \<Rightarrow> Pdu \<Rightarrow> ('sm, 'w) E3Interface option" where
  "dispatch P a pdu =
     (case pdu_type pdu of
        SUBSCRIPTION_REQUEST \<Rightarrow>
          (case pdu_choice pdu of
             C_SubscriptionRequest request \<Rightarrow> handle_subscription_request P a request (pdu_message_id pdu)
           | _ \<Rightarrow> Some a)
      | SUBSCRIPTION_DELETE \<Rightarrow>
          (case pdu_choice pdu of
             C_SubscriptionDelete del \<Rightarrow> handle_subscription_delete P a del (pdu_message_id pdu)
           | _ \<Rightarrow> Some a)
      | DAPP_CONTROL_ACTION \<Rightarrow>
          (case pdu_choice pdu of
             C_DAppControlAction action \<Rightarrow> handle_control_action P a action (pdu_message_id pdu)
           | _ \<Rightarrow> Some a)
      | DAPP_REPORT \<Rightarrow>
          (case pdu_choice pdu of
             C_DAppReport report \<Rightarrow> Some (handle_dapp_report a report)
           | _ \<Rightarrow> Some a)
      | RELEASE_MESSAGE \<Rightarrow>
          (case pdu_choice pdu of
             C_ReleaseMessage release \<Rightarrow> handle_release_message P a release
           | _ \<Rightarrow> Some a)
      | _ \<Rightarrow> Some a)"

definition subscriber_round :: "('sm, 'w) platform \<Rightarrow> bytes \<Rightarrow> ('sm, 'w) E3Interface
    \<Rightarrow> (bytes \<times> ('sm, 'w) E3Interface) option" where
  "subscriber_round P buffer a =
     do { (ret, buffer, a) \<leftarrow> conn_recv (conn_receive (the_connector P) buffer) a;
          if ret \<le> 0 then Some (buffer, a)
          else do {
            enc \<leftarrow> if_encoder a;
            case enc_decode (enc (now_of P a)) (take (nat ret) buffer) of
              Inl _ \<Rightarrow> Some (buffer, a)
            | Inr pdu \<Rightarrow> map_option (Pair buffer) (dispatch P a pdu)
          } }"

partial_function (option) subscriber_rounds :: "('sm, 'w) platform \<Rightarrow> ('sm, 'w) thread_env \<Rightarrow> nat \<Rightarrow> bytes
    \<Rightarrow> ('sm, 'w) E3Interface \<Rightarrow> ('sm, 'w) E3Interface option" where
  "subscriber_rounds P env n buffer a =
     (if if_should_stop a then Some a
      else Option.bind (subscriber_round P buffer a)
             (\<lambda>ba. subscriber_rounds P env (n + 1) (fst ba) (env n (snd ba))))"

definition configure_thread :: "('sm, 'w) platform \<Rightarrow> ('sm, 'w) E3Interface \<Rightarrow> ('sm, 'w) E3Interface" where
  "configure_thread P a =
     a\<lparr> g_world := apply_thread_config P (cfg_io_thread_affinity (if_config a))
                    (cfg_io_thread_niceness (if_config a)) (g_world a) \<rparr>"

definition subscriber_loop :: "('sm, 'w) platform \<Rightarrow> ('sm, 'w) thread_env
    \<Rightarrow> ('sm, 'w) E3Interface \<Rightarrow> ('sm, 'w) E3Interface option" where
  "subscriber_loop P env a =
     do { (result, a) \<leftarrow> conn_code (conn_setup_inbound_connection (the_connector P)) (configure_thread P a);
          if result \<noteq> SUCCESS then Some a else subscriber_rounds P env 0 [] a }"

text \<open>
  The publisher: it retries the outbound set-up every three seconds, then sends what it pops. \<open>pause\<close>
  and \<open>clock\<close> are the parameters of the queue's pop with a deadline, per round.
\<close>

partial_function (option) outbound_retry :: "('sm, 'w) platform \<Rightarrow> ('sm, 'w) thread_env \<Rightarrow> nat
    \<Rightarrow> ('sm, 'w) E3Interface \<Rightarrow> (bool \<times> ('sm, 'w) E3Interface) option" where
  "outbound_retry P env n a =
     (let a = env n a in
      if if_should_stop a then Some (False, a)
      else
        Option.bind (conn_code (conn_setup_outbound_connection (the_connector P)) a)
          (\<lambda>ra. if fst ra \<noteq> SUCCESS \<and> \<not> if_should_stop (snd ra)
                then outbound_retry P env (n + 1) (snd ra)
                else Some (fst ra = SUCCESS, snd ra)))"

definition publisher_round :: "('sm, 'w) platform \<Rightarrow> pause_env \<Rightarrow> (nat \<Rightarrow> int)
    \<Rightarrow> ('sm, 'w) E3Interface \<Rightarrow> ('sm, 'w) E3Interface option" where
  "publisher_round P pause clock a =
     do { q \<leftarrow> if_response_queue a;
          (pdu_opt, q') \<leftarrow> pop_timed pause clock 10 (now_of P a) q;
          let a = a\<lparr> if_response_queue := Some q' \<rparr>;
          case pdu_opt of
            None \<Rightarrow> Some a
          | Some pdu \<Rightarrow>
              do { enc \<leftarrow> if_encoder a;
                   case enc_encode (enc (now_of P a)) pdu of
                     Inl _ \<Rightarrow> Some a
                   | Inr m \<Rightarrow>
                       map_option snd (conn_code (conn_send (the_connector P) (em_buffer m)) a) } }"

partial_function (option) publisher_rounds :: "('sm, 'w) platform \<Rightarrow> ('sm, 'w) thread_env
    \<Rightarrow> (nat \<Rightarrow> pause_env) \<Rightarrow> (nat \<Rightarrow> nat \<Rightarrow> int) \<Rightarrow> nat \<Rightarrow> ('sm, 'w) E3Interface
    \<Rightarrow> ('sm, 'w) E3Interface option" where
  "publisher_rounds P env pause clock n a =
     (if if_should_stop a then Some a
      else Option.bind (publisher_round P (pause n) (clock n) a)
             (\<lambda>a'. publisher_rounds P env pause clock (n + 1) (env n a')))"

definition publisher_loop :: "('sm, 'w) platform \<Rightarrow> ('sm, 'w) thread_env \<Rightarrow> ('sm, 'w) thread_env
    \<Rightarrow> (nat \<Rightarrow> pause_env) \<Rightarrow> (nat \<Rightarrow> nat \<Rightarrow> int) \<Rightarrow> ('sm, 'w) E3Interface
    \<Rightarrow> ('sm, 'w) E3Interface option" where
  "publisher_loop P env_retry env pause clock a =
     do { let a = configure_thread P a;
          let a = a\<lparr> g_world := pl_ignore_sigpipe P (g_world a) \<rparr>;
          (connected, a) \<leftarrow> outbound_retry P env_retry 0 a;
          if \<not> connected then Some a else publisher_rounds P env pause clock 0 a }"

text \<open>
  One round of \<^verbatim>\<open>sm_data_handler_loop\<close>, which no thread runs: it looks up the service models of the
  active RAN functions, which makes those that have a factory.
\<close>

definition sm_data_round :: "('sm, 'w) platform \<Rightarrow> ('sm, 'w) E3Interface \<Rightarrow> ('sm, 'w) E3Interface option" where
  "sm_data_round P a =
     do { s \<leftarrow> if_subscription_manager a;
          Some (a\<lparr> g_registry := foldl (\<lambda>r i. if get_subscribed_dapps s i = [] then r
                                           else snd (get_by_ran_function (pl_sm P) r i))
                                    (g_registry a) (get_active_ran_functions s) \<rparr>) }"

section \<open>Invariants\<close>

text \<open>The members exist and are well formed: what holds from a successful \<^verbatim>\<open>init\<close> on.\<close>

definition iface_ok :: "('sm, 'w) E3Interface \<Rightarrow> bool" where
  "iface_ok a \<longleftrightarrow>
     (\<exists>s. if_subscription_manager a = Some s \<and> sm_good s \<and> sm_lifecycle_callback s) \<and>
     (\<exists>q xs. if_response_queue a = Some q \<and> rq_rep q xs) \<and>
     if_encoder a \<noteq> None \<and> if_connector a \<noteq> None \<and> reg_wf (g_registry a)"

lemma iface_okE:
  assumes "iface_ok a"
  obtains s q xs where "if_subscription_manager a = Some s" "sm_good s" "sm_lifecycle_callback s"
    "if_response_queue a = Some q" "rq_rep q xs"
  using assms by (auto simp: iface_ok_def)

lemma frames [simp]:
  "if_subscription_manager (put_sm s a) = Some s" "if_response_queue (put_sm s a) = if_response_queue a"
  "if_encoder (put_sm s a) = if_encoder a" "if_connector (put_sm s a) = if_connector a"
  "g_registry (put_sm s a) = g_registry a" "g_world (put_sm s a) = g_world a"
  "if_subscription_manager (notify_dapp_status_changed a) = if_subscription_manager a"
  "if_response_queue (notify_dapp_status_changed a) = if_response_queue a"
  "if_encoder (notify_dapp_status_changed a) = if_encoder a"
  "if_connector (notify_dapp_status_changed a) = if_connector a"
  "g_registry (notify_dapp_status_changed a) = g_registry a"
  "if_subscription_manager (handle_dapp_report a rep) = if_subscription_manager a"
  "if_response_queue (handle_dapp_report a rep) = if_response_queue a"
  "if_encoder (handle_dapp_report a rep) = if_encoder a"
  "if_connector (handle_dapp_report a rep) = if_connector a"
  "g_registry (handle_dapp_report a rep) = g_registry a"
  "if_config (put_sm s a) = if_config a" "if_config (notify_dapp_status_changed a) = if_config a"
  by (simp_all add: put_sm_def notify_dapp_status_changed_def handle_dapp_report_def)

lemma put_conn_frames [simp]:
  "if_subscription_manager (put_conn cw a) = if_subscription_manager a"
  "if_response_queue (put_conn cw a) = if_response_queue a" "if_encoder (put_conn cw a) = if_encoder a"
  "if_connector (put_conn cw a) = Some (fst cw)" "g_registry (put_conn cw a) = g_registry a"
  "g_world (put_conn cw a) = snd cw" "if_config (put_conn cw a) = if_config a"
  "if_should_stop (put_conn cw a) = if_should_stop a"
  by (simp_all add: put_conn_def)

lemma conn_code_Some:
  "conn_code f a = Some (ec, a') \<longleftrightarrow>
     (\<exists>c cw. if_connector a = Some c \<and> f (c, g_world a) = Some (ec, cw) \<and> a' = put_conn cw a)"
  by (auto simp: conn_code_def split: bind_splits)

lemma conn_recv_Some:
  "conn_recv f a = Some (r, b, a') \<longleftrightarrow>
     (\<exists>c cw. if_connector a = Some c \<and> f (c, g_world a) = Some (r, b, cw) \<and> a' = put_conn cw a)"
  by (auto simp: conn_recv_def split: bind_splits)

lemma generate_message_id_eq:
  "generate_message_id P a =
     (1 + fst (pl_random P (g_world a)) mod 1000, a\<lparr> g_world := snd (pl_random P (g_world a)) \<rparr>)"
  by (simp add: generate_message_id_def split_beta)

text \<open>Queueing an answer always returns; it is lost when the queue is full or shut down.\<close>

definition queued_after :: "ResponseQueue \<Rightarrow> Pdu list \<Rightarrow> Pdu \<Rightarrow> Pdu list" where
  "queued_after q xs pdu = (if rq_shutdown q \<or> length xs = rq_cap q then xs else xs @ [pdu])"

lemma queue_outbound_cases:
  assumes "if_response_queue a = Some q" and "rq_rep q xs"
  shows "\<exists>ec q'. queue_outbound a pdu = Some (ec, a\<lparr> if_response_queue := Some q' \<rparr>)
    \<and> rq_rep q' (queued_after q xs pdu) \<and> rq_shutdown q' = rq_shutdown q \<and> rq_cap q' = rq_cap q
    \<and> (rq_shutdown q \<longrightarrow> ec = NOT_INITIALIZED) \<and> (ec = SUCCESS \<longleftrightarrow> \<not> rq_shutdown q \<and> length xs \<noteq> rq_cap q)"
  using rq_push_cases[OF assms(2), of pdu] assms(1)
  by (auto simp: queue_outbound_def queued_after_def split: if_splits)

lemma emitter_cases:
  assumes "if_response_queue a = Some q" and "rq_rep q xs"
  shows "\<exists>ec q' w. outbound_emitter P a pdu = Some (ec, a\<lparr> g_world := w, if_response_queue := Some q' \<rparr>)
    \<and> (\<exists>ys. rq_rep q' ys) \<and> rq_shutdown q' = rq_shutdown q"
proof (cases "pdu_message_id pdu = 0")
  case True
  let ?a = "a\<lparr> g_world := snd (pl_random P (g_world a)) \<rparr>"
  have "if_response_queue ?a = Some q" using assms(1) by simp
  from queue_outbound_cases[OF this assms(2), of "pdu\<lparr> pdu_message_id := 1 + fst (pl_random P (g_world a)) mod 1000 \<rparr>"]
  obtain ec q' where "queue_outbound ?a (pdu\<lparr> pdu_message_id := 1 + fst (pl_random P (g_world a)) mod 1000 \<rparr>)
      = Some (ec, ?a\<lparr> if_response_queue := Some q' \<rparr>)" "\<exists>ys. rq_rep q' ys" "rq_shutdown q' = rq_shutdown q"
    by blast
  then show ?thesis using True
    by (auto simp: outbound_emitter_def generate_message_id_eq)
next
  case False
  then obtain ec q' where "outbound_emitter P a pdu = Some (ec, a\<lparr> if_response_queue := Some q' \<rparr>)"
    "\<exists>ys. rq_rep q' ys" "rq_shutdown q' = rq_shutdown q"
    using queue_outbound_cases[OF assms, of pdu] by (auto simp: outbound_emitter_def)
  then show ?thesis
    by (intro exI[of _ ec] exI[of _ q'] exI[of _ "g_world a"]) simp
qed

text \<open>A service model's handler returns, and changes only the queue and the world.\<close>

lemma run_sm_act_returns:
  assumes "if_response_queue a = Some q" and "rq_rep q xs"
  shows "\<exists>ec st q' w. run_sm_act (outbound_emitter P) prov ob act a =
      Some ((ec, st), a\<lparr> g_world := w, if_response_queue := Some q' \<rparr>)
    \<and> (\<exists>ys. rq_rep q' ys) \<and> rq_shutdown q' = rq_shutdown q"
  using assms
proof (induction act arbitrary: a q xs)
  case (Act_return ec st)
  then show ?case by (intro exI[of _ ec] exI[of _ st] exI[of _ q] exI[of _ "g_world a"]) auto
next
  case (Act_emit pdu k)
  obtain ec q1 w1 where e: "emit_outbound (outbound_emitter P) ob a pdu =
      Some (ec, a\<lparr> g_world := w1, if_response_queue := Some q1 \<rparr>)" "\<exists>ys. rq_rep q1 ys"
    "rq_shutdown q1 = rq_shutdown q"
  proof (cases "smo_emitter ob")
    case True
    then show ?thesis using emitter_cases[OF Act_emit.prems, of P pdu] that by (auto simp: emit_outbound_def)
  next
    case False
    then show ?thesis using Act_emit.prems that[of NOT_INITIALIZED q "g_world a"]
      by (auto simp: emit_outbound_def)
  qed
  then obtain ys where ys: "rq_rep q1 ys" by blast
  show ?case using Act_emit.IH[OF rangeI _ ys, of "a\<lparr> g_world := w1, if_response_queue := Some q1 \<rparr>" ec] e
    by fastforce
next
  case (Act_subscribers k)
  then show ?case by fastforce
qed

section \<open>Service models follow the subscriptions\<close>

text \<open>All private states in which a function of a service model can end satisfy \<open>Q\<close>.\<close>

primrec act_all :: "('sm \<Rightarrow> bool) \<Rightarrow> 'sm sm_act \<Rightarrow> bool" where
  "act_all Q (Act_return ec st) = Q st"
| "act_all Q (Act_emit pdu k) = (\<forall>ec. act_all Q (k ec))"
| "act_all Q (Act_subscribers k) = (\<forall>ds. act_all Q (k ds))"

lemma run_sm_act_all:
  "act_all Q act \<Longrightarrow> run_sm_act e p ob act w = Some ((ec, st), w') \<Longrightarrow> Q st"
proof (induction act arbitrary: w)
  case (Act_emit pdu k)
  then show ?case by (auto split: option.splits)
qed auto

text \<open>
  A service model whose start always succeeds and whose control handler neither starts nor stops it.
\<close>

locale reliable_sm = service_model_contract V for V :: "'sm service_model" +
  assumes start_succeeds: "fst (vt_start V st) = SUCCESS"
    and control_keeps: "act_all (\<lambda>st'. vt_is_running V st' = vt_is_running V st)
      (vt_handle_control_action V m act st)"

interpretation simple_reliable: reliable_sm "simple_sm now enc_def dec_ctl" for now enc_def dec_ctl
  by unfold_locales
    (auto simp: simple_sm_def simple_start_def simple_handle_control_action_def Let_def)

definition follows :: "'sm service_model \<Rightarrow> u32 set \<Rightarrow> 'sm SmRegistry \<Rightarrow> bool" where
  "follows V R r \<longleftrightarrow> reg_factories r = [] \<and>
     (\<forall>i ob. map_of (reg_sms r) i = Some ob \<longrightarrow> (vt_is_running V (smo_state ob) \<longleftrightarrow> i \<in> R))"

context reliable_sm
begin

lemma follows_start:
  assumes "follows V R r"
  shows "follows V (insert i R) (snd (start_sm V r i))"
proof (cases "map_of (reg_sms r) i")
  case None
  then show ?thesis using assms by (auto simp: start_sm_def follows_def)
next
  case (Some ob)
  obtain st where "vt_start V (smo_state ob) = (SUCCESS, st)" using start_succeeds by (metis prod.collapse)
  then show ?thesis using assms Some start_runs by (auto simp: start_sm_def follows_def Let_def)
qed

lemma follows_stop:
  assumes "follows V R r"
  shows "follows V (R - {i}) (snd (stop_sm V r i))"
  using assms stop_stops by (auto simp: stop_sm_def follows_def split: option.splits)

lemma follows_run:
  assumes "pl_sm P = V" and "follows V R (g_registry a)" and "replay R evs = Some R'"
  shows "follows V R' (g_registry (run_lifecycle P a evs))"
  using assms(2,3)
proof (induction evs arbitrary: R a)
  case Nil
  then show ?case by (simp add: run_lifecycle_def)
next
  case (Cons e evs)
  obtain i b where e: "e = (i, b)" by fastforce
  have step: "run_lifecycle P a (e # evs) = run_lifecycle P (on_sm_lifecycle_change P a i b) evs"
    by (simp add: run_lifecycle_def e)
  show ?case
  proof (cases b)
    case True
    then have "replay (insert i R) evs = Some R'" using Cons.prems(2) e by (simp split: if_splits)
    moreover have "follows V (insert i R) (g_registry (on_sm_lifecycle_change P a i b))"
      using follows_start[OF Cons.prems(1)] True assms(1) by (simp add: on_sm_lifecycle_change_def)
    ultimately show ?thesis using Cons.IH step by metis
  next
    case False
    then have "replay (R - {i}) evs = Some R'" using Cons.prems(2) e by (simp split: if_splits)
    moreover have "follows V (R - {i}) (g_registry (on_sm_lifecycle_change P a i b))"
      using follows_stop[OF Cons.prems(1)] False assms(1) by (simp add: on_sm_lifecycle_change_def)
    ultimately show ?thesis using Cons.IH step by metis
  qed
qed

end

text \<open>The state a handler leaves: well formed, and the service models follow the subscriptions.\<close>

definition following :: "('sm, 'w) platform \<Rightarrow> ('sm, 'w) E3Interface \<Rightarrow> bool" where
  "following P a \<longleftrightarrow> iface_ok a \<and>
     (\<forall>s. if_subscription_manager a = Some s \<longrightarrow> follows (pl_sm P) (active s) (g_registry a))"

lemma run_lifecycle_frames [simp]:
  "if_subscription_manager (run_lifecycle P a evs) = if_subscription_manager a"
  "if_response_queue (run_lifecycle P a evs) = if_response_queue a"
  "if_encoder (run_lifecycle P a evs) = if_encoder a"
  "if_connector (run_lifecycle P a evs) = if_connector a"
  "if_config (run_lifecycle P a evs) = if_config a"
  "g_world (run_lifecycle P a evs) = g_world a"
  by (induction evs arbitrary: a) (auto simp: run_lifecycle_def on_sm_lifecycle_change_def)

lemma run_lifecycle_reg_wf [simp]:
  "reg_wf (g_registry a) \<Longrightarrow> reg_wf (g_registry (run_lifecycle P a evs))"
proof (induction evs arbitrary: a)
  case (Cons e evs)
  then show ?case by (cases e) (auto simp: run_lifecycle_def on_sm_lifecycle_change_def e3_inv)
qed (simp add: run_lifecycle_def)

text \<open>What an operation of the manager does to the interface through the lifecycle callback.\<close>

lemma following_sm_step:
  assumes "reliable_sm (pl_sm P)" and "following P a" and "if_subscription_manager a = Some s"
    and "op \<noteq> Op_clear"
  shows "following P (run_lifecycle P (put_sm (sm_next s op) a) (sm_events s op))"
proof -
  have s: "sm_good s" "sm_lifecycle_callback s" using assms(2,3) by (auto simp: following_def iface_ok_def)
  have "follows (pl_sm P) (active s) (g_registry (put_sm (sm_next s op) a))"
    using assms(2,3) by (simp add: following_def)
  from reliable_sm.follows_run[OF assms(1) refl this lifecycle_step[OF s assms(4)]]
  show ?thesis
    using assms(2-4) s by (auto simp: following_def iface_ok_def sm_good_next)
qed

lemma following_notify [simp]: "following P (notify_dapp_status_changed a) = following P a"
  by (simp add: following_def iface_ok_def)

lemma following_report [simp]: "following P (handle_dapp_report a rep) = following P a"
  by (simp add: following_def iface_ok_def)

lemma following_world [simp]: "following P (a\<lparr> g_world := w \<rparr>) = following P a"
  by (simp add: following_def iface_ok_def)

lemma following_queue:
  "following P a \<Longrightarrow> rq_rep q xs \<Longrightarrow> following P (a\<lparr> if_response_queue := Some q \<rparr>)"
  by (auto simp: following_def iface_ok_def)

lemma following_put_conn: "following P a \<Longrightarrow> following P (put_conn cw a)"
  by (simp add: following_def iface_ok_def)

lemma following_queue_outbound:
  assumes "following P a" and "queue_outbound a pdu = Some (ec, a')"
  shows "following P a'"
proof -
  obtain q xs where q: "if_response_queue a = Some q" "rq_rep q xs"
    using assms(1) by (auto simp: following_def iface_ok_def)
  then show ?thesis
    using queue_outbound_cases[OF q, of pdu] following_queue[OF assms(1)] assms(2) by auto
qed

section \<open>The handlers, branch by branch\<close>

abbreviation subscription_response :: "u32 \<Rightarrow> u64 \<Rightarrow> u32 \<Rightarrow> u32 \<Rightarrow> u32 option \<Rightarrow> Pdu" where
  "subscription_response mid now m d sid \<equiv> \<lparr> pdu_type = SUBSCRIPTION_RESPONSE,
     pdu_choice = C_SubscriptionResponse \<lparr> subresp_request_id = m, subresp_dapp_identifier = d,
       subresp_response_code = (if sid = None then NEGATIVE else POSITIVE),
       subresp_subscription_id = sid \<rparr>,
     pdu_message_id = mid, pdu_timestamp = now \<rparr>"

abbreviation delete_ack :: "u32 \<Rightarrow> u64 \<Rightarrow> u32 \<Rightarrow> ResponseCode \<Rightarrow> Pdu" where
  "delete_ack mid now m code \<equiv> \<lparr> pdu_type = MESSAGE_ACK,
     pdu_choice = C_MessageAck \<lparr> ack_request_id = m, ack_response_code = code \<rparr>,
     pdu_message_id = mid, pdu_timestamp = now \<rparr>"

text \<open>The interface after a manager operation whose result is \<open>ec\<close>, and after a message id was drawn.\<close>

definition after_op :: "('sm, 'w) platform \<Rightarrow> ('sm, 'w) E3Interface \<Rightarrow> SubscriptionManager \<Rightarrow> sm_op
    \<Rightarrow> ('sm, 'w) E3Interface" where
  "after_op P a s op =
     (let a1 = run_lifecycle P (put_sm (sm_next s op) a) (sm_events s op)
      in if fst (sm_step s op) = SUCCESS then notify_dapp_status_changed a1 else a1)"

abbreviation draw :: "('sm, 'w) platform \<Rightarrow> ('sm, 'w) E3Interface \<Rightarrow> u32" where
  "draw P a \<equiv> 1 + fst (pl_random P (g_world a)) mod 1000"

abbreviation drawn :: "('sm, 'w) platform \<Rightarrow> ('sm, 'w) E3Interface \<Rightarrow> ('sm, 'w) E3Interface" where
  "drawn P a \<equiv> a\<lparr> g_world := snd (pl_random P (g_world a)) \<rparr>"

lemma after_op_frames [simp]:
  "if_subscription_manager (after_op P a s op) = Some (sm_next s op)"
  "if_response_queue (after_op P a s op) = if_response_queue a"
  "if_encoder (after_op P a s op) = if_encoder a" "if_connector (after_op P a s op) = if_connector a"
  "g_world (after_op P a s op) = g_world a"
  by (simp_all add: after_op_def Let_def notify_dapp_status_changed_def)

lemma add_registered_code:
  "is_dapp_registered s d \<Longrightarrow>
   fst (fst (add_subscription s d r)) = SUCCESS \<or> fst (fst (add_subscription s d r)) = SUBSCRIPTION_EXISTS"
  by (simp add: add_subscription_def is_dapp_registered_def split_beta Let_def)

lemma subscription_request_registered:
  assumes "if_subscription_manager a = Some s" and "is_dapp_registered s (subreq_dapp_identifier req)"
  defines "op \<equiv> Op_add (subreq_dapp_identifier req) (subreq_ran_function_identifier req)"
  shows "handle_subscription_request P a req m =
    (let a1 = after_op P a s op
     in map_option snd (queue_outbound (drawn P a1)
          (subscription_response (draw P a1) (now_of P a1) m (subreq_dapp_identifier req)
             (Some (fst (snd (sm_step s op)))))))"
proof -
  obtain ec i s' evs where e: "add_subscription s (subreq_dapp_identifier req) (subreq_ran_function_identifier req)
      = ((ec, i), s', evs)" by (metis prod_cases4 surj_pair)
  have "ec = SUCCESS \<or> ec = SUBSCRIPTION_EXISTS"
    using add_registered_code[OF assms(2), of "subreq_ran_function_identifier req"] e by simp
  then show ?thesis
    using assms(1,2) e
    by (auto simp: handle_subscription_request_def after_op_def sm_next_def sm_events_def op_def
        generate_message_id_eq Let_def new_Pdu_def)
qed

lemma subscription_request_unregistered:
  assumes "if_subscription_manager a = Some s" and "\<not> is_dapp_registered s (subreq_dapp_identifier req)"
  shows "handle_subscription_request P a req m =
    map_option snd (queue_outbound (drawn P a)
      (subscription_response (draw P a) (now_of P a) m (subreq_dapp_identifier req) None))"
  using assms by (simp add: handle_subscription_request_def generate_message_id_eq Let_def new_Pdu_def)

lemma subscription_delete_eq:
  fixes del :: SubscriptionDelete
  assumes "if_subscription_manager a = Some s"
  defines "op \<equiv> Op_remove_by_id (subdel_dapp_identifier del) (subdel_subscription_id del)"
  shows "handle_subscription_delete P a del m =
    (let a1 = after_op P a s op
     in map_option snd (queue_outbound (drawn P a1)
          (delete_ack (draw P a1) (now_of P a1) m
             (if fst (sm_step s op) = SUCCESS then POSITIVE else NEGATIVE))))"
proof -
  obtain ec s' evs where "remove_subscription_by_id s (subdel_dapp_identifier del) (subdel_subscription_id del)
      = (ec, s', evs)" by (metis prod_cases3)
  then show ?thesis
    using assms(1)
    by (auto simp: handle_subscription_delete_def after_op_def sm_next_def sm_events_def op_def
        generate_message_id_eq Let_def new_Pdu_def)
qed

lemma disconnection_eq:
  assumes "if_subscription_manager a = Some s"
  shows "handle_dapp_disconnection P a d = Some (after_op P a s (Op_unregister d))"
proof -
  obtain ec s' evs where "unregister_dapp s d = (ec, s', evs)" by (metis prod_cases3)
  then show ?thesis
    using assms by (simp add: handle_dapp_disconnection_def after_op_def sm_next_def sm_events_def Let_def)
qed

lemma following_after_op:
  assumes "reliable_sm (pl_sm P)" and "following P a" and "if_subscription_manager a = Some s"
    and "op \<noteq> Op_clear"
  shows "following P (after_op P a s op)"
  using following_sm_step[OF assms] by (simp add: after_op_def Let_def)

lemma queue_outbound_returns:
  assumes "following P a"
  shows "queue_outbound a pdu \<noteq> None"
proof -
  obtain q xs where q: "if_response_queue a = Some q" "rq_rep q xs"
    using assms by (auto simp: following_def iface_ok_def)
  then show ?thesis using queue_outbound_cases[OF q, of pdu] by auto
qed

lemma following_queued:
  assumes "following P a"
  shows "\<exists>a'. map_option snd (queue_outbound a pdu) = Some a' \<and> following P a'"
  using queue_outbound_returns[OF assms, of pdu] following_queue_outbound[OF assms, of pdu] by auto

end
