(* ===== verification/Interface_Protocol.thy ===== *)
theory Interface_Protocol
  imports E3_Interface
begin

text \<open>
  What the threads of the E3 interface achieve together: the service models run exactly while they
  have subscribers, every request is answered once, and what the publisher sends is what was queued.
  The rounds of the setup, subscriber and publisher thread and the calls of the agent are the steps
  of a relation on the interface's state.
\<close>

lemma pop_keeps_shutdown:
  "(\<And>i q. rq_shutdown q \<Longrightarrow> rq_shutdown (env i q)) \<Longrightarrow> pop_keeps rq_shutdown env"
  by (auto simp: pop_keeps_def pop_attempt_def last_attempt_def split: option.splits)

section \<open>Every message is served\<close>

lemma get_by_no_factory:
  "reg_factories r = [] \<Longrightarrow> get_by_ran_function V r i = (map_of (reg_sms r) i, r)"
  by (simp add: get_by_ran_function_def split: option.split)

lemma describe_no_factory:
  "reg_factories r = [] \<Longrightarrow> snd (describe_ran_functions V ids r) = r"
  by (induction ids) (simp_all add: get_by_no_factory split_beta Let_def)

lemma following_store_sm:
  assumes "following P a" and "map_of (reg_sms (g_registry a)) i = Some ob"
    and "vt_is_running (pl_sm P) st = vt_is_running (pl_sm P) (smo_state ob)"
  shows "following P (store_sm i ob st a)"
  using assms by (auto simp: following_def iface_ok_def follows_def store_sm_def reg_wf_def)

lemma following_control_action:
  assumes "reliable_sm (pl_sm P)" and "following P a"
  shows "\<exists>a'. handle_control_action P a act m = Some a' \<and> following P a'"
proof -
  obtain s q xs where a: "if_subscription_manager a = Some s" "if_response_queue a = Some q" "rq_rep q xs"
    "reg_factories (g_registry a) = []"
    using assms(2) by (auto simp: following_def iface_ok_def follows_def)
  note look = get_by_no_factory[OF a(4)]
  show ?thesis
  proof (cases "map_of (reg_sms (g_registry a)) (dca_ran_function_identifier act)")
    case None
    then show ?thesis using assms(2) by (simp add: handle_control_action_def look Let_def)
  next
    case (Some ob)
    let ?act = "vt_handle_control_action (pl_sm P) m act (smo_state ob)"
    show ?thesis
    proof (cases "vt_is_running (pl_sm P) (smo_state ob)")
      case False
      then show ?thesis using assms(2) Some by (simp add: handle_control_action_def look Let_def)
    next
      case True
      obtain ec st q' w ys where r: "run_sm_act (outbound_emitter P)
          (subscribers_provider (vt_ran_function_id (pl_sm P) (smo_state ob))) ob ?act a
        = Some ((ec, st), a\<lparr> g_world := w, if_response_queue := Some q' \<rparr>)" "rq_rep q' ys"
        using run_sm_act_returns[OF a(2,3), of P "subscribers_provider (vt_ran_function_id (pl_sm P) (smo_state ob))"
            ob ?act] by blast
      have run: "vt_is_running (pl_sm P) st = vt_is_running (pl_sm P) (smo_state ob)"
        using run_sm_act_all[OF reliable_sm.control_keeps[OF assms(1)] r(1)] .
      let ?a = "a\<lparr> g_world := w, if_response_queue := Some q' \<rparr>"
      have "following P ?a" using following_queue[OF _ r(2), of P "a\<lparr> g_world := w \<rparr>"] assms(2) by simp
      then have "following P (store_sm (dca_ran_function_identifier act) ob st ?a)"
        by (rule following_store_sm) (use run Some in simp_all)
      then show ?thesis using True Some r(1) by (simp add: handle_control_action_def look Let_def)
    qed
  qed
qed

lemma following_subscription_request:
  assumes "reliable_sm (pl_sm P)" and "following P a"
  shows "\<exists>a'. handle_subscription_request P a req m = Some a' \<and> following P a'"
proof -
  obtain s where s: "if_subscription_manager a = Some s" using assms(2) by (auto simp: following_def iface_ok_def)
  show ?thesis
  proof (cases "is_dapp_registered s (subreq_dapp_identifier req)")
    case True
    show ?thesis
      unfolding subscription_request_registered[OF s True] Let_def
      by (rule following_queued) (use following_after_op[OF assms s] in simp)
  next
    case False
    show ?thesis
      unfolding subscription_request_unregistered[OF s False]
      by (rule following_queued) (use assms(2) in simp)
  qed
qed

lemma following_subscription_delete:
  assumes "reliable_sm (pl_sm P)" and "following P a"
  shows "\<exists>a'. handle_subscription_delete P a del m = Some a' \<and> following P a'"
proof -
  obtain s where s: "if_subscription_manager a = Some s" using assms(2) by (auto simp: following_def iface_ok_def)
  show ?thesis
    unfolding subscription_delete_eq[OF s] Let_def
    by (rule following_queued) (use following_after_op[OF assms s] in simp)
qed

lemma following_release:
  assumes "reliable_sm (pl_sm P)" and "following P a"
  shows "\<exists>a'. handle_release_message P a rel = Some a' \<and> following P a'"
proof -
  obtain s where s: "if_subscription_manager a = Some s" using assms(2) by (auto simp: following_def iface_ok_def)
  show ?thesis
    by (simp add: handle_release_message_def disconnection_eq[OF s] following_after_op[OF assms s])
qed

lemma following_dispatch:
  assumes "reliable_sm (pl_sm P)" and "following P a"
  shows "\<exists>a'. dispatch P a pdu = Some a' \<and> following P a'"
  using following_subscription_request[OF assms] following_subscription_delete[OF assms]
    following_control_action[OF assms] following_release[OF assms] assms(2)
  by (auto simp: dispatch_def split: PduType.split PduChoice.split)

lemma active_register:
  assumes "sm_good s" and "sm_lifecycle_callback s"
  shows "active (snd (register_dapp s now)) = active s"
  using lifecycle_step[OF assms, of "Op_register now"] by simp

text \<open>The interface when the setup response is sent, and the PDU the response is.\<close>

definition setup_registered :: "('sm, 'w) platform \<Rightarrow> ('sm, 'w) E3Interface \<Rightarrow> SubscriptionManager
    \<Rightarrow> ('sm, 'w) E3Interface" where
  "setup_registered P a s = drawn P ((after_op P a s (Op_register (pl_steady P (g_world a))))\<lparr> g_registry :=
     snd (describe_ran_functions (pl_sm P) (SmRegistry_get_available_ran_functions (g_registry a)) (g_registry a)) \<rparr>)"

definition setup_reply :: "('sm, 'w) platform \<Rightarrow> ('sm, 'w) E3Interface \<Rightarrow> SubscriptionManager \<Rightarrow> u32 \<Rightarrow> Pdu" where
  "setup_reply P a s m =
     (let r = sm_step s (Op_register (pl_steady P (g_world a)))
      in pdu_of (now_of P (setup_registered P a s)) (draw P a) SETUP_RESPONSE (C_SetupResponse
           \<lparr>sresp_request_id = m, sresp_response_code = (if fst r = SUCCESS then POSITIVE else NEGATIVE),
             sresp_e3ap_protocol_version = Some (cfg_e3ap_version (if_config a)),
             sresp_dapp_identifier = Some (fst (snd r)),
             sresp_ran_identifier = cfg_ran_identifier (if_config a),
             sresp_ran_function_list =
               fst (describe_ran_functions (pl_sm P)
                 (SmRegistry_get_available_ran_functions (g_registry a)) (g_registry a))\<rparr>))"

lemma bind_snd: "x \<bind> (\<lambda>(e, y). Some y) = map_option snd x"
  by (cases x) auto

lemma setup_request_eq:
  assumes "if_subscription_manager a = Some s" and "if_encoder a = Some enc"
  shows "handle_setup_request P a req m =
    (case enc_encode (enc (now_of P (setup_registered P a s))) (setup_reply P a s m) of
       Inl _ \<Rightarrow> Some (setup_registered P a s)
     | Inr msg \<Rightarrow> map_option snd (conn_code (conn_send_response (the_connector P) (em_buffer msg))
                    (setup_registered P a s)))"
proof -
  obtain ec d s' where r: "register_dapp s (pl_steady P (g_world a)) = ((ec, d), s')" by (metis prod.exhaust)
  define b where "b = (if ec = SUCCESS then notify_dapp_status_changed (put_sm s' a) else put_sm s' a)"
  have b: "g_registry b = g_registry a" "g_world b = g_world a" "if_config b = if_config a"
    by (simp_all add: b_def notify_dapp_status_changed_def)
  let ?d = "describe_ran_functions (pl_sm P) (SmRegistry_get_available_ran_functions (g_registry a)) (g_registry a)"
  obtain fs g where d: "?d = (fs, g)" by fastforce
  have a1: "setup_registered P a s = drawn P (b\<lparr> g_registry := g \<rparr>)"
    by (simp add: setup_registered_def after_op_def r Let_def run_lifecycle_def b_def sm_next_def d)
  show ?thesis
  proof (cases "ec = SUCCESS")
    case True
    then have "notify_dapp_status_changed (put_sm s' a) = b" by (simp add: b_def)
    then show ?thesis
      using assms r d True b
      by (simp add: handle_setup_request_def setup_reply_def a1 generate_message_id_eq
          encode_setup_response_def Let_def bind_snd split: sum.split)
  next
    case False
    then have "put_sm s' a = b" by (simp add: b_def)
    then show ?thesis
      using assms r d False b
      by (simp add: handle_setup_request_def setup_reply_def a1 generate_message_id_eq
          encode_setup_response_def Let_def bind_snd split: sum.split)
  qed
qed

section \<open>Steps of the running interface\<close>

text \<open>
  A step is a round of one of the three threads, or a call of the user: of the agent, which passes it to
  the interface, or of the registry, which is a singleton that everyone can reach. The pauses of the
  publisher's pop leave a well-formed queue, and one that is shut down stays so. \<open>G\<close> says which calls of
  the registry are made in which states; \<open>\<lambda>_ _. True\<close> allows them all. Life cycle calls are added below.
\<close>

datatype 'sm registry_call =
  Reg_model "'sm sm_object" | Reg_factory u32 "(nat \<Rightarrow> 'sm option) option" | Reg_unregister u32

fun registry_called :: "('sm, 'w) platform \<Rightarrow> ('sm, 'w) E3Interface \<Rightarrow> 'sm registry_call \<Rightarrow> ('sm, 'w) E3Interface" where
  "registry_called P a (Reg_model ob) = snd (E3Interface_register_sm P a (Some ob))"
| "registry_called P a (Reg_factory i f) = a\<lparr> g_registry := snd (register_sm_factory (g_registry a) i f) \<rparr>"
| "registry_called P a (Reg_unregister i) = a\<lparr> g_registry := fst (snd (unregister_sm (pl_sm P) (g_registry a) i)) \<rparr>"

inductive iface_step :: "('sm, 'w) platform \<Rightarrow> (('sm, 'w) E3Interface \<Rightarrow> 'sm registry_call \<Rightarrow> bool)
    \<Rightarrow> ('sm, 'w) E3Interface \<Rightarrow> ('sm, 'w) E3Interface \<Rightarrow> bool" for P G where
  Setup: "setup_round P a = Some a' \<Longrightarrow> iface_step P G a a'"
| Subscriber: "subscriber_round P buf a = Some (buf', a') \<Longrightarrow> iface_step P G a a'"
| Publisher: "publisher_round P pause clock a = Some a' \<Longrightarrow> (\<And>i q. rq_ok q \<Longrightarrow> rq_ok (pause i q))
    \<Longrightarrow> (\<And>i q. rq_shutdown q \<Longrightarrow> rq_shutdown (pause i q)) \<Longrightarrow> iface_step P G a a'"
| Queue: "queue_outbound a pdu = Some (ec, a') \<Longrightarrow> iface_step P G a a'"
| Emit: "outbound_emitter P a pdu = Some (ec, a') \<Longrightarrow> iface_step P G a a'"
| Registry: "G a c \<Longrightarrow> iface_step P G a (registry_called P a c)"
| World: "iface_step P G a (a\<lparr> g_world := w \<rparr>)"

abbreviation any_call :: "('sm, 'w) E3Interface \<Rightarrow> 'sm registry_call \<Rightarrow> bool" where
  "any_call \<equiv> \<lambda>_ _. True"

text \<open>
  The calls for which a service model follows its subscriptions: it is registered while it is stopped
  and its RAN function has no subscribers, and not through a factory. The code checks neither.
\<close>

fun idle_registration :: "('sm, 'w) platform \<Rightarrow> ('sm, 'w) E3Interface \<Rightarrow> 'sm registry_call \<Rightarrow> bool" where
  "idle_registration P a (Reg_model ob) \<longleftrightarrow>
     \<not> vt_is_running (pl_sm P) (snd (vt_init (pl_sm P) (smo_state ob)))
     \<and> subscribers_provider (vt_ran_function_id (pl_sm P) (smo_state ob)) a = []"
| "idle_registration P a (Reg_factory i f) \<longleftrightarrow> False"
| "idle_registration P a (Reg_unregister i) \<longleftrightarrow> True"

text \<open>The steps with start and stop; while stop joins the threads, they go on.\<close>

inductive service_step :: "('sm, 'w) platform \<Rightarrow> (('sm, 'w) E3Interface \<Rightarrow> 'sm registry_call \<Rightarrow> bool)
    \<Rightarrow> ('sm, 'w) E3Interface \<Rightarrow> ('sm, 'w) E3Interface \<Rightarrow> bool" for P G where
  Step: "iface_step P G a a' \<Longrightarrow> service_step P G a a'"
| Start: "E3Interface_start P a = Some (ec, a') \<Longrightarrow> service_step P G a a'"
| Stop: "E3Interface_stop P join a = Some a' \<Longrightarrow> (\<And>b b'. join b = Some b' \<Longrightarrow> (iface_step P G)\<^sup>*\<^sup>* b b')
    \<Longrightarrow> service_step P G a a'"

lemma following_setup_request:
  assumes "following P a" and "handle_setup_request P a req m = Some a'"
  shows "following P a'"
proof -
  obtain s enc where s: "if_subscription_manager a = Some s" "sm_good s" "sm_lifecycle_callback s"
    "if_encoder a = Some enc" "reg_factories (g_registry a) = []"
    "follows (pl_sm P) (active s) (g_registry a)"
    using assms(1) by (auto simp: following_def iface_ok_def follows_def)
  have "following P (setup_registered P a s)"
    using assms(1) s active_register[OF s(2,3)] sm_good_next[OF s(2), of "Op_register (pl_steady P (g_world a))"]
      callback_next[OF s(2), of "Op_register (pl_steady P (g_world a))"]
    by (auto simp: setup_registered_def following_def iface_ok_def after_op_def Let_def run_lifecycle_def
        describe_no_factory)
  then show ?thesis
    using assms(2) following_put_conn
    by (auto simp: setup_request_eq[OF s(1,4)] conn_code_Some split: sum.splits)
qed

lemma following_register:
  assumes "following P a" and "\<not> vt_is_running (pl_sm P) (snd (vt_init (pl_sm P) (smo_state ob)))"
    and "subscribers_provider (vt_ran_function_id (pl_sm P) (smo_state ob)) a = []"
  shows "following P (snd (E3Interface_register_sm P a (Some ob)))"
proof -
  let ?ob = "ob\<lparr> smo_provider := True, smo_emitter := True \<rparr>"
  obtain ec r where r: "SmRegistry_register_sm (pl_sm P) (g_registry a) (Some ?ob) = (ec, r)" by fastforce
  have wf: "reg_wf r" using reg_wf_ops(1)[of "g_registry a" "pl_sm P" "Some ?ob"] assms(1) r
    by (simp add: following_def iface_ok_def)
  have "follows (pl_sm P) (active s) r" if s: "if_subscription_manager a = Some s" for s
  proof (cases "ec = SUCCESS")
    case True
    have "vt_ran_function_id (pl_sm P) (smo_state ob) \<notin> active s"
      using assms(3) s by (simp add: subscribers_provider_def)
    then show ?thesis using assms(1,2) s register_ok(3)[OF r[unfolded True]]
      by (auto simp: following_def follows_def)
  next
    case False
    then have "r = g_registry a" using r by (auto simp: SmRegistry_register_sm_def Let_def split: if_splits prod.splits)
    then show ?thesis using assms(1) s by (simp add: following_def)
  qed
  then show ?thesis using assms(1) wf r by (simp add: E3Interface_register_sm_def following_def iface_ok_def)
qed

text \<open>
  What the parts of a round and the calls of the agent keep, every step keeps.
\<close>

locale interface_invariant =
  fixes P :: "('sm, 'w) platform" and G :: "('sm, 'w) E3Interface \<Rightarrow> 'sm registry_call \<Rightarrow> bool"
    and I :: "('sm, 'w) E3Interface \<Rightarrow> bool"
  assumes inv_conn: "I a \<Longrightarrow> I (put_conn cw a)"
    and inv_setup: "I a \<Longrightarrow> handle_setup_request P a req m = Some a' \<Longrightarrow> I a'"
    and inv_dispatch: "I a \<Longrightarrow> dispatch P a pdu = Some a' \<Longrightarrow> I a'"
    and inv_pop: "I a \<Longrightarrow> if_response_queue a = Some q \<Longrightarrow> pop_timed pause clock 10 t q = Some (x, q') \<Longrightarrow>
        \<forall>i q. rq_ok q \<longrightarrow> rq_ok (pause i q) \<Longrightarrow> \<forall>i q. rq_shutdown q \<longrightarrow> rq_shutdown (pause i q) \<Longrightarrow>
        I (a\<lparr> if_response_queue := Some q' \<rparr>)"
    and inv_queue: "I a \<Longrightarrow> queue_outbound a pdu = Some (ec, a') \<Longrightarrow> I a'"
    and inv_world: "I a \<Longrightarrow> I (a\<lparr> g_world := w \<rparr>)"
    and inv_registry: "I a \<Longrightarrow> G a c \<Longrightarrow> I (registry_called P a c)"
begin

lemma inv_publisher:
  assumes "publisher_round P pause clock a = Some a'" and "I a"
    and "\<forall>i q. rq_ok q \<longrightarrow> rq_ok (pause i q)" and "\<forall>i q. rq_shutdown q \<longrightarrow> rq_shutdown (pause i q)"
  shows "I a'"
proof -
  obtain q x q' where q: "if_response_queue a = Some q" "pop_timed pause clock 10 (now_of P a) q = Some (x, q')"
    using assms(1) by (auto simp: publisher_round_def split: bind_splits)
  have "I (a\<lparr> if_response_queue := Some q' \<rparr>)" using inv_pop[OF assms(2) q assms(3,4)] .
  then show ?thesis using assms(1) q inv_conn
    by (auto simp: publisher_round_def conn_code_Some Let_def split: option.splits bind_splits sum.splits)
qed

lemma inv_step:
  assumes "iface_step P G a a'" and "I a"
  shows "I a'"
  using assms(1)
proof cases
  case Setup
  then obtain ret buf cw where r: "conn_recv (conn_recv_setup_request (the_connector P) []) a
      = Some (ret, buf, put_conn cw a)"
    by (auto simp: setup_round_def conn_recv_Some split: bind_splits)
  then show ?thesis using Setup inv_conn[OF assms(2), of cw] inv_setup
    by (auto simp: setup_round_def split: if_splits bind_splits sum.splits PduChoice.splits)
next
  case (Subscriber buf buf')
  then obtain ret b cw where r: "conn_recv (conn_receive (the_connector P) buf) a = Some (ret, b, put_conn cw a)"
    by (auto simp: subscriber_round_def conn_recv_Some split: bind_splits)
  then show ?thesis using Subscriber inv_conn[OF assms(2), of cw] inv_dispatch
    by (auto simp: subscriber_round_def split: if_splits bind_splits sum.splits)
next
  case (Emit pdu ec)
  then have "\<exists>b p. I b \<and> queue_outbound b p = Some (ec, a')"
    using assms(2) inv_world[OF assms(2)]
    by (fastforce simp: outbound_emitter_def generate_message_id_eq split: if_splits)
  then show ?thesis using inv_queue by blast
qed (use assms(2) inv_publisher inv_queue inv_registry inv_world in blast)+

lemma inv_steps: "(iface_step P G)\<^sup>*\<^sup>* a b \<Longrightarrow> I a \<Longrightarrow> I b"
  by (induction rule: rtranclp_induct) (use inv_step in blast)+

end

lemma following_invariant:
  assumes "reliable_sm (pl_sm P)"
  shows "interface_invariant P (idle_registration P) (following P)"
proof (unfold_locales, goal_cases)
  case (3 a pdu a')
  then show ?case using following_dispatch[OF assms, of a pdu] by auto
next
  case (4 a q pause clock t x q')
  then have "rq_ok q" by (auto simp: following_def iface_ok_def)
  from pop_timed_keeps[OF pop_keeps_rq_ok this 4(3)] 4 following_queue show ?case by auto
next
  case (7 a c)
  then show ?case
  proof (cases c)
    case (Reg_unregister i)
    have "follows (pl_sm P) R (fst (snd (unregister_sm (pl_sm P) (g_registry a) i)))"
      if "follows (pl_sm P) R (g_registry a)" for R
      using that by (auto simp: follows_def unregister_sm_def delete_conv' split: option.splits if_splits)
    then show ?thesis using 7(1) Reg_unregister
      by (auto simp: following_def iface_ok_def reg_wf_ops)
  qed (use 7 following_register in auto)
qed (use following_put_conn following_setup_request following_queue_outbound in \<open>auto\<close>)

lemma following_stop_request: "following P a \<Longrightarrow> following P (stop_request P a)"
  by (auto simp: stop_request_def Let_def following_def iface_ok_def rq_rep_def ResponseQueue_shutdown_def put_conn_def
      split: option.split)

lemma following_stop_finish:
  assumes "following P a" and "stop_finish P a = Some a'"
  shows "following P a'"
proof -
  have "follows (pl_sm P) R (fst (SmRegistry_clear (pl_sm P) r))" for R r
    by (simp add: follows_def SmRegistry_clear_def)
  then show ?thesis using assms
    by (auto simp: stop_finish_def following_def iface_ok_def put_conn_def Let_def reg_wf_ops(7) split: option.splits bind_splits)
qed

lemma following_stop:
  assumes "reliable_sm (pl_sm P)" and "following P a"
    and "\<And>b b'. join b = Some b' \<Longrightarrow> (iface_step P (idle_registration P))\<^sup>*\<^sup>* b b'"
    and "E3Interface_stop P join a = Some a'"
  shows "following P a'"
proof (cases "if_state a = UNINITIALIZED \<or> if_state a = STOPPING")
  case True
  then show ?thesis using assms(2,4) by (simp add: E3Interface_stop_def)
next
  case False
  then obtain b where b: "join (stop_request P a) = Some b" "stop_finish P b = Some a'"
    using assms(4) by (auto simp: E3Interface_stop_def split: bind_splits)
  have "following P b"
    using interface_invariant.inv_steps[OF following_invariant[OF assms(1)] assms(3)[OF b(1)]]
      following_stop_request[OF assms(2)] by blast
  then show ?thesis using following_stop_finish b(2) by blast
qed

lemma following_start:
  assumes "following P a" and "E3Interface_start P a = Some (ec, a')"
  shows "following P a'"
proof -
  let ?a = "a\<lparr> if_state := CONNECTING, if_should_stop := False \<rparr>"
  show ?thesis
  proof (cases "if_state a = INITIALIZED")
    case True
    then obtain cr cw where c: "conn_code (conn_setup_initial_connection (the_connector P)) ?a = Some (cr, put_conn cw ?a)"
      using assms(2) by (auto simp: E3Interface_start_def conn_code_Some split: bind_splits)
    have "following P (put_conn cw ?a)" using following_put_conn[of P ?a] assms(1) by (simp add: following_def iface_ok_def)
    then show ?thesis using assms(2) True c
      by (auto simp: E3Interface_start_def following_def iface_ok_def split: if_splits)
  qed (use assms in \<open>simp add: E3Interface_start_def\<close>)
qed

lemma following_service_steps:
  assumes "reliable_sm (pl_sm P)" and "(service_step P (idle_registration P))\<^sup>*\<^sup>* a b" and "following P a"
  shows "following P b"
  using assms(2,3)
proof (induction rule: rtranclp_induct)
  case (step b b')
  then have b: "following P b" by blast
  from step.hyps(2) show ?case
  proof cases
    case Step
    then show ?thesis using interface_invariant.inv_step[OF following_invariant[OF assms(1)] _ b] by blast
  next
    case (Stop join)
    then show ?thesis using following_stop[OF assms(1) b] by blast
  qed (use following_start b in blast)
qed

lemma active_new: "active (set_sm_lifecycle_callback new_SubscriptionManager b) = {}"
  by (simp add: set_eq_iff get_subscribed_dapps_def set_sm_lifecycle_callback_def new_SubscriptionManager_def)

lemma following_init:
  assumes "E3Interface_init P a = Some (SUCCESS, a0)" and "reg_wf (g_registry a)"
    and "follows (pl_sm P) {} (g_registry a)"
  shows "following P a0"
proof -
  obtain q where q: "new_ResponseQueue (pl_slot_size P) 128 (now_of P a) = Some q" "rq_rep q []"
    using rq_rep_new[of 128 "pl_slot_size P" "now_of P a"] by auto
  then have "if_subscription_manager a0 = Some (set_sm_lifecycle_callback new_SubscriptionManager True)"
    "if_response_queue a0 = Some q" "if_encoder a0 \<noteq> None" "if_connector a0 \<noteq> None" "g_registry a0 = g_registry a"
    using assms(1) by (auto simp: E3Interface_init_def Let_def split: if_splits)
  then show ?thesis
    using assms(2,3) q(2) sm_good_new[of True] active_new[of True]
    by (auto simp: following_def iface_ok_def set_sm_lifecycle_callback_def)
qed

section \<open>Steps keep the interface well formed\<close>

text \<open>Without assumptions on the service models: the members stay well formed and the state stays.\<close>

definition iface_keeps :: "('sm, 'w) E3Interface \<Rightarrow> ('sm, 'w) E3Interface \<Rightarrow> bool" where
  "iface_keeps a a' \<longleftrightarrow> iface_ok a' \<and> if_state a' = if_state a"

lemma run_lifecycle_state [simp]: "if_state (run_lifecycle P a evs) = if_state a"
  by (induction evs arbitrary: a) (auto simp: run_lifecycle_def on_sm_lifecycle_change_def)

lemma put_sm_state [simp]: "if_state (put_sm s a) = if_state a"
  by (simp add: put_sm_def)

lemma keeps_refl: "iface_ok a \<Longrightarrow> iface_keeps a a"
  by (simp add: iface_keeps_def)

lemma keeps_after_op:
  assumes "iface_ok a" and "if_subscription_manager a = Some s" and "op \<noteq> Op_clear"
  shows "iface_keeps a (after_op P a s op)" and "iface_keeps a (drawn P (after_op P a s op))"
proof -
  have "sm_good s" "sm_lifecycle_callback s" "reg_wf (g_registry a)" using assms by (auto simp: iface_ok_def)
  then have "sm_good (sm_next s op)" "sm_lifecycle_callback (sm_next s op)" "reg_wf (g_registry (after_op P a s op))"
    using assms(3) by (simp_all add: sm_good_next after_op_def Let_def del: sm_next_simps)
  moreover have "if_state (after_op P a s op) = if_state a"
    by (simp add: after_op_def Let_def notify_dapp_status_changed_def)
  ultimately show "iface_keeps a (after_op P a s op)" "iface_keeps a (drawn P (after_op P a s op))"
    using assms(1) by (simp_all add: iface_keeps_def iface_ok_def del: sm_next_simps)
qed

lemma keeps_queued:
  assumes "iface_keeps a b"
  shows "\<exists>a'. map_option snd (queue_outbound b pdu) = Some a' \<and> iface_keeps a a'"
proof -
  obtain q xs where q: "if_response_queue b = Some q" "rq_rep q xs"
    using assms by (auto simp: iface_keeps_def iface_ok_def)
  then obtain q' ys ec where "queue_outbound b pdu = Some (ec, b\<lparr> if_response_queue := Some q' \<rparr>)" "rq_rep q' ys"
    using queue_outbound_cases[OF q, of pdu] by blast
  then show ?thesis using assms by (auto simp: iface_keeps_def iface_ok_def)
qed

lemma keeps_manager_handlers:
  assumes "iface_ok a"
  shows "\<exists>a'. handle_subscription_request P a req m = Some a' \<and> iface_keeps a a'"
    and "\<exists>a'. handle_subscription_delete P a del m = Some a' \<and> iface_keeps a a'"
    and "\<exists>a'. handle_release_message P a rel = Some a' \<and> iface_keeps a a'"
proof -
  obtain s where s: "if_subscription_manager a = Some s" using assms by (auto simp: iface_ok_def)
  note op = keeps_after_op[OF assms s]
  have dr: "iface_keeps a (drawn P a)" using assms by (simp add: iface_keeps_def iface_ok_def)
  show "\<exists>a'. handle_subscription_request P a req m = Some a' \<and> iface_keeps a a'"
  proof (cases "is_dapp_registered s (subreq_dapp_identifier req)")
    case True
    show ?thesis unfolding subscription_request_registered[OF s True] Let_def by (rule keeps_queued[OF op(2)]) simp
  next
    case False
    show ?thesis unfolding subscription_request_unregistered[OF s False] by (rule keeps_queued[OF dr])
  qed
  show "\<exists>a'. handle_subscription_delete P a del m = Some a' \<and> iface_keeps a a'"
    unfolding subscription_delete_eq[OF s] Let_def by (rule keeps_queued[OF op(2)]) simp
  show "\<exists>a'. handle_release_message P a rel = Some a' \<and> iface_keeps a a'"
    using op(1) by (simp add: handle_release_message_def disconnection_eq[OF s])
qed

lemma keeps_control_action:
  assumes "iface_ok a"
  shows "\<exists>a'. handle_control_action P a act m = Some a' \<and> iface_keeps a a'"
proof -
  obtain sm r where g: "get_by_ran_function (pl_sm P) (g_registry a) (dca_ran_function_identifier act) = (sm, r)"
    by fastforce
  let ?a = "a\<lparr> g_registry := r \<rparr>"
  have "reg_wf r" using reg_wf_ops(4)[of "g_registry a" "pl_sm P"] g assms by (metis iface_ok_def snd_conv)
  then have k: "iface_keeps a ?a" using assms by (simp add: iface_keeps_def iface_ok_def)
  show ?thesis
  proof (cases "\<exists>ob. sm = Some ob \<and> vt_is_running (pl_sm P) (smo_state ob)")
    case False
    then have "handle_control_action P a act m = Some ?a"
      using g by (auto simp: handle_control_action_def Let_def split: option.splits)
    then show ?thesis using k by simp
  next
    case True
    then obtain ob where ob: "sm = Some ob" "vt_is_running (pl_sm P) (smo_state ob)" by blast
    obtain q xs where q: "if_response_queue ?a = Some q" "rq_rep q xs" using assms by (auto simp: iface_ok_def)
    obtain ec st q' w ys where r: "run_sm_act (outbound_emitter P)
        (subscribers_provider (vt_ran_function_id (pl_sm P) (smo_state ob))) ob
        (vt_handle_control_action (pl_sm P) m act (smo_state ob)) ?a
        = Some ((ec, st), ?a\<lparr> g_world := w, if_response_queue := Some q' \<rparr>)" "rq_rep q' ys"
      using run_sm_act_returns[OF q, of P "subscribers_provider (vt_ran_function_id (pl_sm P) (smo_state ob))"
          ob "vt_handle_control_action (pl_sm P) m act (smo_state ob)"] by blast
    have "handle_control_action P a act m = Some (store_sm (dca_ran_function_identifier act) ob st
        (?a\<lparr> g_world := w, if_response_queue := Some q' \<rparr>))"
      using g ob r(1) by (simp add: handle_control_action_def Let_def)
    then show ?thesis using k r(2) by (auto simp: iface_keeps_def iface_ok_def store_sm_def reg_wf_def)
  qed
qed

lemma keeps_dispatch:
  assumes "iface_ok a"
  shows "\<exists>a'. dispatch P a pdu = Some a' \<and> iface_keeps a a'"
proof -
  have "iface_keeps a (handle_dapp_report a rep)" for rep
    using assms by (simp add: iface_keeps_def iface_ok_def handle_dapp_report_def)
  then show ?thesis
    using keeps_manager_handlers[OF assms] keeps_control_action[OF assms] keeps_refl[OF assms]
    unfolding dispatch_def by (cases "pdu_type pdu"; cases "pdu_choice pdu") simp_all
qed

lemma describe_reg_wf: "reg_wf r \<Longrightarrow> reg_wf (snd (describe_ran_functions V ids r))"
proof (induction ids arbitrary: r)
  case (Cons i ids)
  then show ?case using reg_wf_ops(4)[of r V i] by (simp add: split_beta Let_def)
qed simp

lemma keeps_setup_request:
  assumes "iface_ok a" and "handle_setup_request P a req m = Some a'"
  shows "iface_keeps a a'"
proof -
  obtain s enc where s: "if_subscription_manager a = Some s" "if_encoder a = Some enc" "sm_good s"
    "sm_lifecycle_callback s" using assms(1) by (auto simp: iface_ok_def)
  obtain ec d s' where r: "register_dapp s (pl_steady P (g_world a)) = ((ec, d), s')" by (metis prod.exhaust)
  define b where "b = (if ec = SUCCESS then notify_dapp_status_changed (put_sm s' a) else put_sm s' a)"
  obtain fs g where d: "describe_ran_functions (pl_sm P)
      (SmRegistry_get_available_ran_functions (g_registry b)) (g_registry b) = (fs, g)" by fastforce
  let ?b = "drawn P (b\<lparr> g_registry := g \<rparr>)"
  have "sm_good s'" "sm_lifecycle_callback s'"
    using sm_good_next[OF s(3), of "Op_register (pl_steady P (g_world a))"]
      callback_next[OF s(3), of "Op_register (pl_steady P (g_world a))"] s(4) r by simp_all
  moreover have "reg_wf g" using describe_reg_wf[of "g_registry b" "pl_sm P"] d assms(1)
    by (metis b_def frames(5,11) iface_ok_def snd_conv)
  ultimately have k: "iface_keeps a ?b"
    using assms(1) by (auto simp: iface_keeps_def iface_ok_def b_def notify_dapp_status_changed_def put_sm_def)
  have "a' = ?b \<or> (\<exists>cw. a' = put_conn cw ?b)"
    using assms(2) s(1,2) r d
    by (auto simp: handle_setup_request_def Let_def b_def generate_message_id_eq conn_code_Some
        split: sum.splits bind_splits if_splits)
  then show ?thesis using k by (auto simp: iface_keeps_def iface_ok_def put_conn_def)
qed

lemma keeps_put_conn: "iface_ok a \<Longrightarrow> iface_keeps a (put_conn cw a)"
  by (simp add: iface_keeps_def iface_ok_def put_conn_def)

interpretation ok_inv: interface_invariant P any_call "\<lambda>a. iface_ok a \<and> if_state a = st" for P :: "('sm, 'w) platform" and st
proof (unfold_locales, goal_cases)
  case (1 a cw)
  then show ?case using keeps_put_conn[of a cw] by (simp add: iface_keeps_def)
next
  case (2 a req m a')
  then show ?case using keeps_setup_request[of a P req m a'] by (simp add: iface_keeps_def)
next
  case (3 a pdu a')
  then show ?case using keeps_dispatch[of a P pdu] by (auto simp: iface_keeps_def)
next
  case (4 a q pause clock t x q')
  then have "rq_ok q" by (auto simp: iface_ok_def)
  from pop_timed_keeps[OF pop_keeps_rq_ok this 4(3)] 4 show ?case by (auto simp: iface_ok_def)
next
  case (5 a pdu ec a')
  then show ?case using keeps_queued[OF keeps_refl, of a pdu] by (auto simp: iface_keeps_def)
next
  case (6 a w)
  then show ?case by (simp add: iface_ok_def)
next
  case (7 a c)
  then show ?case
    by (cases c) (simp_all add: iface_ok_def E3Interface_register_sm_def split_beta reg_wf_ops)
qed

section \<open>After a stop\<close>

text \<open>The outbound queue stays shut down: no later step of the interface opens it again.\<close>

definition queue_down :: "('sm, 'w) E3Interface \<Rightarrow> bool" where
  "queue_down a \<longleftrightarrow> (\<exists>q. if_response_queue a = Some q \<and> rq_shutdown q)"

lemma down_queue_outbound: "queue_down a \<Longrightarrow> queue_outbound a pdu = Some (NOT_INITIALIZED, a)"
  by (auto simp: queue_down_def queue_outbound_def ResponseQueue_push_def)

lemma down_frame: "queue_down a \<Longrightarrow> if_response_queue a' = if_response_queue a \<Longrightarrow> queue_down a'"
  by (simp add: queue_down_def)

lemma down_emitter: "queue_down a \<Longrightarrow> outbound_emitter P a pdu = Some (ec, a') \<Longrightarrow> queue_down a'"
  using down_queue_outbound[of a] down_queue_outbound[of "drawn P a"] down_frame[of a "drawn P a"]
  by (auto simp: outbound_emitter_def generate_message_id_eq Let_def split: if_splits)

lemma down_run_sm_act:
  "queue_down a \<Longrightarrow> run_sm_act (outbound_emitter P) prov ob act a = Some (r, a') \<Longrightarrow> queue_down a'"
proof (induction act arbitrary: a)
  case (Act_emit pdu k)
  then obtain ec a1 where e: "emit_outbound (outbound_emitter P) ob a pdu = Some (ec, a1)"
    "run_sm_act (outbound_emitter P) prov ob (k ec) a1 = Some (r, a')" by (auto split: option.splits)
  then have "queue_down a1" using Act_emit.prems(1) down_emitter
    by (auto simp: emit_outbound_def split: if_splits)
  then show ?case using Act_emit.IH[OF rangeI] e(2) by blast
qed auto

lemma down_queued:
  "queue_down a \<Longrightarrow> map_option snd (queue_outbound a pdu) = Some a' \<Longrightarrow> queue_down a'"
  by (auto simp: down_queue_outbound)

lemma down_manager_handlers:
  assumes "queue_down a"
  shows "handle_subscription_request P a req m = Some a' \<Longrightarrow> queue_down a'"
    and "handle_subscription_delete P a del m = Some a' \<Longrightarrow> queue_down a'"
    and "handle_dapp_disconnection P a d = Some a' \<Longrightarrow> queue_down a'"
proof -
  have op: "queue_down (after_op P a s op)" "queue_down (drawn P (after_op P a s op))" for s op
    using assms by (simp_all add: queue_down_def)
  have dr: "queue_down (drawn P a)" using assms by (simp add: queue_down_def)
  show "queue_down a'" if h: "handle_subscription_request P a req m = Some a'"
  proof -
    obtain s where s: "if_subscription_manager a = Some s"
      using h by (auto simp: handle_subscription_request_def split: bind_splits)
    show ?thesis
    proof (cases "is_dapp_registered s (subreq_dapp_identifier req)")
      case True
      show ?thesis
        using h[unfolded subscription_request_registered[OF s True] Let_def] by (rule down_queued[OF op(2)])
    next
      case False
      show ?thesis
        using h[unfolded subscription_request_unregistered[OF s False]] by (rule down_queued[OF dr])
    qed
  qed
  show "queue_down a'" if h: "handle_subscription_delete P a del m = Some a'"
  proof -
    obtain s where s: "if_subscription_manager a = Some s"
      using h by (auto simp: handle_subscription_delete_def split: bind_splits)
    show ?thesis using h[unfolded subscription_delete_eq[OF s] Let_def] by (rule down_queued[OF op(2)])
  qed
  show "queue_down a'" if h: "handle_dapp_disconnection P a d = Some a'"
  proof -
    obtain s where s: "if_subscription_manager a = Some s"
      using h by (auto simp: handle_dapp_disconnection_def split: bind_splits)
    show ?thesis using h op(1)[of s "Op_unregister d"] by (simp add: disconnection_eq[OF s])
  qed
qed

lemma down_control_action:
  assumes "queue_down a" and "handle_control_action P a act m = Some a'"
  shows "queue_down a'"
proof -
  obtain sm r where g: "get_by_ran_function (pl_sm P) (g_registry a) (dca_ran_function_identifier act) = (sm, r)"
    by fastforce
  let ?a = "a\<lparr> g_registry := r \<rparr>"
  have d: "queue_down ?a" using assms(1) by (simp add: queue_down_def)
  show ?thesis
  proof (cases "\<exists>ob. sm = Some ob \<and> vt_is_running (pl_sm P) (smo_state ob)")
    case False
    then have "a' = ?a" using assms(2) g by (auto simp: handle_control_action_def Let_def split: option.splits)
    then show ?thesis using d by simp
  next
    case True
    then obtain ob where ob: "sm = Some ob" "vt_is_running (pl_sm P) (smo_state ob)" by blast
    then obtain x st b where r: "run_sm_act (outbound_emitter P) (subscribers_provider
        (vt_ran_function_id (pl_sm P) (smo_state ob))) ob (vt_handle_control_action (pl_sm P) m act (smo_state ob)) ?a
        = Some ((x, st), b)" "a' = store_sm (dca_ran_function_identifier act) ob st b"
      using assms(2) g by (auto simp: handle_control_action_def Let_def split: bind_splits)
    from down_run_sm_act[OF d r(1)] show ?thesis by (simp add: r(2) queue_down_def store_sm_def)
  qed
qed

lemma down_dispatch:
  assumes "queue_down a" and "dispatch P a pdu = Some a'"
  shows "queue_down a'"
proof -
  note h = down_manager_handlers[OF assms(1)] down_control_action[OF assms(1)]
  have "queue_down (handle_dapp_report a rep)" for rep using assms(1) by (simp add: queue_down_def)
  then show ?thesis
    using assms h unfolding dispatch_def handle_release_message_def
    by (cases "pdu_type pdu"; cases "pdu_choice pdu") auto
qed

lemma down_setup_request:
  assumes "queue_down a" and "handle_setup_request P a req m = Some a'"
  shows "queue_down a'"
proof -
  have "if_response_queue a' = if_response_queue a"
    using assms(2)
    by (auto simp: handle_setup_request_def conn_code_Some Let_def generate_message_id_eq
        split: prod.splits bind_splits sum.splits if_splits)
  then show ?thesis using down_frame[OF assms(1)] by blast
qed

interpretation down_inv: interface_invariant P any_call queue_down for P :: "('sm, 'w) platform"
proof (unfold_locales, goal_cases)
  case (4 a q pause clock t x q')
  then have "rq_shutdown q" by (simp add: queue_down_def)
  from pop_timed_keeps[OF pop_keeps_shutdown this 4(3)] 4 show ?case by (auto simp: queue_down_def)
next
  case (5 a pdu ec a')
  then show ?case using down_queue_outbound[OF 5(1), of pdu] by simp
next
  case (7 a c)
  then show ?case by (cases c) (simp_all add: queue_down_def E3Interface_register_sm_def split_beta)
next
  case (1 a cw)
  then show ?case by (simp add: queue_down_def)
next
  case (6 a w)
  then show ?case by (simp add: queue_down_def)
qed (use down_setup_request down_dispatch in blast)+

lemma down_stop:
  assumes "if_response_queue a \<noteq> None" and "if_state a \<noteq> UNINITIALIZED" and "if_state a \<noteq> STOPPING"
    and "\<And>b b'. join b = Some b' \<Longrightarrow> queue_down b \<Longrightarrow> queue_down b'"
    and "E3Interface_stop P join a = Some a1"
  shows "queue_down a1" and "if_state a1 = INITIALIZED"
proof -
  have "queue_down (stop_request P a)"
    using assms(1) by (auto simp: queue_down_def stop_request_def Let_def ResponseQueue_shutdown_def split: option.splits)
  then obtain b where b: "queue_down b" "stop_finish P b = Some a1"
    using assms(2-5) by (auto simp: E3Interface_stop_def split: bind_splits)
  then show "queue_down a1" "if_state a1 = INITIALIZED"
    by (auto simp: stop_finish_def queue_down_def Let_def split: option.splits bind_splits)
qed


section \<open>Answers\<close>

lemma message_id_range: "1 \<le> 1 + (x :: u32) mod 1000 \<and> 1 + x mod 1000 \<le> 1000"
proof -
  have "unat (x mod 1000) < 1000" by (simp add: unat_mod)
  then have "unat (1 + x mod 1000) = 1 + unat (x mod 1000)"
    by (subst unat_add_lem[THEN iffD1]) simp_all
  then show ?thesis using \<open>unat (x mod 1000) < 1000\<close> by (simp add: word_le_nat_alt)
qed

lemma queued_answer:
  assumes "if_response_queue b = Some q" and "rq_rep q xs"
  obtains q' where "map_option snd (queue_outbound (drawn P b) r) = Some ((drawn P b)\<lparr> if_response_queue := Some q' \<rparr>)"
    and "rq_rep q' (queued_after q xs r)"
proof -
  have "if_response_queue (drawn P b) = Some q" using assms(1) by simp
  from queue_outbound_cases[OF this assms(2), of r] show thesis using that by auto
qed

text \<open>A subscription of a registered dApp: the new identifier, or the one of the subscription it has.\<close>

lemma add_registered:
  fixes r :: u32
  assumes "sm_good s" and "is_dapp_registered s d"
  defines "i \<equiv> snd (fst (add_subscription s d r))" and "s' \<equiv> fst (snd (add_subscription s d r))"
  shows "id_range i \<and> is_subscribed s' d r
    \<and> sub_abs s' = (sub_abs s)\<lparr>spec_subs := insert (d, r) (spec_subs (sub_abs s))\<rparr>
    \<and> (if is_subscribed s d r then map_of (subscription_id_reverse s) (make_sub_key d r) = Some i \<and> s' = s
       else i = next_subscription_id s \<and> map_of (subscription_ids s') i = Some (d, r)
         \<and> map_of (subscription_id_reverse s') (make_sub_key d r) = Some i)"
proof -
  have inv: "mgr_inv s" using assms(1) by (simp add: sm_good_def)
  show ?thesis
  proof (cases "r \<in> set (get_dapp_subscriptions s d)")
    case True
    then obtain k where k: "map_of (subscription_id_reverse s) (make_sub_key d r) = Some k" "id_range k"
      using mgr_invD(13)[OF inv] by blast
    have "sub_abs s = (sub_abs s)\<lparr>spec_subs := insert (d, r) (spec_subs (sub_abs s))\<rparr>"
      using True by (intro sub_abs_eqI) auto
    then show ?thesis using True k by (simp add: i_def s'_def add_exists[OF inv True k(1)] is_subscribed_iff)
  next
    case False
    have "sub_abs (added s d r) = (sub_abs s)\<lparr>spec_subs := insert (d, r) (spec_subs (sub_abs s))\<rparr>"
      by (intro sub_abs_eqI) (auto simp: is_dapp_registered_def)
    then show ?thesis
      using False mgr_invD(9)[OF inv] by (simp add: i_def s'_def add_new[OF inv assms(2) False] is_subscribed_iff)
  qed
qed

lemma register_outcome:
  fixes now :: u64
  assumes "sm_good s"
  defines "op \<equiv> Op_register now"
  shows "fst (sm_step s op) = SUCCESS \<and> id_range (fst (snd (sm_step s op)))
      \<and> \<not> is_dapp_registered s (fst (snd (sm_step s op)))
      \<and> sub_abs (sm_next s op) = (sub_abs s)\<lparr>spec_registered :=
          insert (fst (snd (sm_step s op))) (spec_registered (sub_abs s))\<rparr>
    \<or> fst (sm_step s op) \<noteq> SUCCESS \<and> fst (snd (sm_step s op)) = 0 \<and> (\<forall>d. id_range d \<longrightarrow> is_dapp_registered s d)
      \<and> sm_next s op = s"
proof -
  have inv: "mgr_inv s" using assms(1) by (simp add: sm_good_def)
  show ?thesis
  proof (cases rule: register_dapp_cases[OF inv, where now = now])
    case (1 k a)
    have "sub_abs (registered_as s a now) = (sub_abs s)\<lparr>spec_registered := insert a (spec_registered (sub_abs s))\<rparr>"
      using registered_as_subscriptions[OF inv 1(5)] by (intro sub_abs_eqI) (auto simp: is_dapp_registered_def)
    then show ?thesis using 1 by (simp add: op_def)
  qed (simp add: op_def)
qed

lemma describe_identifiers:
  "map rf_ran_function_identifier (fst (describe_ran_functions V ids r)) = ids"
  by (induction ids arbitrary: r) (simp_all add: split_beta Let_def split: option.split)

lemma remove_by_id_spec:
  fixes d i :: u32
  assumes "ids_inv s"
  defines "op \<equiv> Op_remove_by_id d i"
  shows "(\<exists>r. map_of (subscription_ids s) i = Some (d, r) \<and> fst (sm_step s op) = SUCCESS \<and> is_subscribed s d r
        \<and> sub_abs (sm_next s op) = (sub_abs s)\<lparr>spec_subs := spec_subs (sub_abs s) - {(d, r)}\<rparr>)
    \<or> (\<nexists>r. map_of (subscription_ids s) i = Some (d, r)) \<and> fst (sm_step s op) \<noteq> SUCCESS \<and> sm_next s op = s"
proof (cases "\<exists>r. map_of (subscription_ids s) i = Some (d, r)")
  case True
  then obtain r where r: "map_of (subscription_ids s) i = Some (d, r)" by blast
  have "sub_abs (removed_by_id s d r i) = (sub_abs s)\<lparr>spec_subs := spec_subs (sub_abs s) - {(d, r)}\<rparr>"
    by (intro sub_abs_eqI) (auto simp: is_dapp_registered_def)
  then show ?thesis using r ids_invD(1)[OF assms(1) r]
    by (simp add: op_def remove_by_id_found[OF r] is_subscribed_iff)
next
  case False
  then have "remove_subscription_by_id s d i = (SUBSCRIPTION_NOT_FOUND, s, [])"
    by (meson remove_by_id_cases)
  then show ?thesis using False by (simp add: op_def)
qed

section \<open>The publisher\<close>

lemma publisher_round_item:
  assumes "if_response_queue a = Some q" and "rq_rep q (x # xs)" and "if_encoder a = Some enc"
    and "enc_encode (enc (now_of P a)) x = Inr m"
  shows "\<exists>q'. rq_rep q' xs \<and> publisher_round P pause clock a =
    map_option snd (conn_code (conn_send (the_connector P) (em_buffer m)) (a\<lparr> if_response_queue := Some q' \<rparr>))"
  using pop_timed_item[OF assms(2), of pause clock 10 "now_of P a"] assms(1,3,4)
  by (auto simp: publisher_round_def)

definition frame :: "bytes \<Rightarrow> bytes" where
  "frame data = htonl_bytes (of_nat (length data)) @ data"

lemma posix_send_whole:
  assumes "posix_sender (pl_posix P) fd sent" and "\<And>bs w. \<exists>w'. send_in_chunks (pl_posix P) fd bs w = Some (0, w')"
    and "if_connector a = Some (Posix_object c)" and "pc_outbound_connection_socket c = fd" and "0 \<le> fd"
  shows "\<exists>w'. conn_code (conn_send (the_connector P) data) a = Some (SUCCESS, a\<lparr> g_world := w' \<rparr>)
    \<and> sent w' = sent (g_world a) @ frame data"
proof -
  obtain w' where w': "send_in_chunks (pl_posix P) fd data (g_world a) = Some (0, w')" using assms(2) by blast
  have "sent w' = sent (g_world a) @ frame data"
    using posix_sender.send_frame[OF assms(1) w'] by (auto simp: frame_def)
  moreover have "put_conn (Posix_object c, w') a = a\<lparr> g_world := w' \<rparr>"
    using assms(3) by (cases a) (simp add: put_conn_def)
  moreover have "conn_code (conn_send (the_connector P) data) a = Some (SUCCESS, put_conn (Posix_object c, w') a)"
    using w' assms(3-5)
    by (simp add: conn_code_def the_connector_def virtual_connector_def virtual_code_def PosixE3Connector_ops_def
        Posix_send_def on_posix_def Let_def)
  ultimately show ?thesis by metis
qed

text \<open>The publisher's loop, stopped after as many rounds as there are PDUs.\<close>

lemma publisher_rounds_stream:
  assumes snd: "posix_sender (pl_posix P) fd sent" "\<And>bs w. \<exists>w'. send_in_chunks (pl_posix P) fd bs w = Some (0, w')"
    and "if_connector a = Some (Posix_object c)" and fd: "pc_outbound_connection_socket c = fd" "0 \<le> fd"
    and "if_encoder a = Some enc" and "\<forall>x \<in> set xs. \<forall>t. enc_encode (enc t) x = Inr (msg x)"
    and "if_response_queue a = Some q" and "rq_rep q xs" and "if_should_stop a \<longleftrightarrow> xs = []"
  shows "\<exists>a' q'. publisher_rounds P (\<lambda>k b. b\<lparr> if_should_stop := (k + 1 = n + length xs) \<rparr>) pause clock n a = Some a'
    \<and> if_response_queue a' = Some q' \<and> rq_rep q' []
    \<and> sent (g_world a') = sent (g_world a) @ concat (map (\<lambda>x. frame (em_buffer (msg x))) xs)"
  using assms(3,6-10)
proof (induction xs arbitrary: n a q)
  case Nil
  then show ?case by (subst publisher_rounds.simps) simp
next
  case (Cons x xs)
  let ?env = "\<lambda>m k b. b\<lparr> if_should_stop := (k + 1 = m) \<rparr>"
  have "enc_encode (enc (now_of P a)) x = Inr (msg x)" using Cons.prems(3) by simp
  from publisher_round_item[OF Cons.prems(4,5,2) this] obtain q' where q': "rq_rep q' xs"
    "publisher_round P (pause n) (clock n) a = map_option snd (conn_code (conn_send (the_connector P)
       (em_buffer (msg x))) (a\<lparr> if_response_queue := Some q' \<rparr>))" by blast
  let ?a = "a\<lparr> if_response_queue := Some q' \<rparr>"
  have "if_connector ?a = Some (Posix_object c)" using Cons.prems(1) by simp
  from posix_send_whole[OF snd this fd, of "em_buffer (msg x)"] obtain w'
    where w': "publisher_round P (pause n) (clock n) a = Some (?a\<lparr> g_world := w' \<rparr>)"
      "sent w' = sent (g_world a) @ frame (em_buffer (msg x))" using q'(2) by auto
  let ?b = "?env (n + length (x # xs)) n (?a\<lparr> g_world := w' \<rparr>)"
  have step: "publisher_rounds P (?env (n + length (x # xs))) pause clock n a
      = publisher_rounds P (?env (Suc n + length xs)) pause clock (Suc n) ?b"
    using Cons.prems(6) w'(1) by (subst publisher_rounds.simps) simp
  have "\<exists>a' q'. publisher_rounds P (?env (Suc n + length xs)) pause clock (Suc n) ?b = Some a'
    \<and> if_response_queue a' = Some q' \<and> rq_rep q' []
    \<and> sent (g_world a') = sent (g_world ?b) @ concat (map (\<lambda>x. frame (em_buffer (msg x))) xs)"
    by (rule Cons.IH[where q = q']) (use Cons.prems q'(1) in auto)
  then show ?case using step w'(2) by auto
qed

section \<open>What is queued can be sent\<close>

text \<open>
  All PDUs a function of a service model emits satisfy \<open>Q\<close>. A PDU that an encoder is to accept has a
  type that fits its content, and a message id.
\<close>

primrec act_emits :: "(Pdu \<Rightarrow> bool) \<Rightarrow> 'sm sm_act \<Rightarrow> bool" where
  "act_emits Q (Act_return ec st) \<longleftrightarrow> True"
| "act_emits Q (Act_emit pdu k) \<longleftrightarrow> Q pdu \<and> (\<forall>ec. act_emits Q (k ec))"
| "act_emits Q (Act_subscribers k) \<longleftrightarrow> (\<forall>ds. act_emits Q (k ds))"

definition sendable :: "Pdu \<Rightarrow> bool" where
  "sendable p \<longleftrightarrow> pdu_tagged p \<and> pdu_message_id p \<noteq> 0"

definition appended :: "Pdu list \<Rightarrow> ('sm, 'w) E3Interface \<Rightarrow> bool" where
  "appended xs a \<longleftrightarrow> (\<exists>q ys. if_response_queue a = Some q \<and> rq_rep q (xs @ ys) \<and> list_all sendable ys)"

lemma draw_nonzero: "1 + (x :: u32) mod 1000 \<noteq> 0"
  using message_id_range[of x] by auto

lemma appended_frame: "if_response_queue b = if_response_queue a \<Longrightarrow> appended xs a \<Longrightarrow> appended xs b"
  by (simp add: appended_def)

lemma appended_queue_outbound:
  assumes "appended xs a" and "sendable pdu"
  shows "\<exists>ec a'. queue_outbound a pdu = Some (ec, a') \<and> appended xs a'"
proof -
  obtain q ys where q: "if_response_queue a = Some q" "rq_rep q (xs @ ys)" "list_all sendable ys"
    using assms(1) by (auto simp: appended_def)
  then obtain ec q' where "queue_outbound a pdu = Some (ec, a\<lparr> if_response_queue := Some q' \<rparr>)"
    "rq_rep q' (queued_after q (xs @ ys) pdu)" using queue_outbound_cases[OF q(1,2), of pdu] by blast
  moreover have "\<exists>zs. queued_after q (xs @ ys) pdu = xs @ zs \<and> list_all sendable zs"
    using q(3) assms(2) by (auto simp: queued_after_def)
  ultimately show ?thesis by (auto simp: appended_def)
qed

lemma appended_emitter:
  assumes "appended xs a" and "pdu_tagged pdu"
  shows "\<exists>ec a'. outbound_emitter P a pdu = Some (ec, a') \<and> appended xs a'"
proof (cases "pdu_message_id pdu = 0")
  case True
  have "appended xs (drawn P a)" using assms(1) by (simp add: appended_def)
  moreover have "sendable (pdu\<lparr> pdu_message_id := draw P a \<rparr>)"
    using assms(2) draw_nonzero by (simp add: sendable_def pdu_tagged_def)
  ultimately show ?thesis
    using appended_queue_outbound True by (fastforce simp: outbound_emitter_def generate_message_id_eq)
next
  case False
  then show ?thesis using appended_queue_outbound[OF assms(1), of pdu] assms(2)
    by (simp add: outbound_emitter_def sendable_def)
qed

lemma appended_run:
  assumes "appended xs a" and "act_emits pdu_tagged act"
  shows "\<exists>r a'. run_sm_act (outbound_emitter P) prov ob act a = Some (r, a') \<and> appended xs a'"
  using assms
proof (induction act arbitrary: a)
  case (Act_emit pdu k)
  then obtain ec a1 where "emit_outbound (outbound_emitter P) ob a pdu = Some (ec, a1)" "appended xs a1"
    using appended_emitter[OF Act_emit.prems(1), of pdu P] by (cases "smo_emitter ob") (auto simp: emit_outbound_def)
  then show ?case using Act_emit.IH[OF rangeI, of a1 ec] Act_emit.prems(2) by simp
qed auto

lemma appended_queued:
  assumes "appended xs b" and "sendable r"
  shows "\<exists>a'. map_option snd (queue_outbound b r) = Some a' \<and> appended xs a'"
  using appended_queue_outbound[OF assms] by auto

lemma appended_control_action:
  assumes app: "appended xs a"
    and emits: "\<And>m act st. act_emits pdu_tagged (vt_handle_control_action (pl_sm P) m act st)"
  shows "\<exists>a'. handle_control_action P a act m = Some a' \<and> appended xs a'"
proof -
  obtain sm r where g: "get_by_ran_function (pl_sm P) (g_registry a) (dca_ran_function_identifier act) = (sm, r)"
    by fastforce
  let ?a = "a\<lparr> g_registry := r \<rparr>"
  have k: "appended xs ?a" using app by (simp add: appended_def)
  show ?thesis
  proof (cases "\<exists>ob. sm = Some ob \<and> vt_is_running (pl_sm P) (smo_state ob)")
    case False
    then have "handle_control_action P a act m = Some ?a"
      using g by (auto simp: handle_control_action_def Let_def split: option.splits)
    then show ?thesis using k by simp
  next
    case True
    then obtain ob where ob: "sm = Some ob" "vt_is_running (pl_sm P) (smo_state ob)" by blast
    obtain ec st b where "run_sm_act (outbound_emitter P)
        (subscribers_provider (vt_ran_function_id (pl_sm P) (smo_state ob))) ob
        (vt_handle_control_action (pl_sm P) m act (smo_state ob)) ?a = Some ((ec, st), b)" "appended xs b"
      using appended_run[OF k emits, of P "subscribers_provider (vt_ran_function_id (pl_sm P) (smo_state ob))" ob m act
          "smo_state ob"] by auto
    then show ?thesis using g ob by (auto simp: handle_control_action_def Let_def store_sm_def appended_def)
  qed
qed

lemma appended_dispatch:
  assumes "iface_ok a" and app: "appended xs a"
    and emits: "\<And>m act st. act_emits pdu_tagged (vt_handle_control_action (pl_sm P) m act st)"
  shows "\<exists>a'. dispatch P a pdu = Some a' \<and> appended xs a'"
proof -
  obtain s where s: "if_subscription_manager a = Some s" using assms(1) by (auto simp: iface_ok_def)
  have op: "appended xs (after_op P a s op)" "appended xs (drawn P (after_op P a s op))" "appended xs (drawn P a)" for op
    using app by (simp_all add: appended_def)
  have resp: "sendable (subscription_response (draw P b) t m d sid)" "sendable (delete_ack (draw P b) t m code)"
    for b :: "('a, 'b) E3Interface" and t m d sid code
    using draw_nonzero by (simp_all add: sendable_def pdu_tagged_def)
  have "\<exists>a'. handle_subscription_request P a req m = Some a' \<and> appended xs a'" for req m
  proof (cases "is_dapp_registered s (subreq_dapp_identifier req)")
    case True
    show ?thesis unfolding subscription_request_registered[OF s True] Let_def by (rule appended_queued[OF op(2) resp(1)])
  next
    case False
    show ?thesis unfolding subscription_request_unregistered[OF s False] by (rule appended_queued[OF op(3) resp(1)])
  qed
  moreover have "\<exists>a'. handle_subscription_delete P a del m = Some a' \<and> appended xs a'" for del m
    unfolding subscription_delete_eq[OF s] Let_def by (rule appended_queued[OF op(2) resp(2)])
  moreover have "\<exists>a'. handle_release_message P a rel = Some a' \<and> appended xs a'" for rel
    using op(1) by (simp add: handle_release_message_def disconnection_eq[OF s])
  moreover have "appended xs (handle_dapp_report a rep)" for rep by (rule appended_frame[OF _ app]) simp
  moreover note appended_control_action[OF app emits]
  ultimately show ?thesis
    using app unfolding dispatch_def by (cases "pdu_type pdu"; cases "pdu_choice pdu") simp_all
qed

section \<open>A platform in memory\<close>

text \<open>A platform in memory for the examples: no ZeroMQ, the JSON encoder, the simple service model.\<close>

definition no_zmq :: "'w zmq_ops" where
  "no_zmq =
     \<lparr> fs_errno = (\<lambda>w. EAGAIN), fs_stat = (\<lambda>f w. (-1, w)), fs_mkdir = (\<lambda>f m w. (-1, w)),
       fs_chmod = (\<lambda>f m w. (-1, w)), fs_getgrnam = (\<lambda>g w. (None, w)),
       fs_chown_group = (\<lambda>f g w. (-1, w)), fs_unlink = (\<lambda>f w. (-1, w)), fs_rmdir = (\<lambda>f w. (-1, w)),
       z_ctx_new = (\<lambda>w. (None, w)), z_ctx_set_io_threads = (\<lambda>h n w. (-1, w)),
       z_ctx_destroy = (\<lambda>h w. Some w), z_socket = (\<lambda>h t w. (None, w)),
       z_setsockopt = (\<lambda>h opt w. (-1, w)), z_bind = (\<lambda>h a w. (-1, w)),
       z_recv = (\<lambda>h n w. Some (-1, [], w)), z_send = (\<lambda>h d w. Some (-1, w)),
       z_close = (\<lambda>h w. (0, w)) \<rparr>"

definition mem_platform :: "(SimpleServiceModel, mem_world) platform" where
  "mem_platform =
     \<lparr> pl_posix = mem_os, pl_zmq = no_zmq, pl_shutdown_seen = (\<lambda>w. True),
       pl_encoder = create_encoder False True jval_ops ack_aper,
       pl_sm = simple_sm 0 (\<lambda>_. None) (\<lambda>_. True), pl_now = (\<lambda>w. 0), pl_steady = (\<lambda>w. 0),
       pl_random = (\<lambda>w. (41, w)), pl_set_affinity = (\<lambda>n w. w), pl_set_niceness = (\<lambda>n w. w),
       pl_ignore_sigpipe = (\<lambda>w. w), pl_slot_size = 256 \<rparr>"

definition mem_iface :: "(SimpleServiceModel, mem_world) E3Interface" where
  "mem_iface = new_E3Interface ((default_E3Config False True)\<lparr> cfg_link_layer := POSIX \<rparr>)
     new_SmRegistry (mem_init []) []"

lemma mem_platform_sel [simp]:
  "pl_posix mem_platform = mem_os" "pl_sm mem_platform = simple_sm 0 (\<lambda>_. None) (\<lambda>_. True)"
  "pl_now mem_platform w = 0" "pl_random mem_platform w = (41, w)" "pl_steady mem_platform w = 0"
  "pl_slot_size mem_platform = 256"
  "pl_encoder mem_platform JSON = Some (\<lambda>now. JsonE3Encoder jval_ops)"
  by (simp_all add: mem_platform_def create_encoder_def)

lemma mem_reliable: "reliable_sm (pl_sm mem_platform)"
  using simple_reliable.reliable_sm_axioms by simp

lemma mem_iface_init:
  "\<exists>a0 q. E3Interface_init mem_platform mem_iface = Some (SUCCESS, a0) \<and> iface_ok a0 \<and> following mem_platform a0
     \<and> if_subscription_manager a0 = Some (set_sm_lifecycle_callback new_SubscriptionManager True)
     \<and> if_response_queue a0 = Some q \<and> rq_rep q [] \<and> \<not> rq_shutdown q \<and> rq_cap q \<noteq> 0
     \<and> if_encoder a0 = Some (\<lambda>now. JsonE3Encoder jval_ops) \<and> g_registry a0 = new_SmRegistry
     \<and> if_state a0 = INITIALIZED \<and> (\<exists>c. if_connector a0 = Some (Posix_object c))"
proof -
  obtain q where q: "new_ResponseQueue 256 128 0 = Some q" "rq_rep q []" "\<not> rq_shutdown q" "128 \<le> rq_cap q"
    using rq_rep_new[of 128 256 0] by auto
  obtain a0 where a0: "E3Interface_init mem_platform mem_iface = Some (SUCCESS, a0)"
    "if_subscription_manager a0 = Some (set_sm_lifecycle_callback new_SubscriptionManager True)"
    "if_response_queue a0 = Some q" "if_encoder a0 = Some (\<lambda>now. JsonE3Encoder jval_ops)"
    "g_registry a0 = new_SmRegistry" "if_state a0 = INITIALIZED"
    "\<exists>c. if_connector a0 = Some (Posix_object c)"
    using q(1) by (simp add: E3Interface_init_def mem_iface_def new_E3Interface_def default_E3Config_def Let_def)
  have "following mem_platform a0"
    by (rule following_init[OF a0(1)])
      (simp_all add: mem_iface_def new_E3Interface_def follows_def new_SmRegistry_def reg_wf_def)
  then show ?thesis using a0 q following_def by fastforce
qed

text \<open>The interface in memory after one dApp has registered, and a subscription request.\<close>

definition demo_manager :: SubscriptionManager where
  "demo_manager = snd (register_dapp (set_sm_lifecycle_callback new_SubscriptionManager True) 0)"

definition demo_choice :: "u32 \<Rightarrow> u32 \<Rightarrow> SubscriptionRequest" where
  "demo_choice d r = \<lparr> subreq_dapp_identifier = d, subreq_ran_function_identifier = r,
     subreq_telemetry_identifier_list = [], subreq_control_identifier_list = [],
     subreq_subscription_time = None, subreq_periodicity = None \<rparr>"

definition demo_request :: "u32 \<Rightarrow> u32 \<Rightarrow> u32 \<Rightarrow> Pdu" where
  "demo_request m d r = (new_Pdu SUBSCRIPTION_REQUEST 0)\<lparr> pdu_message_id := m,
     pdu_choice := C_SubscriptionRequest (demo_choice d r) \<rparr>"

lemma mem_registered:
  "\<exists>(a :: (SimpleServiceModel, mem_world) E3Interface) q. iface_ok a \<and> if_subscription_manager a = Some demo_manager \<and> if_response_queue a = Some q \<and> rq_rep q []
     \<and> \<not> rq_shutdown q \<and> rq_cap q \<noteq> 0"
proof -
  let ?s = "set_sm_lifecycle_callback new_SubscriptionManager True"
  obtain a0 :: "(SimpleServiceModel, mem_world) E3Interface" and q
    where a0: "iface_ok a0" "if_subscription_manager a0 = Some ?s" "if_response_queue a0 = Some q"
    "rq_rep q []" "\<not> rq_shutdown q" "rq_cap q \<noteq> 0" using mem_iface_init by blast
  have "iface_keeps a0 (after_op mem_platform a0 ?s (Op_register 0))"
    using keeps_after_op(1)[OF a0(1,2), of "Op_register 0" mem_platform] by simp
  then show ?thesis
    using a0 by (intro exI[of _ "after_op mem_platform a0 ?s (Op_register 0)"] exI[of _ q])
      (simp add: iface_keeps_def demo_manager_def)
qed

lemma jval_encodes: "\<exists>m. enc_encode (JsonE3Encoder jval_ops) p = Inr m"
  by (simp add: JsonE3Encoder_def json_encode_def jval_ops_def Let_def)

lemma mem_listener: "\<exists>sock w'. open_listener mem_os transport port endpoint w = (Some sock, w')"
proof -
  obtain sock w' where a: "mem_alloc [] w = (sock, w')" by fastforce
  moreover have "\<not> sock < 0" using mem_alloc_fresh[OF a] by simp
  ultimately show ?thesis
    by (simp add: open_listener_def ensure_ipc_dir_def open_and_bind_def mem_os_def Let_def split: E3TransportLayer.split)
qed

lemma mem_start:
  assumes "if_state a = INITIALIZED" and "if_connector a = Some (Posix_object c)"
  shows "\<exists>a'. E3Interface_start mem_platform a = Some (SUCCESS, a')"
proof -
  obtain sock w' where "open_listener mem_os (pc_transport_layer c) (pc_setup_port c) (pc_setup_endpoint c) (g_world a)
      = (Some sock, w')" using mem_listener by blast
  then show ?thesis
    using assms
    by (simp add: E3Interface_start_def conn_code_def the_connector_def virtual_connector_def Let_def
        virtual_code_def PosixE3Connector_ops_def Posix_setup_initial_connection_def on_posix_def)
qed

lemma mem_stop:
  assumes "if_connector a = Some (Posix_object c)" and "if_state a \<noteq> UNINITIALIZED" and "if_state a \<noteq> STOPPING"
  shows "\<exists>a1 c1. E3Interface_stop mem_platform Some a = Some a1 \<and> if_state a1 = INITIALIZED
    \<and> if_connector a1 = Some (Posix_object c1)"
  using assms
  by (simp add: E3Interface_stop_def stop_request_def stop_finish_def the_connector_def virtual_connector_def
      Let_def PosixE3Connector_ops_def on_posix_def)

section \<open>Properties\<close>

text \<open>
  C4: from a successful init on an empty or idle registry, after any sequence of thread rounds, sends,
  starts, stops and calls of the registry in which a service model is registered while it is stopped and
  its RAN function has no subscribers, and in which no factory is used, a registered service model runs
  exactly when its RAN function has subscribers, and the subscriber thread's dispatch of any message
  returns. The restriction is one the code does not check, and it matters: a service model registered
  while its RAN function has subscribers, for instance after a stop and start, which clear the registry
  and keep the subscriptions, is left stopped. The service model's start succeeds and its control handler
  neither starts nor stops it.
\<close>

theorem service_models_follow_subscriptions:
  assumes "reliable_sm (pl_sm P)" and "E3Interface_init P a = Some (SUCCESS, a0)"
    and "reg_wf (g_registry a)" and "follows (pl_sm P) {} (g_registry a)"
    and "(service_step P (idle_registration P))\<^sup>*\<^sup>* a0 b"
  shows "\<exists>s. if_subscription_manager b = Some s
    \<and> (\<forall>i ob. map_of (reg_sms (g_registry b)) i = Some ob \<longrightarrow>
         (vt_is_running (pl_sm P) (smo_state ob) \<longleftrightarrow> has_subscribers s i))
    \<and> (\<forall>pdu. dispatch P b pdu \<noteq> None)
    \<and> (\<forall>ob b'. E3Interface_register_sm P b (Some ob) = (SUCCESS, b')
         \<and> \<not> vt_is_running (pl_sm P) (snd (vt_init (pl_sm P) (smo_state ob))) \<longrightarrow>
         if_subscription_manager b' = Some s
         \<and> \<not> is_sm_running (pl_sm P) (g_registry b') (vt_ran_function_id (pl_sm P) (smo_state ob)))"
proof -
  have f: "following P b" using following_service_steps[OF assms(1,5) following_init[OF assms(2-4)]] .
  then obtain s where s: "if_subscription_manager b = Some s" by (auto simp: following_def iface_ok_def)
  have "dispatch P b pdu \<noteq> None" for pdu using following_dispatch[OF assms(1) f, of pdu] by auto
  moreover have "if_subscription_manager b' = Some s
      \<and> \<not> is_sm_running (pl_sm P) (g_registry b') (vt_ran_function_id (pl_sm P) (smo_state ob))"
    if "E3Interface_register_sm P b (Some ob) = (SUCCESS, b')"
      and "\<not> vt_is_running (pl_sm P) (snd (vt_init (pl_sm P) (smo_state ob)))" for ob b'
    using that s register_ok(3)[of "pl_sm P" "g_registry b" "ob\<lparr> smo_provider := True, smo_emitter := True \<rparr>"]
    by (auto simp: E3Interface_register_sm_def is_sm_running_def split: prod.splits)
  ultimately show ?thesis using f s by (auto simp: following_def follows_def active_def)
qed

theorem service_models_follow_subscriptions_witness:
  "\<exists>a0 b b' s. E3Interface_init mem_platform mem_iface = Some (SUCCESS, a0)
     \<and> b = snd (E3Interface_register_sm mem_platform a0 (Some (new_sm_object new_SimpleServiceModel)))
     \<and> E3Interface_start mem_platform b = Some (SUCCESS, b')
     \<and> if_subscription_manager b' = Some s \<and> (\<forall>pdu. dispatch mem_platform b' pdu \<noteq> None)
     \<and> map_of (reg_sms (g_registry b')) 1 \<noteq> None
     \<and> (\<forall>ob. map_of (reg_sms (g_registry b')) 1 = Some ob \<longrightarrow> (ssm_running (smo_state ob) \<longleftrightarrow> has_subscribers s 1))"
proof -
  let ?ob = "new_sm_object new_SimpleServiceModel"
  obtain a0 c where a0: "E3Interface_init mem_platform mem_iface = Some (SUCCESS, a0)"
    "if_subscription_manager a0 = Some (set_sm_lifecycle_callback new_SubscriptionManager True)"
    "g_registry a0 = new_SmRegistry" "if_state a0 = INITIALIZED" "if_connector a0 = Some (Posix_object c)"
    using mem_iface_init by blast
  define b where "b = snd (E3Interface_register_sm mem_platform a0 (Some ?ob))"
  have "idle_registration mem_platform a0 (Reg_model ?ob)"
    using a0(2) by (simp add: simple_sm_def new_sm_object_def subscribers_provider_def get_subscribed_dapps_def
        set_sm_lifecycle_callback_def new_SubscriptionManager_def)
  from iface_step.Registry[where G = "idle_registration mem_platform", OF this, of mem_platform] have 1: "service_step mem_platform (idle_registration mem_platform) a0 b"
    by (auto simp: b_def intro: service_step.Step)
  have b: "if_state b = INITIALIZED" "if_connector b = Some (Posix_object c)" "map_of (reg_sms (g_registry b)) 1 \<noteq> None"
    using a0(3-5) by (simp_all add: b_def E3Interface_register_sm_def SmRegistry_register_sm_def new_SmRegistry_def
        simple_sm_def SIMPLE_RAN_FUNCTION_ID_def)
  obtain b' where b': "E3Interface_start mem_platform b = Some (SUCCESS, b')" using mem_start[OF b(1,2)] by blast
  then have "(service_step mem_platform (idle_registration mem_platform))\<^sup>*\<^sup>* a0 b'"
    using 1 service_step.Start by (meson converse_rtranclp_into_rtranclp r_into_rtranclp)
  from service_models_follow_subscriptions[OF mem_reliable a0(1) _ _ this] obtain s
    where "if_subscription_manager b' = Some s" "\<forall>pdu. dispatch mem_platform b' pdu \<noteq> None"
      "\<forall>i ob. map_of (reg_sms (g_registry b')) i = Some ob \<longrightarrow> (ssm_running (smo_state ob) \<longleftrightarrow> has_subscribers s i)"
    by (auto simp: mem_iface_def new_E3Interface_def follows_def new_SmRegistry_def reg_wf_def simple_sm_def)
  moreover have "g_registry b' = g_registry b"
    using b' by (auto simp: E3Interface_start_def conn_code_Some put_conn_def split: if_splits bind_splits)
  ultimately show ?thesis using a0(1) b' b(3) unfolding b_def by metis
qed

text \<open>
  C7: the dispatch of a subscription request queues one subscription response with the request's message
  id and dApp; it is put at the end of the outbound queue, and lost when the queue is full or shut down.
  When the dApp is registered it is positive and carries the identifier of the subscription: the one
  it has already, or else the manager's next identifier, which now belongs to it; the subscription
  then exists and no other has changed. Otherwise it is negative without an identifier, and the
  manager is as before.
\<close>

theorem subscription_request_answered:
  assumes "iface_ok a" and s: "if_subscription_manager a = Some s"
    and q: "if_response_queue a = Some q" "rq_rep q xs"
    and pdu: "pdu_type pdu = SUBSCRIPTION_REQUEST" "pdu_choice pdu = C_SubscriptionRequest req"
  defines "d \<equiv> subreq_dapp_identifier req" and "r \<equiv> subreq_ran_function_identifier req"
  shows "\<exists>a' s' q' mid sid. dispatch P a pdu = Some a'
    \<and> if_subscription_manager a' = Some s' \<and> if_response_queue a' = Some q'
    \<and> rq_rep q' (queued_after q xs (subscription_response mid (now_of P a) (pdu_message_id pdu) d sid))
    \<and> 1 \<le> mid \<and> mid \<le> 1000
    \<and> (if is_dapp_registered s d
       then (\<exists>i. sid = Some i \<and> id_range i
             \<and> (if is_subscribed s d r then map_of (subscription_id_reverse s) (make_sub_key d r) = Some i \<and> s' = s
                else i = next_subscription_id s \<and> map_of (subscription_ids s') i = Some (d, r)
                  \<and> map_of (subscription_id_reverse s') (make_sub_key d r) = Some i))
         \<and> is_subscribed s' d r
         \<and> sub_abs s' = (sub_abs s)\<lparr>spec_subs := insert (d, r) (spec_subs (sub_abs s))\<rparr>
       else sid = None \<and> s' = s)"
proof (cases "is_dapp_registered s d")
  case True
  let ?op = "Op_add d r"
  let ?i = "fst (snd (sm_step s ?op))" and ?a = "after_op P a s ?op"
  let ?r = "subscription_response (draw P a) (now_of P a) (pdu_message_id pdu) d (Some ?i)"
  have "sm_good s" using assms(1) s by (auto simp: iface_ok_def)
  note spec = add_registered[OF this True, of r]
  obtain q' where r: "map_option snd (queue_outbound (drawn P ?a) ?r) = Some ((drawn P ?a)\<lparr> if_response_queue := Some q' \<rparr>)"
    "rq_rep q' (queued_after q xs ?r)" using queued_answer[of ?a q xs P ?r] q by auto
  then have "dispatch P a pdu = Some ((drawn P ?a)\<lparr> if_response_queue := Some q' \<rparr>)"
    using pdu True by (simp add: dispatch_def subscription_request_registered[OF s] Let_def d_def r_def)
  moreover have "?i = snd (fst (add_subscription s d r))" "sm_next s ?op = fst (snd (add_subscription s d r))"
    by (simp_all add: split_beta)
  ultimately show ?thesis
    using spec True message_id_range r(2)
    by (intro exI[of _ "(drawn P ?a)\<lparr> if_response_queue := Some q' \<rparr>"] exI[of _ "sm_next s ?op"]
        exI[of _ q'] exI[of _ "draw P a"] exI[of _ "Some ?i"])
      (auto simp del: sm_next_simps sm_step.simps split: if_splits)
next
  case False
  let ?r = "subscription_response (draw P a) (now_of P a) (pdu_message_id pdu) d None"
  obtain q' where r: "map_option snd (queue_outbound (drawn P a) ?r) = Some ((drawn P a)\<lparr> if_response_queue := Some q' \<rparr>)"
    "rq_rep q' (queued_after q xs ?r)" using queued_answer[OF q] by blast
  then have "dispatch P a pdu = Some ((drawn P a)\<lparr> if_response_queue := Some q' \<rparr>)"
    using pdu False by (simp add: dispatch_def subscription_request_unregistered[OF s] d_def)
  then show ?thesis
    using False message_id_range s r(2)
    by (intro exI[of _ "(drawn P a)\<lparr> if_response_queue := Some q' \<rparr>"] exI[of _ s]
        exI[of _ q'] exI[of _ "draw P a"] exI[of _ None]) simp
qed

theorem subscription_request_answered_witness:
  "\<exists>a a' s s' q' mid. if_subscription_manager a = Some s \<and> get_registered_dapps s = [1]
     \<and> dispatch mem_platform a (demo_request 77 1 1) = Some a' \<and> if_subscription_manager a' = Some s'
     \<and> map_of (subscription_ids s') 1 = Some (1, 1)
     \<and> if_response_queue a' = Some q' \<and> rq_rep q' [subscription_response mid 0 77 1 (Some 1)]"
proof -
  obtain a :: "(SimpleServiceModel, mem_world) E3Interface" and s q where a: "iface_ok a" "if_subscription_manager a = Some s" "if_response_queue a = Some q" "rq_rep q []"
    "\<not> rq_shutdown q" "rq_cap q \<noteq> 0" "s = demo_manager" using mem_registered by blast
  have t: "pdu_type (demo_request 77 1 1) = SUBSCRIPTION_REQUEST" "pdu_message_id (demo_request 77 1 1) = 77"
    "pdu_choice (demo_request 77 1 1) = C_SubscriptionRequest (demo_choice 1 1)"
    "subreq_dapp_identifier (demo_choice 1 1) = 1" "subreq_ran_function_identifier (demo_choice 1 1) = 1"
    by (simp_all add: demo_request_def demo_choice_def new_Pdu_def)
  have "is_dapp_registered s 1" "\<not> is_subscribed s 1 1" "next_subscription_id s = 1" "get_registered_dapps s = [1]"
    unfolding a(7) by code_simp+
  then show ?thesis
    using subscription_request_answered[OF a(1-4) t(1,3), of mem_platform] a(2,5,6)
    by (simp add: t queued_after_def) blast
qed

text \<open>
  C8: a subscription delete is answered by one acknowledgement with the request's message id:
  positive when the id is that of a subscription of this dApp, which is then the only one gone,
  negative and without effect on the manager otherwise. It is queued as a response is.
\<close>

theorem subscription_delete_answered:
  assumes "iface_ok a" and s: "if_subscription_manager a = Some s"
    and q: "if_response_queue a = Some q" "rq_rep q xs"
    and pdu: "pdu_type pdu = SUBSCRIPTION_DELETE" "pdu_choice pdu = C_SubscriptionDelete del"
  shows "\<exists>a' s' q' mid code. dispatch P a pdu = Some a'
    \<and> if_subscription_manager a' = Some s' \<and> if_response_queue a' = Some q'
    \<and> rq_rep q' (queued_after q xs (delete_ack mid (now_of P a) (pdu_message_id pdu) code))
    \<and> 1 \<le> mid \<and> mid \<le> 1000
    \<and> ((\<exists>r. map_of (subscription_ids s) (subdel_subscription_id del) = Some (subdel_dapp_identifier del, r)
          \<and> code = POSITIVE \<and> is_subscribed s (subdel_dapp_identifier del) r
          \<and> sub_abs s' = (sub_abs s)\<lparr>spec_subs := spec_subs (sub_abs s) - {(subdel_dapp_identifier del, r)}\<rparr>)
       \<or> (\<nexists>r. map_of (subscription_ids s) (subdel_subscription_id del) = Some (subdel_dapp_identifier del, r))
          \<and> code = NEGATIVE \<and> s' = s)"
proof -
  let ?d = "subdel_dapp_identifier del" and ?i = "subdel_subscription_id del"
  let ?op = "Op_remove_by_id ?d ?i"
  let ?a = "after_op P a s ?op" and ?code = "if fst (sm_step s ?op) = SUCCESS then POSITIVE else NEGATIVE"
  let ?r = "delete_ack (draw P a) (now_of P a) (pdu_message_id pdu) ?code"
  obtain q' where r: "map_option snd (queue_outbound (drawn P ?a) ?r) = Some ((drawn P ?a)\<lparr> if_response_queue := Some q' \<rparr>)"
    "rq_rep q' (queued_after q xs ?r)" using queued_answer[of ?a q xs P ?r] q by auto
  then have d: "dispatch P a pdu = Some ((drawn P ?a)\<lparr> if_response_queue := Some q' \<rparr>)"
    using pdu by (simp add: dispatch_def subscription_delete_eq[OF s] Let_def del: sm_step.simps)
  have "ids_inv s" using assms(1) s by (auto simp: iface_ok_def sm_good_def)
  from remove_by_id_spec[OF this, of ?i ?d] show ?thesis
    using d r(2) message_id_range
    by (intro exI[of _ "(drawn P ?a)\<lparr> if_response_queue := Some q' \<rparr>"] exI[of _ "sm_next s ?op"]
        exI[of _ q'] exI[of _ "draw P a"] exI[of _ ?code]) (auto simp del: sm_next_simps sm_step.simps sub_abs_sel)
qed

theorem subscription_delete_answered_witness:
  "\<exists>a0 a' q' mid. E3Interface_init mem_platform mem_iface = Some (SUCCESS, a0)
     \<and> dispatch mem_platform a0 ((new_Pdu SUBSCRIPTION_DELETE 0)\<lparr> pdu_message_id := 78,
         pdu_choice := C_SubscriptionDelete \<lparr> subdel_dapp_identifier = 5, subdel_subscription_id = 9 \<rparr> \<rparr>) = Some a'
     \<and> if_response_queue a' = Some q' \<and> rq_rep q' [delete_ack mid 0 78 NEGATIVE]"
proof -
  let ?del = "\<lparr> subdel_dapp_identifier = 5, subdel_subscription_id = 9 \<rparr>"
  let ?pdu = "(new_Pdu SUBSCRIPTION_DELETE 0)\<lparr> pdu_message_id := 78, pdu_choice := C_SubscriptionDelete ?del \<rparr>"
  obtain a0 q where a0: "E3Interface_init mem_platform mem_iface = Some (SUCCESS, a0)" "iface_ok a0"
    "if_subscription_manager a0 = Some (set_sm_lifecycle_callback new_SubscriptionManager True)"
    "if_response_queue a0 = Some q" "rq_rep q []" "\<not> rq_shutdown q" "rq_cap q \<noteq> 0"
    using mem_iface_init by blast
  have t: "pdu_type ?pdu = SUBSCRIPTION_DELETE" "pdu_choice ?pdu = C_SubscriptionDelete ?del"
    by (simp_all add: new_Pdu_def)
  have "subscription_ids (set_sm_lifecycle_callback new_SubscriptionManager True) = []"
    by (simp add: set_sm_lifecycle_callback_def new_SubscriptionManager_def)
  then show ?thesis
    using subscription_delete_answered[OF a0(2-5) t, of mem_platform] a0(1,6,7)
    by (fastforce simp: queued_after_def)
qed

text \<open>
  C9: a setup request registers a dApp and is answered, over any encoder that meets its contract, as
  follows. When the encoder accepts the response, it is what is sent, and the dApp decodes it to its own
  message id, the identifiers of the available RAN functions in their order, and either a positive code
  with a dApp identifier in 1..100 that was free and is now registered, or, when all hundred are taken,
  a negative code with the identifier 0 and no change of the manager. When the encoder refuses the
  response, as an encoder that does not allow the identifier 0 does with a refusal, nothing is sent, and
  a dApp that was registered stays so.
\<close>

theorem setup_request_answered:
  fixes P :: "('sm, 'w) platform"
  assumes "iface_ok a" and s: "if_subscription_manager a = Some s" and enc: "if_encoder a = Some enc"
    and con: "encoder_contract (enc (now_of P (setup_registered P a s))) wire"
  defines "E \<equiv> enc (now_of P (setup_registered P a s))"
  shows "\<exists>s' d code. if_subscription_manager (setup_registered P a s) = Some s'
    \<and> (code = POSITIVE \<and> id_range d \<and> \<not> is_dapp_registered s d
         \<and> sub_abs s' = (sub_abs s)\<lparr>spec_registered := insert d (spec_registered (sub_abs s))\<rparr>
       \<or> code = NEGATIVE \<and> d = 0 \<and> (\<forall>d. id_range d \<longrightarrow> is_dapp_registered s d) \<and> s' = s)
    \<and> (case enc_encode E (setup_reply P a s m) of
         Inl _ \<Rightarrow> handle_setup_request P a req m = Some (setup_registered P a s)
       | Inr msg \<Rightarrow> handle_setup_request P a req m =
             map_option snd (conn_code (conn_send_response (the_connector P) (em_buffer msg)) (setup_registered P a s))
           \<and> (\<exists>p r. enc_decode E (em_buffer msg) = Inr p \<and> pdu_type p = SETUP_RESPONSE
              \<and> pdu_choice p = C_SetupResponse r \<and> sresp_request_id r = m
              \<and> sresp_response_code r = code \<and> sresp_dapp_identifier r = Some d
              \<and> map rf_ran_function_identifier (sresp_ran_function_list r)
                  = SmRegistry_get_available_ran_functions (g_registry a)))"
proof -
  let ?op = "Op_register (pl_steady P (g_world a))" and ?p = "setup_reply P a s m"
  let ?code = "if fst (sm_step s ?op) = SUCCESS then POSITIVE else NEGATIVE" and ?d = "fst (snd (sm_step s ?op))"
  have good: "sm_good s" using assms(1) s by (auto simp: iface_ok_def)
  have tag: "pdu_tagged ?p" by (simp add: setup_reply_def Let_def)
  obtain r where r: "pdu_choice ?p = C_SetupResponse r" "sresp_request_id r = m" "sresp_response_code r = ?code"
    "sresp_dapp_identifier r = Some ?d"
    "map rf_ran_function_identifier (sresp_ran_function_list r) = SmRegistry_get_available_ran_functions (g_registry a)"
    by (simp add: setup_reply_def Let_def describe_identifiers del: sm_step.simps)
  have dec: "enc_decode E (em_buffer msg) = Inr (wire ?p) \<and> pdu_type (wire ?p) = SETUP_RESPONSE
      \<and> pdu_choice (wire ?p) = C_SetupResponse r" if "enc_encode E ?p = Inr msg" for msg
    using encoder_contract.roundtrip[OF con tag that[unfolded E_def]] encoder_contract.wire_type[OF con]
      encoder_contract.wire_choice[OF con tag] r(1) by (simp add: setup_reply_def Let_def E_def)
  have "if_subscription_manager (setup_registered P a s) = Some (sm_next s ?op)"
    by (simp add: setup_registered_def)
  then show ?thesis
    using register_outcome[OF good, of "pl_steady P (g_world a)"] setup_request_eq[OF s enc, of P req m] dec r(2-5)
    by (intro exI[of _ "sm_next s ?op"] exI[of _ ?d] exI[of _ ?code])
      (auto simp: E_def[symmetric] simp del: sm_next_simps sm_step.simps sub_abs_sel split: sum.split)
qed

theorem setup_request_answered_witness:
  "\<exists>a0 msg p r. E3Interface_init mem_platform mem_iface = Some (SUCCESS, a0)
     \<and> enc_encode (JsonE3Encoder jval_ops) (setup_reply mem_platform a0
           (set_sm_lifecycle_callback new_SubscriptionManager True) 12) = Inr msg
     \<and> enc_decode (JsonE3Encoder jval_ops) (em_buffer msg) = Inr p
     \<and> pdu_choice p = C_SetupResponse r \<and> sresp_request_id r = 12
     \<and> sresp_response_code r = POSITIVE \<and> (\<exists>d. sresp_dapp_identifier r = Some d \<and> id_range d)"
proof -
  let ?s = "set_sm_lifecycle_callback new_SubscriptionManager True" and ?E = "JsonE3Encoder jval_ops"
  obtain a0 where a0: "E3Interface_init mem_platform mem_iface = Some (SUCCESS, a0)" "iface_ok a0"
    "if_subscription_manager a0 = Some ?s" "if_encoder a0 = Some (\<lambda>now. ?E)"
    using mem_iface_init by blast
  have con: "encoder_contract ?E json_wire" using jval.enc.encoder_contract_axioms .
  obtain msg where msg: "enc_encode ?E (setup_reply mem_platform a0 ?s 12) = Inr msg"
    using jval_encodes by blast
  have "\<not> is_dapp_registered ?s 1" "id_range 1" by code_simp+
  with setup_request_answered[OF a0(2,3,4), where P = mem_platform and m = 12 and wire = json_wire] con msg a0(1)
  show ?thesis by fastforce
qed

text \<open>
  C31: with the ASN.1 encoder, a dApp that asks for a setup while all hundred dApp identifiers are taken
  gets no answer: the response carries the identifier 0, which \<^verbatim>\<open>INTEGER (1..100)\<close> of the schema does not
  allow, the encoding fails and the handler returns without sending. Nothing but the random generator
  has been used: manager, registry, queue and connector are as before.
\<close>

theorem asn1_refusal_is_not_sent:
  assumes "aper_ranges A" and "iface_ok a" and s: "if_subscription_manager a = Some s"
    and enc: "if_encoder a = Some (Asn1E3Encoder A)" and full: "\<forall>d. id_range d \<longrightarrow> is_dapp_registered s d"
    and "reg_factories (g_registry a) = []"
  shows "handle_setup_request P a req m = Some (drawn P a)"
proof -
  have good: "sm_good s" using assms(2) s by (auto simp: iface_ok_def)
  have reg: "register_dapp s (pl_steady P (g_world a)) = ((INTERNAL_ERROR, 0), s)"
    by (rule register_dapp_cases[of s "pl_steady P (g_world a)"]) (use good full in \<open>auto simp: sm_good_def\<close>)
  have same: "put_sm s a = a" "a\<lparr> g_registry := g_registry a \<rparr> = a" using s by (simp_all add: put_sm_def)
  have "setup_registered P a s = drawn P a"
    using describe_no_factory[OF assms(6)] same
    by (simp add: setup_registered_def after_op_def reg sm_next_def run_lifecycle_def Let_def)
  moreover have "asn1_encode A (setup_reply P a s m) = Inl ENCODE_FAILED"
    by (rule aper_ranges.refusal_not_encoded[OF assms(1)]) (simp add: setup_reply_def reg Let_def, simp)
  ultimately show ?thesis
    by (simp add: setup_request_eq[OF s enc] Asn1E3Encoder_def)
qed

definition demo_full :: SubscriptionManager where
  "demo_full = fst (sm_run (set_sm_lifecycle_callback new_SubscriptionManager True) (replicate 100 (Op_register 0)))"

lemma demo_full_full: "sm_good demo_full" "sm_lifecycle_callback demo_full"
  "id_range d \<longrightarrow> is_dapp_registered demo_full d"
proof -
  let ?s = "set_sm_lifecycle_callback new_SubscriptionManager True"
  show "sm_good demo_full" unfolding demo_full_def by (rule sm_good_run[OF sm_good_new]) simp
  have "sm_good s \<Longrightarrow> sm_lifecycle_callback (fst (sm_run s (replicate n (Op_register 0)))) = sm_lifecycle_callback s" for s n
  proof (induction n arbitrary: s)
    case (Suc n)
    from Suc.IH[OF sm_good_next[OF Suc.prems], of "Op_register 0"] callback_next[OF Suc.prems, of "Op_register 0"] show ?case
      by (simp add: split_beta Let_def)
  qed simp
  from this[OF sm_good_new] show "sm_lifecycle_callback demo_full"
    by (simp add: demo_full_def set_sm_lifecycle_callback_def)
  have "mgr_inv ?s" using sm_good_new by (simp add: sm_good_def)
  from hundred_registrations[OF this] show "id_range d \<longrightarrow> is_dapp_registered demo_full d" by (simp add: demo_full_def)
qed

theorem asn1_refusal_is_not_sent_witness:
  "\<exists>a0 a req. E3Interface_init mem_platform mem_iface = Some (SUCCESS, a0)
     \<and> a = a0\<lparr> if_subscription_manager := Some demo_full, if_encoder := Some (Asn1E3Encoder ack_aper) \<rparr>
     \<and> handle_setup_request mem_platform a req 12 = Some a"
proof -
  obtain a0 where a0: "E3Interface_init mem_platform mem_iface = Some (SUCCESS, a0)" "iface_ok a0"
    "g_registry a0 = new_SmRegistry" using mem_iface_init by blast
  let ?a = "a0\<lparr> if_subscription_manager := Some demo_full, if_encoder := Some (Asn1E3Encoder ack_aper) \<rparr>"
  have ok: "iface_ok ?a" using a0(2) demo_full_full(1,2) by (simp add: iface_ok_def)
  have "handle_setup_request mem_platform ?a req 12 = Some (drawn mem_platform ?a)" for req
    by (rule asn1_refusal_is_not_sent[OF ack_ranges.aper_ranges_axioms ok])
      (use a0(3) demo_full_full(3) in \<open>auto simp: new_SmRegistry_def\<close>)
  then show ?thesis using a0(1) by auto
qed

text \<open>
  C19: an interface that was stopped and successfully started again is running and yet refuses every
  outbound PDU with NOT_INITIALIZED, whatever its threads and the agent do from then on: the queue
  that stop has shut down is not replaced, and init is refused. While stop joins the threads, they
  leave the queue shut down.
\<close>

theorem restarted_interface_cannot_send:
  assumes "if_response_queue a \<noteq> None" and "if_state a \<noteq> UNINITIALIZED" and "if_state a \<noteq> STOPPING"
    and "\<forall>b b'. join b = Some b' \<longrightarrow> queue_down b \<longrightarrow> queue_down b'"
    and "E3Interface_stop P join a = Some a1" and "E3Interface_start P a1 = Some (SUCCESS, a2)"
    and "(iface_step P any_call)\<^sup>*\<^sup>* a2 b"
  shows "E3Interface_is_running a2 \<and> queue_outbound b pdu = Some (NOT_INITIALIZED, b)
    \<and> E3Interface_init P a1 = Some (ALREADY_INITIALIZED, a1)"
proof -
  have d: "queue_down a1" "if_state a1 = INITIALIZED"
    using down_stop[OF assms(1-3) _ assms(5)] assms(4) by blast+
  then have "queue_down a2" "if_state a2 = RUNNING"
    using assms(6) by (auto simp: E3Interface_start_def queue_down_def conn_code_Some split: if_splits bind_splits)
  moreover have "queue_down b" using down_inv.inv_steps[OF assms(7)] \<open>queue_down a2\<close> .
  ultimately show ?thesis
    using d(2) down_queue_outbound[of b pdu] by (simp add: E3Interface_is_running_def E3Interface_init_def)
qed

theorem restarted_interface_cannot_send_witness:
  "\<exists>a0 a1 a2. E3Interface_init mem_platform mem_iface = Some (SUCCESS, a0)
     \<and> E3Interface_stop mem_platform Some a0 = Some a1 \<and> E3Interface_start mem_platform a1 = Some (SUCCESS, a2)
     \<and> queue_outbound a2 (new_Pdu MESSAGE_ACK 3) = Some (NOT_INITIALIZED, a2)"
proof -
  obtain a0 q c where a0: "E3Interface_init mem_platform mem_iface = Some (SUCCESS, a0)"
    "if_response_queue a0 = Some q" "if_state a0 = INITIALIZED" "if_connector a0 = Some (Posix_object c)"
    using mem_iface_init by blast
  obtain a1 c1 where a1: "E3Interface_stop mem_platform Some a0 = Some a1"
    "if_state a1 = INITIALIZED" "if_connector a1 = Some (Posix_object c1)"
    using mem_stop[OF a0(4)] a0(3) by auto
  obtain a2 where a2: "E3Interface_start mem_platform a1 = Some (SUCCESS, a2)" using mem_start[OF a1(2,3)] by blast
  from restarted_interface_cannot_send[OF _ _ _ _ a1(1) a2 rtranclp.rtrancl_refl] a0 a1 a2 show ?thesis by auto
qed

text \<open>
  C10: what the dispatch of a message puts into the outbound queue is put behind what was there, and
  is well typed: the type tag of each PDU fits its content, which the encoders rely on, and its
  message id is not 0, provided the service model emits PDUs whose tag fits their content; an id that
  the service model left at 0 is filled in.
\<close>

theorem dispatch_queues_well_typed:
  assumes "iface_ok a" and "if_response_queue a = Some q" and "rq_rep q xs"
    and "\<forall>m act st. act_emits pdu_tagged (vt_handle_control_action (pl_sm P) m act st)"
  shows "\<exists>a' q' ys. dispatch P a pdu = Some a' \<and> if_response_queue a' = Some q' \<and> rq_rep q' (xs @ ys)
    \<and> (\<forall>y \<in> set ys. pdu_tagged y \<and> pdu_message_id y \<noteq> 0)"
proof -
  have "appended xs a" using assms(2,3) by (auto simp: appended_def intro: exI[of _ "[]"])
  from appended_dispatch[OF assms(1) this] assms(4) show ?thesis
    by (fastforce simp: appended_def list_all_iff sendable_def)
qed

theorem dispatch_queues_well_typed_witness:
  "\<exists>a s a' q' ys. if_subscription_manager a = Some s \<and> get_registered_dapps s = [1]
     \<and> dispatch mem_platform a (demo_request 77 1 1) = Some a' \<and> if_response_queue a' = Some q' \<and> rq_rep q' ([] @ ys)
     \<and> (\<forall>y \<in> set ys. pdu_tagged y \<and> pdu_message_id y \<noteq> 0)"
proof -
  obtain a :: "(SimpleServiceModel, mem_world) E3Interface" and s q where a: "iface_ok a" "if_response_queue a = Some q" "rq_rep q []"
    "if_subscription_manager a = Some s" "s = demo_manager" using mem_registered by blast
  have s: "get_registered_dapps s = [1]" unfolding a(5) by code_simp
  have "\<forall>m act st. act_emits pdu_tagged (vt_handle_control_action (pl_sm mem_platform) m act st)"
    by (simp add: simple_sm_def simple_handle_control_action_def make_message_ack_pdu_def pdu_tagged_def new_Pdu_def Let_def)
  from dispatch_queues_well_typed[OF a(1-3) this, of "demo_request 77 1 1"] a(4) s show ?thesis by blast
qed

end
