(* ===== verification/Interface_Shutdown.thy ===== *)
theory Interface_Shutdown
  imports Interface_Protocol
begin

text \<open>
  Stopping the interface: what \<^verbatim>\<open>E3Interface::stop\<close> has done when it joins the threads and when it
  returns, and when the loops of the threads in \<^verbatim>\<open>src/core/e3_interface.cpp\<close> end.

  Over ZeroMQ they end: all waiting has a timeout there, which the locale \<open>zmq_timeouts\<close> of the connector
  gives and \<open>responsive_connector\<close> states for the connector's methods. Over POSIX sockets only the
  subscriber's rounds are sure to end (\<open>timed_receiver\<close>). Its setup thread waits without limit for the
  request of a peer that has connected, and its publisher for a peer to connect, so there is no
  theorem that joins all threads.
\<close>

section \<open>Connectors on which no thread waits for ever\<close>

text \<open>\<open>J\<close> is what has to hold of the connector and the system; the calls keep it.\<close>

locale timed_receiver =
  fixes C :: "'c connector_ops" and J :: "'c \<Rightarrow> bool"
  assumes receive_live: "J c \<Longrightarrow> \<exists>r b' c'. conn_receive C b c = Some (r, b', c') \<and> J c'"

locale responsive_connector = timed_receiver +
  assumes recv_setup_live: "J c \<Longrightarrow> \<exists>r b' c'. conn_recv_setup_request C b c = Some (r, b', c') \<and> J c'"
    and send_response_live: "J c \<Longrightarrow> \<exists>ec c'. conn_send_response C d c = Some (ec, c') \<and> J c'"
    and inbound_live: "J c \<Longrightarrow> \<exists>ec c'. conn_setup_inbound_connection C c = Some (ec, c') \<and> J c'"
    and outbound_live: "J c \<Longrightarrow> \<exists>ec c'. conn_setup_outbound_connection C c = Some (ec, c') \<and> J c'"
    and send_live: "J c \<Longrightarrow> \<exists>ec c'. conn_send C d c = Some (ec, c') \<and> J c'"

definition live_zmq :: "(handle \<Rightarrow> 'w \<Rightarrow> bool) \<Rightarrow> 'w conn_state \<Rightarrow> bool" where
  "live_zmq timed cw \<longleftrightarrow> (\<exists>c. fst cw = Zmq_object c \<and> zmq_live timed (c, snd cw))"

lemma live_zmqI: "zmq_live timed cw \<Longrightarrow> live_zmq timed (on_zmq cw)"
  by (simp add: live_zmq_def on_zmq_def)

lemma live_zmq_recv:
  assumes "live_zmq timed cw" and "\<And>c w. zmq_live timed (c, w) \<Longrightarrow> \<exists>r b' cw'. f (c, w) = Some (r, b', cw') \<and> zmq_live timed cw'"
  shows "\<exists>r b' cw'. virtual_recv f g cw = Some (r, b', cw') \<and> live_zmq timed cw'"
proof -
  obtain c where c: "fst cw = Zmq_object c" "zmq_live timed (c, snd cw)" using assms(1) by (auto simp: live_zmq_def)
  from assms(2)[OF c(2)] obtain r b' cw' where f: "f (c, snd cw) = Some (r, b', cw')" "zmq_live timed cw'" by blast
  then have "virtual_recv f g cw = Some (r, b', on_zmq cw')" using c(1) by (simp add: virtual_recv_def)
  then show ?thesis using live_zmqI[OF f(2)] by blast
qed

lemma live_zmq_code:
  assumes "live_zmq timed cw" and "\<And>c w. zmq_live timed (c, w) \<Longrightarrow> \<exists>ec cw'. f (c, w) = Some (ec, cw') \<and> zmq_live timed cw'"
  shows "\<exists>ec cw'. virtual_code f g cw = Some (ec, cw') \<and> live_zmq timed cw'"
proof -
  obtain c where c: "fst cw = Zmq_object c" "zmq_live timed (c, snd cw)" using assms(1) by (auto simp: live_zmq_def)
  from assms(2)[OF c(2)] obtain ec cw' where f: "f (c, snd cw) = Some (ec, cw')" "zmq_live timed cw'" by blast
  then have "virtual_code f g cw = Some (ec, on_zmq cw')" using c(1) by (simp add: virtual_code_def)
  then show ?thesis using live_zmqI[OF f(2)] by blast
qed

context zmq_timeouts
begin

lemma connector_responsive: "responsive_connector (virtual_connector S Z env) (live_zmq timed)"
proof (unfold_locales, goal_cases)
  case (1 c b)
  then show ?case
    using live_zmq_recv[of timed c "Zmq_receive Z b"] receive_live by (simp add: virtual_connector_def ZmqE3Connector_ops_def Let_def)
next
  case (2 c b)
  then show ?case
    using live_zmq_recv[of timed c "Zmq_recv_setup_request Z b"] recv_setup_live
    by (simp add: virtual_connector_def ZmqE3Connector_ops_def Let_def)
next
  case (3 c d)
  then show ?case
    using live_zmq_code[of timed c "Zmq_send_response Z d"] send_response_live
    by (simp add: virtual_connector_def ZmqE3Connector_ops_def Let_def)
next
  case (4 c)
  have "\<exists>ec cw'. Zmq_setup_inbound_connection Z (c, w) = (ec, cw') \<and> zmq_live timed cw'" if "zmq_live timed (c, w)" for c w
    using inbound_live[OF that] by (metis prod.collapse)
  then show ?case
    using live_zmq_code[OF 4, of "\<lambda>cw. Some (Zmq_setup_inbound_connection Z cw)"]
    by (simp add: virtual_connector_def ZmqE3Connector_ops_def Let_def)
next
  case (5 c)
  have "\<exists>ec cw'. Zmq_setup_outbound_connection Z (c, w) = (ec, cw') \<and> zmq_live timed cw'" if "zmq_live timed (c, w)" for c w
    using outbound_live[OF that] by (metis prod.collapse)
  then show ?case
    using live_zmq_code[OF 5, of "\<lambda>cw. Some (Zmq_setup_outbound_connection Z cw)"]
    by (simp add: virtual_connector_def ZmqE3Connector_ops_def Let_def)
next
  case (6 c d)
  then show ?case
    using live_zmq_code[of timed c "Zmq_send Z d"] send_live by (simp add: virtual_connector_def ZmqE3Connector_ops_def Let_def)
qed

end

sublocale zmq_timeouts \<subseteq> conn: responsive_connector "virtual_connector S Z env" "live_zmq timed" for S env
  by (rule connector_responsive)

text \<open>POSIX: \<^verbatim>\<open>recv\<close> on a descriptor that \<^verbatim>\<open>poll\<close> has reported as readable does not wait.\<close>

locale posix_poll =
  fixes S :: "'w posix_ops"
  assumes poll_readable: "sys_poll S fd t w = (r, w') \<Longrightarrow> 0 < r \<Longrightarrow> sys_recv S fd n w' \<noteq> None"
begin

lemma posix_receive_returns: "\<exists>r b' cw'. Posix_receive S b (c, w) = Some (r, b', cw')"
proof -
  obtain r w1 where p: "sys_poll S (pc_inbound_connection_socket c) POLL_TIMEOUT_MS w = (r, w1)" by fastforce
  then show ?thesis
    using poll_readable[OF p, of "length (vec_resize DEFAULT_BUFFER_SIZE b)"]
    by (auto simp: Posix_receive_def wait_for_socket_def Let_def)
qed

lemma connector_receives: "timed_receiver (virtual_connector S Z env) (\<lambda>cw. \<exists>c. fst cw = Posix_object c)"
proof (unfold_locales, goal_cases)
  case (1 cw b)
  then obtain c where c: "fst cw = Posix_object c" by blast
  obtain r b' cw' where "Posix_receive S b (c, snd cw) = Some (r, b', cw')" using posix_receive_returns by blast
  then show ?case
    using c by (auto simp: virtual_connector_def PosixE3Connector_ops_def virtual_recv_def on_posix_def Let_def)
qed

end

sublocale posix_poll \<subseteq> conn: timed_receiver "virtual_connector S Z env" "\<lambda>cw. \<exists>c. fst cw = Posix_object c" for Z env
  by (rule connector_receives)

section \<open>A pop with a deadline returns\<close>

lemma attempts_return: "rq_ok q \<Longrightarrow> pop_attempt q d \<noteq> None" "rq_ok q \<Longrightarrow> last_attempt q d \<noteq> None"
  using attempt_empty attempt_item by (metis list.exhaust option.distinct(1))+

lemma pop_phase_returns:
  assumes "pop_keeps rq_ok env"
  shows "rq_ok q \<Longrightarrow> pop_phase env n i d q \<noteq> None"
proof (induction n arbitrary: i d q)
  case (Suc n)
  obtain a q' where a: "pop_attempt q d = Some (a, q')" using attempts_return(1)[OF Suc.prems, of d] by auto
  then have "rq_ok (env i q')" using pop_keepsD[OF assms] Suc.prems by blast
  then show ?case using Suc.IH a by (cases a) simp_all
qed simp

lemma pop_deadline_loop_returns:
  assumes keep: "pop_keeps rq_ok env" and late: "deadline \<le> clock (m + 1)"
  shows "rq_ok q \<Longrightarrow> j \<le> m \<Longrightarrow> pop_deadline_loop env clock deadline j d q \<noteq> None"
proof (induction "m - j" arbitrary: j d q)
  case 0
  then show ?case using late attempts_return(2) by (subst pop_deadline_loop.simps) simp
next
  case (Suc n)
  obtain a q' where a: "pop_attempt q d = Some (a, q')" using attempts_return(1)[OF Suc.prems(1), of d] by auto
  then have "rq_ok (env (SPIN_COUNT + YIELD_COUNT + j) q')" using pop_keepsD[OF keep] Suc.prems(1) by blast
  then have "pop_deadline_loop env clock deadline (j + 1) d' (env (SPIN_COUNT + YIELD_COUNT + j) q') \<noteq> None" for d'
    using Suc.hyps(1)[of "j + 1"] Suc.hyps(2) by simp
  then show ?case
    using a attempts_return(2)[OF Suc.prems(1)] by (subst pop_deadline_loop.simps) (auto split: attempt.split)
qed

lemma pop_timed_returns:
  assumes keep: "pop_keeps rq_ok env" and late: "clock 0 + timeout_ms * 1000000 \<le> clock (m + 1)" and q: "rq_ok q"
  shows "pop_timed env clock timeout_ms now q \<noteq> None"
proof -
  obtain a1 q1 where 1: "pop_phase env SPIN_COUNT 0 (default_Pdu now) q = Some (a1, q1)"
    using pop_phase_returns[OF keep q, of SPIN_COUNT 0 "default_Pdu now"] by auto
  then have q1: "rq_ok q1" using pop_phase_keeps[OF keep q] by blast
  have 2: "pop_phase env YIELD_COUNT SPIN_COUNT d q1 \<noteq> None" for d using pop_phase_returns[OF keep q1] .
  have 3: "pop_deadline_loop env clock (clock 0 + timeout_ms * 1000000) 0 d q2 \<noteq> None"
    if "pop_phase env YIELD_COUNT SPIN_COUNT d' q1 = Some (a, q2)" for a d d' q2
    using pop_deadline_loop_returns[where clock = clock and m = m, OF keep late pop_phase_keeps[OF keep q1 that]] by simp
  show ?thesis
    using 1 2 3 unfolding pop_timed_def Let_def
    by (cases a1) (fastforce split: option.split attempt.split)+
qed

section \<open>The threads\<close>

text \<open>
  A loop that looks at a flag before each round returns, if its rounds do and the flag is set from some
  round on by what happens between the rounds.
\<close>

lemma stopped_loop_returns:
  fixes L :: "nat \<Rightarrow> 's \<Rightarrow> 't option"
  assumes unfold: "\<And>n s. L n s = (if stop s then Some (out s) else Option.bind (body n s) (\<lambda>s'. L (n + 1) (env n s')))"
    and body: "\<And>n s. I s \<Longrightarrow> \<exists>s'. body n s = Some s' \<and> I s'"
    and env: "\<And>n s. I s \<Longrightarrow> I (env n s)" and flag: "\<And>n s. N \<le> n \<Longrightarrow> stop (env n s)" and "I s"
  shows "\<exists>s'. L n s = Some (out s') \<and> I s' \<and> stop s'"
  using \<open>I s\<close>
proof (induction "Suc N - n" arbitrary: n s rule: less_induct)
  case less
  show ?case
  proof (cases "stop s")
    case True
    then show ?thesis using less.prems unfold by auto
  next
    case False
    obtain s1 where 1: "body n s = Some s1" "I (env n s1)" using body[OF less.prems] env by blast
    have "\<exists>s'. L (n + 1) (env n s1) = Some (out s') \<and> I s' \<and> stop s'"
    proof (cases "N \<le> n")
      case True
      then show ?thesis using 1(2) flag unfold[of "n + 1"] by auto
    next
      case False
      then show ?thesis using less.hyps[OF _ 1(2), of "n + 1"] by simp
    qed
    then show ?thesis using False 1(1) unfold[of n s] by simp
  qed
qed

definition linked :: "('w conn_state \<Rightarrow> bool) \<Rightarrow> ('sm, 'w) E3Interface \<Rightarrow> bool" where
  "linked J a \<longleftrightarrow> (\<exists>c. if_connector a = Some c \<and> J (c, g_world a))"

definition live :: "('sm, 'w) platform \<Rightarrow> ('w conn_state \<Rightarrow> bool) \<Rightarrow> ('sm, 'w) E3Interface \<Rightarrow> bool" where
  "live P J a \<longleftrightarrow> following P a \<and> linked J a"

lemma linked_frame:
  "linked J a \<Longrightarrow> if_connector b = if_connector a \<Longrightarrow> g_world b = g_world a \<Longrightarrow> linked J b"
  by (simp add: linked_def)

text \<open>
  What other threads do between two rounds keeps the interface well formed and its sockets as they
  have to be, and from round \<open>N\<close> on they leave the stop requested.
\<close>

definition stopping_env :: "('sm, 'w) platform \<Rightarrow> ('w conn_state \<Rightarrow> bool) \<Rightarrow> nat \<Rightarrow> ('sm, 'w) thread_env \<Rightarrow> bool" where
  "stopping_env P J N env \<longleftrightarrow> (\<forall>n a. live P J a \<longrightarrow> live P J (env n a))
     \<and> (\<forall>n a. N \<le> n \<longrightarrow> if_should_stop (env n a))"

text \<open>The pauses of the publisher's pops leave a well-formed queue, and the clock reaches each deadline.\<close>

definition timely_pop :: "(nat \<Rightarrow> pause_env) \<Rightarrow> (nat \<Rightarrow> nat \<Rightarrow> int) \<Rightarrow> bool" where
  "timely_pop pause clock \<longleftrightarrow> (\<forall>n i q. rq_ok q \<longrightarrow> rq_ok (pause n i q))
     \<and> (\<forall>n. \<exists>m. clock n 0 + 10 * 1000000 \<le> clock n (m + 1))"

text \<open>
  The other functions of the platform have nothing to do with the connector's sockets, and the service
  models can be relied on.
\<close>

locale receiving_platform =
  fixes P :: "('sm, 'w) platform" and J :: "'w conn_state \<Rightarrow> bool"
  assumes receiver: "timed_receiver (the_connector P) J" and sms: "reliable_sm (pl_sm P)"
    and random_live: "J (c, w) \<Longrightarrow> J (c, snd (pl_random P w))"
    and affinity_live: "J (c, w) \<Longrightarrow> J (c, pl_set_affinity P n w)"
    and niceness_live: "J (c, w) \<Longrightarrow> J (c, pl_set_niceness P n w)"
    and sigpipe_live: "J (c, w) \<Longrightarrow> J (c, pl_ignore_sigpipe P w)"
begin

lemma linked_drawn: "linked J a \<Longrightarrow> linked J (drawn P a)"
  using random_live by (auto simp: linked_def)

lemma linked_queue: "linked J a \<Longrightarrow> queue_outbound a pdu = Some (ec, a') \<Longrightarrow> linked J a'"
  by (auto simp: queue_outbound_def linked_def split: option.splits)

lemma linked_queued: "linked J a \<Longrightarrow> map_option snd (queue_outbound a pdu) = Some a' \<Longrightarrow> linked J a'"
  using linked_queue by auto

lemma linked_emitter:
  assumes "linked J a" and "outbound_emitter P a pdu = Some (ec, a')"
  shows "linked J a'"
proof (cases "pdu_message_id pdu = 0")
  case True
  then show ?thesis
    using assms(2) linked_queue[OF linked_drawn[OF assms(1)]] by (simp add: outbound_emitter_def generate_message_id_eq)
next
  case False
  then show ?thesis using assms(2) linked_queue[OF assms(1)] by (simp add: outbound_emitter_def)
qed

lemma linked_run_sm_act:
  "linked J a \<Longrightarrow> run_sm_act (outbound_emitter P) prov ob act a = Some (r, a') \<Longrightarrow> linked J a'"
proof (induction act arbitrary: a)
  case (Act_emit pdu k)
  then obtain ec a1 where e: "emit_outbound (outbound_emitter P) ob a pdu = Some (ec, a1)"
    "run_sm_act (outbound_emitter P) prov ob (k ec) a1 = Some (r, a')" by (auto split: option.splits)
  then have "linked J a1" using Act_emit.prems(1) linked_emitter by (auto simp: emit_outbound_def split: if_splits)
  then show ?case using Act_emit.IH[OF rangeI] e(2) by blast
qed auto

lemma linked_control_action:
  assumes "linked J a" and "handle_control_action P a act m = Some a'"
  shows "linked J a'"
proof -
  obtain sm r where g: "get_by_ran_function (pl_sm P) (g_registry a) (dca_ran_function_identifier act) = (sm, r)"
    by fastforce
  let ?a = "a\<lparr> g_registry := r \<rparr>"
  have l: "linked J ?a" using assms(1) by (simp add: linked_def)
  show ?thesis
  proof (cases "\<exists>ob. sm = Some ob \<and> vt_is_running (pl_sm P) (smo_state ob)")
    case False
    then have "a' = ?a" using assms(2) g by (auto simp: handle_control_action_def Let_def split: option.splits)
    then show ?thesis using l by simp
  next
    case True
    then obtain ob where ob: "sm = Some ob" "vt_is_running (pl_sm P) (smo_state ob)" by blast
    then obtain x st b where r: "run_sm_act (outbound_emitter P) (subscribers_provider
        (vt_ran_function_id (pl_sm P) (smo_state ob))) ob (vt_handle_control_action (pl_sm P) m act (smo_state ob)) ?a
        = Some ((x, st), b)" "a' = store_sm (dca_ran_function_identifier act) ob st b"
      using assms(2) g by (auto simp: handle_control_action_def Let_def split: bind_splits)
    from linked_run_sm_act[OF l r(1)] show ?thesis by (simp add: r(2) linked_def store_sm_def)
  qed
qed

lemma linked_dispatch:
  assumes "linked J a" and "following P a" and "dispatch P a pdu = Some a'"
  shows "linked J a'"
proof -
  obtain s where s: "if_subscription_manager a = Some s" using assms(2) by (auto simp: following_def iface_ok_def)
  have op: "linked J (after_op P a s op)" for op using assms(1) by (simp add: linked_def)
  have req: "linked J a'" if "handle_subscription_request P a req m = Some a'" for req m
    using that linked_queued[OF linked_drawn[OF op]] linked_queued[OF linked_drawn[OF assms(1)]]
    by (cases "is_dapp_registered s (subreq_dapp_identifier req)")
      (simp_all add: subscription_request_registered[OF s] subscription_request_unregistered[OF s] Let_def
        del: map_option_eq_Some)
  have del: "linked J a'" if "handle_subscription_delete P a del m = Some a'" for del m
    using that linked_queued[OF linked_drawn[OF op]] by (simp add: subscription_delete_eq[OF s] Let_def del: map_option_eq_Some)
  have rel: "linked J a'" if "handle_release_message P a rel = Some a'" for rel
    using that op by (auto simp: handle_release_message_def disconnection_eq[OF s])
  have rep: "linked J (handle_dapp_report a rep)" for rep using assms(1) by (simp add: linked_def handle_dapp_report_def)
  show ?thesis
    using assms(1,3) req del rel rep linked_control_action[OF assms(1)] unfolding dispatch_def
    by (cases "pdu_type pdu"; cases "pdu_choice pdu") auto
qed

lemma conn_code_live:
  assumes "live P J a" and "\<And>cw. J cw \<Longrightarrow> \<exists>ec cw'. f cw = Some (ec, cw') \<and> J cw'"
  shows "\<exists>ec a'. conn_code f a = Some (ec, a') \<and> live P J a'"
proof -
  obtain c where c: "if_connector a = Some c" "J (c, g_world a)" using assms(1) by (auto simp: live_def linked_def)
  from assms(2)[OF c(2)] obtain ec cw where "f (c, g_world a) = Some (ec, cw)" "J cw" by blast
  then show ?thesis
    using c following_put_conn[of P a cw] assms(1) by (auto simp: conn_code_def live_def linked_def)
qed

lemma conn_recv_live:
  assumes "live P J a" and "\<And>cw. J cw \<Longrightarrow> \<exists>r b cw'. f cw = Some (r, b, cw') \<and> J cw'"
  shows "\<exists>r b a'. conn_recv f a = Some (r, b, a') \<and> live P J a'"
proof -
  obtain c where c: "if_connector a = Some c" "J (c, g_world a)" using assms(1) by (auto simp: live_def linked_def)
  from assms(2)[OF c(2)] obtain r b cw where "f (c, g_world a) = Some (r, b, cw)" "J cw" by blast
  then show ?thesis
    using c following_put_conn[of P a cw] assms(1) by (auto simp: conn_recv_def live_def linked_def)
qed

lemma configure_live: "live P J a \<Longrightarrow> live P J (configure_thread P a)"
  using affinity_live niceness_live
  by (auto simp: configure_thread_def live_def linked_def apply_thread_config_def Let_def)

lemma subscriber_round_live:
  assumes "live P J a"
  shows "\<exists>buf' a'. subscriber_round P buf a = Some (buf', a') \<and> live P J a'"
proof -
  obtain r b a1 where 1: "conn_recv (conn_receive (the_connector P) buf) a = Some (r, b, a1)" "live P J a1"
    using conn_recv_live[OF assms] timed_receiver.receive_live[OF receiver] by blast
  obtain enc where e: "if_encoder a1 = Some enc" using 1(2) by (auto simp: live_def following_def iface_ok_def)
  have "\<exists>a'. dispatch P a1 pdu = Some a' \<and> live P J a'" for pdu
    using following_dispatch[OF sms, of a1 pdu] linked_dispatch[of a1 pdu] 1(2) by (auto simp: live_def)
  then show ?thesis using 1 e by (fastforce simp: subscriber_round_def split: sum.split)
qed

lemma subscriber_rounds_return:
  assumes "stopping_env P J N env" and "live P J a"
  shows "\<exists>a'. subscriber_rounds P env n buf a = Some a' \<and> live P J a' \<and> if_should_stop a'"
proof -
  let ?L = "\<lambda>n ba. subscriber_rounds P env n (fst ba) (snd ba)"
  have "\<exists>r :: bytes \<times> ('sm, 'w) E3Interface. ?L n (buf, a) = Some (snd r) \<and> live P J (snd r) \<and> if_should_stop (snd r)"
  proof (rule stopped_loop_returns[where L = ?L and out = snd and I = "\<lambda>ba. live P J (snd ba)"
        and stop = "\<lambda>ba. if_should_stop (snd ba)" and body = "\<lambda>n ba. subscriber_round P (fst ba) (snd ba)"
        and env = "\<lambda>n ba. (fst ba, env n (snd ba))" and N = N])
    show "?L n ba = (if if_should_stop (snd ba) then Some (snd ba)
        else Option.bind (subscriber_round P (fst ba) (snd ba)) (\<lambda>s'. ?L (n + 1) (fst s', env n (snd s'))))" for n ba
      by (subst subscriber_rounds.simps) simp
  next
    show "\<exists>s'. subscriber_round P (fst ba) (snd ba) = Some s' \<and> live P J (snd s')" if "live P J (snd ba)" for ba
      using subscriber_round_live[OF that, of "fst ba"] by auto
  qed (use assms in \<open>auto simp: stopping_env_def\<close>)
  then show ?thesis by auto
qed

end

locale responsive_platform = receiving_platform +
  assumes connector: "responsive_connector (the_connector P) J"
begin

lemma setup_request_live:
  assumes "live P J a"
  shows "\<exists>a'. handle_setup_request P a req m = Some a' \<and> live P J a'"
proof -
  obtain s enc where s: "if_subscription_manager a = Some s" "if_encoder a = Some enc" "sm_good s"
    using assms by (auto simp: live_def following_def iface_ok_def)
  let ?b = "setup_registered P a s"
  have "linked J ?b" using assms random_live by (auto simp: setup_registered_def live_def linked_def)
  then have b: "linked J ?b" "if_connector ?b \<noteq> None" by (auto simp: linked_def)
  have send: "\<exists>ec cw. conn_code (conn_send_response (the_connector P) d) ?b = Some (ec, put_conn cw ?b) \<and> J cw" for d
  proof -
    obtain c where c: "if_connector ?b = Some c" "J (c, g_world ?b)" using b(1) by (auto simp: linked_def)
    from responsive_connector.send_response_live[OF connector c(2), of d] obtain ec cw
      where "conn_send_response (the_connector P) d (c, g_world ?b) = Some (ec, cw)" "J cw" by blast
    then show ?thesis using c(1) by (intro exI[of _ ec] exI[of _ cw]) (simp add: conn_code_def)
  qed
  have "\<exists>a'. handle_setup_request P a req m = Some a' \<and> linked J a'"
  proof (cases "enc_encode (enc (now_of P ?b)) (setup_reply P a s m)")
    case (Inr msg)
    then show ?thesis using send[of "em_buffer msg"] by (auto simp: setup_request_eq[OF s(1,2)] linked_def)
  qed (use b(1) in \<open>simp add: setup_request_eq[OF s(1,2)]\<close>)
  then show ?thesis using following_setup_request[of P a] assms by (auto simp: live_def)
qed

lemma setup_round_live:
  assumes "live P J a"
  shows "\<exists>a'. setup_round P a = Some a' \<and> live P J a'"
proof -
  obtain r b a1 where 1: "conn_recv (conn_recv_setup_request (the_connector P) []) a = Some (r, b, a1)" "live P J a1"
    using conn_recv_live[OF assms] responsive_connector.recv_setup_live[OF connector] by blast
  obtain enc where "if_encoder a1 = Some enc" using 1(2) by (auto simp: live_def following_def iface_ok_def)
  then show ?thesis
    using 1 setup_request_live[OF 1(2)] by (auto simp: setup_round_def split: sum.split PduChoice.split)
qed

lemma publisher_round_live:
  assumes "live P J a" and pause: "\<And>i q. rq_ok q \<Longrightarrow> rq_ok (pause i q)"
    and late: "clock 0 + 10 * 1000000 \<le> clock (m + 1)"
  shows "\<exists>a'. publisher_round P pause clock a = Some a' \<and> live P J a'"
proof -
  obtain q where q: "if_response_queue a = Some q" "rq_ok q" using assms(1) by (auto simp: live_def following_def iface_ok_def)
  note keep = pop_keeps_rq_ok[of pause, OF pause]
  obtain x q' where x: "pop_timed pause clock 10 (now_of P a) q = Some (x, q')"
    using pop_timed_returns[where clock = clock and m = m and timeout_ms = 10, OF keep _ q(2)] late by fastforce
  have "rq_ok q'" using pop_timed_keeps[OF keep q(2) x] by simp
  then have l: "live P J (a\<lparr>if_response_queue := Some q'\<rparr>)"
    using following_queue[of P a] assms(1) by (auto simp: live_def linked_def)
  obtain enc where e: "if_encoder a = Some enc" using assms(1) by (auto simp: live_def following_def iface_ok_def)
  have "\<exists>ec a'. conn_code (conn_send (the_connector P) d) (a\<lparr>if_response_queue := Some q'\<rparr>) = Some (ec, a')
      \<and> live P J a'" for d
    using conn_code_live[OF l] responsive_connector.send_live[OF connector] by blast
  then have "\<exists>a'. map_option snd (conn_code (conn_send (the_connector P) d) (a\<lparr>if_response_queue := Some q'\<rparr>)) = Some a'
      \<and> live P J a'" for d
    by (metis option.simps(9) snd_conv)
  then show ?thesis
    using q(1) x e l by (cases x) (auto simp: publisher_round_def Let_def simp del: map_option_eq_Some split: sum.split)
qed

text \<open>The loops themselves.\<close>

lemma setup_loop_returns:
  assumes "stopping_env P J N env" and "live P J a"
  shows "\<exists>a'. setup_loop P env n a = Some a' \<and> live P J a' \<and> if_should_stop a'"
proof (rule stopped_loop_returns[where L = "setup_loop P env" and out = "\<lambda>a. a" and I = "live P J"
      and body = "\<lambda>n. setup_round P" and env = env and N = N])
  show "setup_loop P env n a = (if if_should_stop a then Some a
      else Option.bind (setup_round P a) (\<lambda>a'. setup_loop P env (n + 1) (env n a')))" for n a
    by (rule setup_loop.simps)
qed (use assms setup_round_live in \<open>auto simp: stopping_env_def\<close>)

lemma publisher_rounds_return:
  assumes "stopping_env P J N env" and "live P J a"
    and timely: "timely_pop pause clock"
  shows "\<exists>a'. publisher_rounds P env pause clock n a = Some a' \<and> live P J a' \<and> if_should_stop a'"
proof (rule stopped_loop_returns[where L = "publisher_rounds P env pause clock" and out = "\<lambda>a. a"
      and I = "live P J" and body = "\<lambda>n. publisher_round P (pause n) (clock n)" and env = env and N = N])
  show "publisher_rounds P env pause clock n a = (if if_should_stop a then Some a
      else Option.bind (publisher_round P (pause n) (clock n) a)
             (\<lambda>a'. publisher_rounds P env pause clock (n + 1) (env n a')))" for n a
    by (rule publisher_rounds.simps)
next
  show "\<exists>a'. publisher_round P (pause n) (clock n) a = Some a' \<and> live P J a'" if "live P J a" for n a
    using timely publisher_round_live[OF that, of "pause n" "clock n"] unfolding timely_pop_def by blast
qed (use assms(1,2) in \<open>auto simp: stopping_env_def\<close>)

lemma outbound_retry_returns:
  assumes "stopping_env P J N env" and "live P J a"
  shows "\<exists>b a'. outbound_retry P env n a = Some (b, a') \<and> live P J a' \<and> (b \<or> if_should_stop a')"
  using assms(2)
proof (induction "Suc N - n" arbitrary: n a rule: less_induct)
  case less
  let ?b = "env n a"
  have b: "live P J ?b" "N \<le> n \<Longrightarrow> if_should_stop ?b" using assms(1) less.prems by (simp_all add: stopping_env_def)
  show ?case
  proof (cases "if_should_stop ?b")
    case True
    then show ?thesis using b(1) by (subst outbound_retry.simps) (auto simp: Let_def)
  next
    case False
    obtain ec a1 where 1: "conn_code (conn_setup_outbound_connection (the_connector P)) ?b = Some (ec, a1)"
      "live P J a1"
      using conn_code_live[OF b(1)] responsive_connector.outbound_live[OF connector] by blast
    have "\<exists>b' a'. outbound_retry P env (n + 1) a1 = Some (b', a') \<and> live P J a' \<and> (b' \<or> if_should_stop a')"
      using less.hyps[OF _ 1(2), of "n + 1"] b(2) False by fastforce
    then show ?thesis using False 1 by (subst outbound_retry.simps) (auto simp: Let_def)
  qed
qed

lemma subscriber_loop_returns:
  assumes "stopping_env P J N env" and "live P J a"
  shows "\<exists>a'. subscriber_loop P env a = Some a' \<and> live P J a'"
proof -
  obtain ec a1 where 1: "conn_code (conn_setup_inbound_connection (the_connector P)) (configure_thread P a) = Some (ec, a1)"
    "live P J a1"
    using conn_code_live[OF configure_live[OF assms(2)]] responsive_connector.inbound_live[OF connector] by blast
  then show ?thesis using subscriber_rounds_return[OF assms(1) 1(2), of 0 "[]"] by (auto simp: subscriber_loop_def)
qed

lemma publisher_loop_returns:
  assumes "stopping_env P J N env_retry" and "stopping_env P J M env" and "live P J a"
    and timely: "timely_pop pause clock"
  shows "\<exists>a'. publisher_loop P env_retry env pause clock a = Some a' \<and> live P J a' \<and> if_should_stop a'"
proof -
  let ?a = "(configure_thread P a)\<lparr>g_world := pl_ignore_sigpipe P (g_world (configure_thread P a))\<rparr>"
  have "live P J ?a" using configure_live[OF assms(3)] sigpipe_live by (auto simp: live_def linked_def)
  from outbound_retry_returns[OF assms(1) this, of 0] obtain b a1 where 1: "outbound_retry P env_retry 0 ?a = Some (b, a1)"
    "live P J a1" "b \<or> if_should_stop a1" by blast
  show ?thesis
    using 1 publisher_rounds_return[OF assms(2) 1(2) timely, of 0] by (auto simp: publisher_loop_def Let_def)
qed

end

lemma zmq_platformI:
  assumes "zmq_timeouts (pl_zmq P) opened timed" and "reliable_sm (pl_sm P)"
    and "\<And>s w n. timed s w \<Longrightarrow> timed s (snd (pl_random P w)) \<and> timed s (pl_set_affinity P n w)
        \<and> timed s (pl_set_niceness P n w) \<and> timed s (pl_ignore_sigpipe P w)"
  shows "responsive_platform P (live_zmq timed)"
proof -
  have c: "responsive_connector (the_connector P) (live_zmq timed)"
    unfolding the_connector_def by (rule zmq_timeouts.connector_responsive[OF assms(1)])
  have "receiving_platform P (live_zmq timed)"
    by (rule receiving_platform.intro) (use c assms(2,3) in \<open>auto simp: responsive_connector_def live_zmq_def zmq_live_def\<close>)
  then show ?thesis using c by (simp add: responsive_platform_def responsive_platform_axioms_def)
qed

lemma zmq_started_live:
  assumes "zmq_timeouts (pl_zmq P) opened timed" and "following P a0"
    and "if_connector a0 = Some (Zmq_object c)" and "zc_inbound_socket c = None"
    and "E3Interface_start P a0 = Some (SUCCESS, a)"
  shows "live P (live_zmq timed) a"
proof -
  obtain cw where i: "Zmq_setup_initial_connection (pl_zmq P) (c, g_world a0) = Some (SUCCESS, cw)"
    "if_connector a = Some (Zmq_object (fst cw))" "g_world a = snd cw"
    using assms(3,5)
    by (auto simp: E3Interface_start_def conn_code_def the_connector_def virtual_connector_def virtual_code_def
        ZmqE3Connector_ops_def put_conn_def on_zmq_def Let_def split: if_splits bind_splits)
  then have "linked (live_zmq timed) a"
    using zmq_timeouts.initial_live[OF assms(1) i(1) assms(4)] by (simp add: linked_def live_zmq_def)
  then show ?thesis using following_start[OF assms(2,5)] by (simp add: live_def)
qed

section \<open>Stopping\<close>



text \<open>
  Over POSIX sockets a peer can keep \<^verbatim>\<open>stop\<close> from returning: one that connects to the setup socket and
  sends nothing holds the setup thread in \<^verbatim>\<open>recv\<close>, which has no timeout and which the shutdown of the
  listening sockets does not interrupt.
\<close>

lemma silent_peer_blocks_setup:
  assumes "if_connector a = Some (Posix_object c)" and "0 \<le> pc_setup_socket c" and "\<not> if_should_stop a"
    and "sys_poll (pl_posix P) (pc_setup_socket c) POLL_TIMEOUT_MS (g_world a) = (r, w1)" and "0 < r"
    and "sys_accept (pl_posix P) (pc_setup_socket c) w1 = Some (sock, w2)" and "0 \<le> sock"
    and "sys_recv (pl_posix P) sock DEFAULT_BUFFER_SIZE w2 = None"
  shows "setup_loop P env n a = None"
proof -
  have "Posix_recv_setup_request (pl_posix P) (pl_shutdown_seen P) [] (c, g_world a) = None"
    using assms(2,4-8) by (simp add: Posix_recv_setup_request_def wait_for_socket_def Let_def)
  then have "setup_round P a = None"
    using assms(1) by (simp add: setup_round_def conn_recv_def the_connector_def virtual_connector_def virtual_recv_def
        PosixE3Connector_ops_def Let_def)
  then show ?thesis using assms(3) by (subst setup_loop.simps) simp
qed

lemma silent_peer_blocks_setup_witness:
  "\<exists>a. if_state a = RUNNING \<and> setup_loop mem_platform (\<lambda>n b. b\<lparr> if_should_stop := True \<rparr>) 0 a = None"
proof -
  let ?c = "(new_PosixE3Connector TCP [] [] [] 1 2 3)\<lparr> pc_setup_socket := 3 \<rparr>" and ?w = "mem_init [[]]"
  let ?a = "mem_iface\<lparr> if_state := RUNNING, if_connector := Some (Posix_object ?c), g_world := ?w \<rparr>"
  obtain sock w2 where s: "mem_alloc [] (?w\<lparr> mw_backlog := [] \<rparr>) = (sock, w2)" by fastforce
  have "0 \<le> sock" "mw_in w2 sock = []" using s by (auto simp: mem_alloc_def mem_init_def)
  then have "setup_loop mem_platform (\<lambda>n b. b\<lparr> if_should_stop := True \<rparr>) 0 ?a = None"
    by (intro silent_peer_blocks_setup[where c = ?c and r = 1 and ?w1.0 = ?w and sock = sock and ?w2.0 = w2])
      (use s in \<open>simp_all add: mem_os_def mem_iface_def new_E3Interface_def mem_init_def\<close>)
  then show ?thesis by (intro exI[of _ ?a]) simp
qed

section \<open>A platform over ZeroMQ\<close>

text \<open>The message library in memory, without POSIX sockets.\<close>

definition no_posix :: "'w posix_ops" where
  "no_posix =
     \<lparr> fs_errno = (\<lambda>w. EAGAIN), fs_stat = (\<lambda>f w. (-1, w)), fs_mkdir = (\<lambda>f m w. (-1, w)),
       fs_chmod = (\<lambda>f m w. (-1, w)), fs_getgrnam = (\<lambda>g w. (None, w)),
       fs_chown_group = (\<lambda>f g w. (-1, w)), fs_unlink = (\<lambda>f w. (-1, w)), fs_rmdir = (\<lambda>f w. (-1, w)),
       sys_socket = (\<lambda>d p w. (-1, w)), sys_bind = (\<lambda>fd a w. (-1, w)), sys_listen = (\<lambda>fd n w. (-1, w)),
       sys_accept = (\<lambda>fd w. Some (-1, w)), sys_poll = (\<lambda>fd t w. (-1, w)), sys_recv = (\<lambda>fd n w. Some (-1, [], w)),
       sys_send = (\<lambda>fd bs w. Some (-1, w)), sys_shutdown = (\<lambda>fd w. (-1, w)), sys_close = (\<lambda>fd w. (-1, w)) \<rparr>"

definition zmq_platform :: "(SimpleServiceModel, mem_zmq) platform" where
  "zmq_platform =
     \<lparr> pl_posix = no_posix, pl_zmq = mem_zmq_ops, pl_shutdown_seen = (\<lambda>w. True),
       pl_encoder = create_encoder False True jval_ops ack_aper,
       pl_sm = simple_sm 0 (\<lambda>_. None) (\<lambda>_. True), pl_now = (\<lambda>w. 0), pl_steady = (\<lambda>w. 0),
       pl_random = (\<lambda>w. (41, w)), pl_set_affinity = (\<lambda>n w. w), pl_set_niceness = (\<lambda>n w. w),
       pl_ignore_sigpipe = (\<lambda>w. w), pl_slot_size = 256 \<rparr>"

abbreviation mz_timed_open :: "handle \<Rightarrow> mem_zmq \<Rightarrow> bool" where
  "mz_timed_open \<equiv> \<lambda>s w. s \<in> snd ` set (mz_socks w) \<and> s \<in> set (mz_timed w)"

lemma zmq_platform_sel [simp]:
  "pl_zmq zmq_platform = mem_zmq_ops" "pl_sm zmq_platform = simple_sm 0 (\<lambda>_. None) (\<lambda>_. True)"
  "snd (pl_random zmq_platform w) = w" "pl_set_affinity zmq_platform n w = w" "pl_set_niceness zmq_platform n w = w"
  "pl_ignore_sigpipe zmq_platform w = w" "pl_slot_size zmq_platform = 256" "pl_now zmq_platform w = 0"
  "pl_encoder zmq_platform JSON = Some (\<lambda>now. JsonE3Encoder jval_ops)"
  by (simp_all add: zmq_platform_def create_encoder_def)

lemma zmq_reliable: "reliable_sm (pl_sm zmq_platform)"
  using simple_reliable.reliable_sm_axioms by simp

interpretation zmq_threads: responsive_platform zmq_platform "live_zmq mz_timed_open"
  by (rule zmq_platformI[OF _ zmq_reliable]) (use mem_ztime.zmq_timeouts_axioms in simp_all)

text \<open>POSIX sockets in memory on which a connected socket is readable when there is something to read.\<close>

definition poll_os :: "mem_world posix_ops" where
  "poll_os = mem_os\<lparr> sys_poll := (\<lambda>fd t w. (if mw_in w fd \<noteq> [] then 1 else 0, w)) \<rparr>"

interpretation poll_os: posix_poll poll_os
  by unfold_locales (auto simp: poll_os_def mem_os_def Let_def split: if_splits)

interpretation poll_threads: receiving_platform "mem_platform\<lparr> pl_posix := poll_os \<rparr>" "\<lambda>cw. \<exists>c. fst cw = Posix_object c"
  by (rule receiving_platform.intro)
    (use poll_os.connector_receives mem_reliable in \<open>auto simp: the_connector_def mem_platform_def\<close>)

text \<open>Another thread requests the stop after \<open>N\<close> rounds.\<close>

definition stop_at :: "nat \<Rightarrow> ('sm, 'w) thread_env" where
  "stop_at N n a = (if N \<le> n then a\<lparr>if_should_stop := True\<rparr> else a)"

lemma stop_at_stopping: "stopping_env P J N (stop_at N)"
  by (simp add: stopping_env_def stop_at_def live_def linked_def following_def iface_ok_def)

lemma demo_timely: "timely_pop (\<lambda>n i q. q) (\<lambda>n i. int i * 20000000)"
  by (auto simp: timely_pop_def intro: exI[of _ 0])

definition zmq_iface :: "(SimpleServiceModel, mem_zmq) E3Interface" where
  "zmq_iface = new_E3Interface ((default_E3Config False True)\<lparr> cfg_link_layer := ZMQ, cfg_transport_layer := TCP \<rparr>)
     new_SmRegistry mem_zmq_init []"

lemma zmq_iface_start:
  "\<exists>a0 a c. E3Interface_init zmq_platform zmq_iface = Some (SUCCESS, a0) \<and> following zmq_platform a0
     \<and> if_connector a0 = Some (Zmq_object c) \<and> zc_inbound_socket c = None
     \<and> E3Interface_start zmq_platform a0 = Some (SUCCESS, a)"
proof -
  obtain q where q: "new_ResponseQueue 256 128 0 = Some q" using rq_rep_new[of 128 256 0] by auto
  obtain a0 c where a0: "E3Interface_init zmq_platform zmq_iface = Some (SUCCESS, a0)" "if_state a0 = INITIALIZED"
    "if_connector a0 = Some (Zmq_object c)" "zc_inbound_socket c = None" "zc_transport_layer c = TCP"
    "g_world a0 = mem_zmq_init"
    using q by (simp add: E3Interface_init_def zmq_iface_def new_E3Interface_def default_E3Config_def Let_def
        new_ZmqE3Connector_def)
  have "following zmq_platform a0"
    by (rule following_init[OF a0(1)])
      (simp_all add: zmq_iface_def new_E3Interface_def follows_def new_SmRegistry_def reg_wf_def)
  moreover have "\<exists>a. E3Interface_start zmq_platform a0 = Some (SUCCESS, a)"
    using a0(2-6)
    by (simp add: E3Interface_start_def conn_code_def the_connector_def virtual_connector_def virtual_code_def
        ZmqE3Connector_ops_def Zmq_setup_initial_connection_def zmq_ipc_dir_def mem_zmq_ops_def mem_zmq_init_def
        ipc_permissions_def Let_def)
  ultimately show ?thesis using a0 by blast
qed

section \<open>Properties\<close>

text \<open>
  C17: over ZeroMQ the threads of the interface end. After a successful start, if some other thread
  requests the stop at some time, the loops of the setup, the subscriber and the publisher thread
  return, after any number of rounds before, whatever arrives and whatever else the other threads do as
  long as they keep the interface well formed and the sockets in place. What is used of libzmq is that
  a receive on a socket with a timeout returns and that a send on a publisher or reply socket does.
\<close>

theorem interface_threads_end:
  assumes "zmq_timeouts (pl_zmq P) opened timed" and "reliable_sm (pl_sm P)"
    and "\<forall>s w n. timed s w \<longrightarrow> timed s (snd (pl_random P w)) \<and> timed s (pl_set_affinity P n w)
        \<and> timed s (pl_set_niceness P n w) \<and> timed s (pl_ignore_sigpipe P w)"
    and "following P a0" and "if_connector a0 = Some (Zmq_object c)" and "zc_inbound_socket c = None"
    and "E3Interface_start P a0 = Some (SUCCESS, a)"
    and "stopping_env P (live_zmq timed) N env" and "stopping_env P (live_zmq timed) M env'"
    and "timely_pop pause clock"
  shows "(\<exists>a'. setup_loop P env 0 a = Some a' \<and> following P a' \<and> if_should_stop a')
    \<and> (\<exists>a'. subscriber_loop P env a = Some a' \<and> following P a')
    \<and> (\<exists>a'. publisher_loop P env' env pause clock a = Some a' \<and> following P a' \<and> if_should_stop a')"
proof -
  have R: "responsive_platform P (live_zmq timed)" using zmq_platformI[OF assms(1,2)] assms(3) by blast
  note l = zmq_started_live[OF assms(1,4-7)]
  show ?thesis
    using responsive_platform.setup_loop_returns[OF R assms(8) l]
      responsive_platform.subscriber_loop_returns[OF R assms(8) l]
      responsive_platform.publisher_loop_returns[OF R assms(9,8) l assms(10)] by (auto simp: live_def)
qed

theorem interface_threads_end_witness:
  "\<exists>a0 a. E3Interface_init zmq_platform zmq_iface = Some (SUCCESS, a0) \<and> E3Interface_start zmq_platform a0 = Some (SUCCESS, a)
     \<and> (\<exists>a'. setup_loop zmq_platform (stop_at 3) 0 a = Some a' \<and> if_should_stop a')
     \<and> (\<exists>a'. subscriber_loop zmq_platform (stop_at 3) a = Some a')
     \<and> (\<exists>a'. publisher_loop zmq_platform (stop_at 5) (stop_at 3) (\<lambda>n i q. q) (\<lambda>n i. int i * 20000000) a = Some a')"
proof -
  obtain a0 a c where a: "E3Interface_init zmq_platform zmq_iface = Some (SUCCESS, a0)" "following zmq_platform a0"
    "if_connector a0 = Some (Zmq_object c)" "zc_inbound_socket c = None" "E3Interface_start zmq_platform a0 = Some (SUCCESS, a)"
    using zmq_iface_start by blast
  have z: "zmq_timeouts (pl_zmq zmq_platform) (\<lambda>s w. s \<in> snd ` set (mz_socks w)) mz_timed_open"
    using mem_ztime.zmq_timeouts_axioms by simp
  have f: "\<forall>s w n. mz_timed_open s w \<longrightarrow> mz_timed_open s (snd (pl_random zmq_platform w)) \<and> mz_timed_open s (pl_set_affinity zmq_platform n w)
      \<and> mz_timed_open s (pl_set_niceness zmq_platform n w) \<and> mz_timed_open s (pl_ignore_sigpipe zmq_platform w)"
    by simp
  from interface_threads_end[OF z zmq_reliable f a(2-5) stop_at_stopping[of _ _ 3] stop_at_stopping[of _ _ 5] demo_timely]
  show ?thesis using a(1,5) by blast
qed



end
