(* ===== verification/E3_Agent.thy ===== *)
theory E3_Agent
  imports Interface_Shutdown
begin

text \<open>
  \<^verbatim>\<open>src/core/e3_agent.cpp\<close> and \<^verbatim>\<open>include/libe3/e3_agent.hpp\<close>: the facade over the protocol layer. The
  agent owns the interface, which \<^verbatim>\<open>init\<close> makes, and keeps the two handlers the user has set. The
  registry, the world and the record of handler calls live in the interface's record while there is
  one and in the agent's own fields otherwise.
\<close>

section \<open>State\<close>

record ('sm, 'w) E3Agent =
  ag_config :: E3Config
  ag_interface :: "('sm, 'w) E3Interface option"
  ag_dapp_report_handler :: bool
  ag_dapp_status_changed_handler :: bool
  ag_registry :: "'sm SmRegistry"
  ag_world :: 'w
  ag_calls :: "handler_call list"

definition new_E3Agent :: "E3Config \<Rightarrow> 'sm SmRegistry \<Rightarrow> 'w \<Rightarrow> ('sm, 'w) E3Agent" where
  "new_E3Agent config registry w =
     \<lparr> ag_config = config, ag_interface = None, ag_dapp_report_handler = False,
       ag_dapp_status_changed_handler = False, ag_registry = registry, ag_world = w, ag_calls = [] \<rparr>"

definition put_iface :: "('sm, 'w) E3Interface \<Rightarrow> ('sm, 'w) E3Agent \<Rightarrow> ('sm, 'w) E3Agent" where
  "put_iface i ag = ag\<lparr> ag_interface := Some i \<rparr>"

text \<open>\<^verbatim>\<open>interface.reset()\<close>: the destructor's \<^verbatim>\<open>stop\<close> returns at once on an uninitialised interface.\<close>

definition reset_iface :: "('sm, 'w) E3Interface \<Rightarrow> ('sm, 'w) E3Agent \<Rightarrow> ('sm, 'w) E3Agent" where
  "reset_iface i ag = ag\<lparr> ag_interface := None, ag_registry := g_registry i, ag_world := g_world i,
                        ag_calls := g_calls i \<rparr>"

section \<open>Life cycle\<close>

definition E3Agent_init :: "('sm, 'w) platform \<Rightarrow> ('sm, 'w) E3Agent \<Rightarrow> (ErrorCode \<times> ('sm, 'w) E3Agent) option" where
  "E3Agent_init P ag =
     (if ag_interface ag \<noteq> None then Some (ALREADY_INITIALIZED, ag)
      else
        do { (result, i) \<leftarrow> E3Interface_init P (new_E3Interface (ag_config ag) (ag_registry ag) (ag_world ag) (ag_calls ag));
             if result \<noteq> SUCCESS then Some (result, reset_iface i ag)
             else
               let i = (if ag_dapp_report_handler ag then set_dapp_report_handler True i else i);
                   i = (if ag_dapp_status_changed_handler ag then set_dapp_status_changed_handler True i else i)
               in Some (SUCCESS, put_iface i ag) })"

text \<open>The lazy initialisation that \<^verbatim>\<open>start\<close> and \<^verbatim>\<open>register_sm\<close> begin with.\<close>

definition ensure_init :: "('sm, 'w) platform \<Rightarrow> ('sm, 'w) E3Agent \<Rightarrow> (ErrorCode \<times> ('sm, 'w) E3Agent) option" where
  "ensure_init P ag = (if ag_interface ag = None then E3Agent_init P ag else Some (SUCCESS, ag))"

definition E3Agent_start :: "('sm, 'w) platform \<Rightarrow> ('sm, 'w) E3Agent \<Rightarrow> (ErrorCode \<times> ('sm, 'w) E3Agent) option" where
  "E3Agent_start P ag =
     do { (init_result, ag) \<leftarrow> ensure_init P ag;
          if init_result \<noteq> SUCCESS then Some (init_result, ag)
          else do { i \<leftarrow> ag_interface ag;
                    (result, i) \<leftarrow> E3Interface_start P i;
                    Some (result, put_iface i ag) } }"

definition E3Agent_stop :: "('sm, 'w) platform \<Rightarrow> (('sm, 'w) E3Interface \<Rightarrow> ('sm, 'w) E3Interface option)
    \<Rightarrow> ('sm, 'w) E3Agent \<Rightarrow> ('sm, 'w) E3Agent option" where
  "E3Agent_stop P join ag =
     (case ag_interface ag of
        None \<Rightarrow> Some ag
      | Some i \<Rightarrow> map_option (\<lambda>i. put_iface i ag) (E3Interface_stop P join i))"

text \<open>
  The destructor stops the agent; then the implementation is destroyed, and the destructor of the
  interface stops it a second time.
\<close>

definition E3Agent_destroy :: "('sm, 'w) platform \<Rightarrow> (('sm, 'w) E3Interface \<Rightarrow> ('sm, 'w) E3Interface option)
    \<Rightarrow> ('sm, 'w) E3Agent \<Rightarrow> ('sm SmRegistry \<times> 'w) option" where
  "E3Agent_destroy P join ag =
     do { ag \<leftarrow> E3Agent_stop P join ag;
          case ag_interface ag of
            None \<Rightarrow> Some (ag_registry ag, ag_world ag)
          | Some i \<Rightarrow> map_option (\<lambda>i. (g_registry i, g_world i)) (E3Interface_stop P join i) }"

definition E3Agent_state :: "('sm, 'w) E3Agent \<Rightarrow> AgentState" where
  "E3Agent_state ag = (case ag_interface ag of None \<Rightarrow> UNINITIALIZED | Some i \<Rightarrow> E3Interface_state i)"

definition E3Agent_is_running :: "('sm, 'w) E3Agent \<Rightarrow> bool" where
  "E3Agent_is_running ag = (case ag_interface ag of None \<Rightarrow> False | Some i \<Rightarrow> E3Interface_is_running i)"

section \<open>Service models and handlers\<close>

definition E3Agent_register_sm :: "('sm, 'w) platform \<Rightarrow> ('sm, 'w) E3Agent \<Rightarrow> 'sm sm_object option
    \<Rightarrow> (ErrorCode \<times> ('sm, 'w) E3Agent) option" where
  "E3Agent_register_sm P ag sm =
     (if sm = None then Some (INVALID_PARAM, ag)
      else
        do { (init_result, ag) \<leftarrow> ensure_init P ag;
             if init_result \<noteq> SUCCESS then Some (init_result, ag)
             else do { i \<leftarrow> ag_interface ag;
                       let (result, i) = E3Interface_register_sm P i sm;
                       Some (result, put_iface i ag) } })"

definition E3Agent_get_available_ran_functions :: "('sm, 'w) E3Agent \<Rightarrow> u32 list" where
  "E3Agent_get_available_ran_functions ag =
     (case ag_interface ag of None \<Rightarrow> [] | Some i \<Rightarrow> E3Interface_get_available_ran_functions i)"

definition E3Agent_set_dapp_report_handler :: "bool \<Rightarrow> ('sm, 'w) E3Agent \<Rightarrow> ('sm, 'w) E3Agent" where
  "E3Agent_set_dapp_report_handler h ag =
     (let ag = ag\<lparr> ag_dapp_report_handler := h \<rparr>
      in case ag_interface ag of
           None \<Rightarrow> ag
         | Some i \<Rightarrow> if ag_dapp_report_handler ag then put_iface (set_dapp_report_handler h i) ag else ag)"

definition E3Agent_set_dapp_status_changed_handler :: "bool \<Rightarrow> ('sm, 'w) E3Agent \<Rightarrow> ('sm, 'w) E3Agent" where
  "E3Agent_set_dapp_status_changed_handler h ag =
     (let ag = ag\<lparr> ag_dapp_status_changed_handler := h \<rparr>
      in case ag_interface ag of
           None \<Rightarrow> ag
         | Some i \<Rightarrow>
             if ag_dapp_status_changed_handler ag then put_iface (set_dapp_status_changed_handler h i) ag else ag)"

section \<open>Manual operations\<close>

text \<open>The three functions differ in the PDU only; \<open>send_pdu\<close> is what they share.\<close>

definition send_pdu :: "('sm, 'w) platform \<Rightarrow> PduType \<Rightarrow> PduChoice \<Rightarrow> ('sm, 'w) E3Agent
    \<Rightarrow> (ErrorCode \<times> ('sm, 'w) E3Agent) option" where
  "send_pdu P t ch ag =
     (case ag_interface ag of
        None \<Rightarrow> Some (NOT_INITIALIZED, ag)
      | Some i \<Rightarrow>
          if \<not> E3Interface_is_running i then Some (NOT_INITIALIZED, ag)
          else
            let pdu = new_Pdu t (now_of P i);
                (mid, i) = generate_message_id P i;
                pdu = pdu\<lparr> pdu_message_id := mid, pdu_choice := ch \<rparr>
            in map_option (\<lambda>(ec, i). (ec, put_iface i ag)) (queue_outbound i pdu))"

definition send_indication :: "('sm, 'w) platform \<Rightarrow> u32 \<Rightarrow> u32 \<Rightarrow> bytes \<Rightarrow> ('sm, 'w) E3Agent
    \<Rightarrow> (ErrorCode \<times> ('sm, 'w) E3Agent) option" where
  "send_indication P dapp_id ran_function_id data =
     send_pdu P INDICATION_MESSAGE (C_IndicationMessage \<lparr> ind_dapp_identifier = dapp_id,
       ind_ran_function_identifier = ran_function_id, ind_protocol_data = data \<rparr>)"

definition send_xapp_control :: "('sm, 'w) platform \<Rightarrow> u32 \<Rightarrow> u32 \<Rightarrow> bytes \<Rightarrow> ('sm, 'w) E3Agent
    \<Rightarrow> (ErrorCode \<times> ('sm, 'w) E3Agent) option" where
  "send_xapp_control P dapp_id ran_function_id control_data =
     send_pdu P XAPP_CONTROL_ACTION (C_XAppControlAction \<lparr> xca_dapp_identifier = dapp_id,
       xca_ran_function_identifier = ran_function_id, xca_xapp_control_data = control_data \<rparr>)"

definition send_message_ack :: "('sm, 'w) platform \<Rightarrow> u32 \<Rightarrow> ResponseCode \<Rightarrow> ('sm, 'w) E3Agent
    \<Rightarrow> (ErrorCode \<times> ('sm, 'w) E3Agent) option" where
  "send_message_ack P request_id response_code =
     send_pdu P MESSAGE_ACK (C_MessageAck \<lparr> ack_request_id = request_id, ack_response_code = response_code \<rparr>)"

section \<open>Queries\<close>

text \<open>
  A query of the subscription manager; None is the dereference of a null pointer in
  \<^verbatim>\<open>E3Interface::subscription_manager\<close>.
\<close>

definition query_manager :: "(SubscriptionManager \<Rightarrow> 'r) \<Rightarrow> 'r \<Rightarrow> ('sm, 'w) E3Agent \<Rightarrow> 'r option" where
  "query_manager f none ag =
     (case ag_interface ag of None \<Rightarrow> Some none | Some i \<Rightarrow> map_option f (if_subscription_manager i))"

definition E3Agent_get_registered_dapps :: "('sm, 'w) E3Agent \<Rightarrow> u32 list option" where
  "E3Agent_get_registered_dapps = query_manager get_registered_dapps []"

definition E3Agent_get_dapp_subscriptions :: "u32 \<Rightarrow> ('sm, 'w) E3Agent \<Rightarrow> u32 list option" where
  "E3Agent_get_dapp_subscriptions dapp_id = query_manager (\<lambda>s. get_dapp_subscriptions s dapp_id) []"

definition E3Agent_get_ran_function_subscribers :: "u32 \<Rightarrow> ('sm, 'w) E3Agent \<Rightarrow> u32 list option" where
  "E3Agent_get_ran_function_subscribers ran_function_id =
     query_manager (\<lambda>s. get_subscribed_dapps s ran_function_id) []"

definition E3Agent_dapp_count :: "('sm, 'w) E3Agent \<Rightarrow> nat option" where
  "E3Agent_dapp_count = query_manager dapp_count 0"

definition E3Agent_subscription_count :: "('sm, 'w) E3Agent \<Rightarrow> nat option" where
  "E3Agent_subscription_count = query_manager subscription_count 0"

section \<open>Moving\<close>

text \<open>
  An \<^verbatim>\<open>E3Agent\<close> object is a pointer to its implementation, null (None) once it has been moved from.
  \<^verbatim>\<open>stop\<close>, \<^verbatim>\<open>state\<close>, \<^verbatim>\<open>is_running\<close> and the destructor test the pointer; every other call follows it.
\<close>

definition E3Agent_config :: "('sm, 'w) E3Agent \<Rightarrow> E3Config" where
  "E3Agent_config ag = ag_config ag"

definition object_stop :: "('sm, 'w) platform \<Rightarrow> (('sm, 'w) E3Interface \<Rightarrow> ('sm, 'w) E3Interface option)
    \<Rightarrow> ('sm, 'w) E3Agent option \<Rightarrow> ('sm, 'w) E3Agent option option" where
  "object_stop P join impl = (case impl of None \<Rightarrow> Some None | Some ag \<Rightarrow> map_option Some (E3Agent_stop P join ag))"

definition object_state :: "('sm, 'w) E3Agent option \<Rightarrow> AgentState" where
  "object_state impl = (case impl of None \<Rightarrow> UNINITIALIZED | Some ag \<Rightarrow> E3Agent_state ag)"

definition object_is_running :: "('sm, 'w) E3Agent option \<Rightarrow> bool" where
  "object_is_running impl = (case impl of None \<Rightarrow> False | Some ag \<Rightarrow> E3Agent_is_running ag)"

definition move_construct :: "('sm, 'w) E3Agent option \<Rightarrow> ('sm, 'w) E3Agent option \<times> ('sm, 'w) E3Agent option" where
  "move_construct other = (other, None)"

text \<open>
  Destroying the implementation destroys the interface, whose destructor stops it. Assignment destroys
  the implementation of the target without calling \<^verbatim>\<open>E3Agent::stop\<close>; the registry and the system, which
  the two objects share, are those of the target before and those the destruction leaves after.
\<close>

definition destroy_impl :: "('sm, 'w) platform \<Rightarrow> (('sm, 'w) E3Interface \<Rightarrow> ('sm, 'w) E3Interface option)
    \<Rightarrow> ('sm, 'w) E3Agent \<Rightarrow> ('sm SmRegistry \<times> 'w) option" where
  "destroy_impl P join ag =
     (case ag_interface ag of
        None \<Rightarrow> Some (ag_registry ag, ag_world ag)
      | Some i \<Rightarrow> map_option (\<lambda>i. (g_registry i, g_world i)) (E3Interface_stop P join i))"

definition set_shared :: "'sm SmRegistry \<Rightarrow> 'w \<Rightarrow> ('sm, 'w) E3Agent \<Rightarrow> ('sm, 'w) E3Agent" where
  "set_shared r w ag =
     ag\<lparr> ag_registry := r, ag_world := w,
         ag_interface := map_option (\<lambda>i. i\<lparr> g_registry := r, g_world := w \<rparr>) (ag_interface ag) \<rparr>"

definition move_assign :: "('sm, 'w) platform \<Rightarrow> (('sm, 'w) E3Interface \<Rightarrow> ('sm, 'w) E3Interface option)
    \<Rightarrow> ('sm, 'w) E3Agent option \<Rightarrow> ('sm, 'w) E3Agent option
    \<Rightarrow> (('sm, 'w) E3Agent option \<times> ('sm, 'w) E3Agent option) option" where
  "move_assign P join target other =
     (case target of
        None \<Rightarrow> Some (other, None)
      | Some ag \<Rightarrow> do { (r, w) \<leftarrow> destroy_impl P join ag;
                       Some (map_option (set_shared r w) other, None) })"

lemma destroy_stops_then_releases:
  "E3Agent_destroy P join ag = Option.bind (E3Agent_stop P join ag) (destroy_impl P join)"
  by (simp add: E3Agent_destroy_def destroy_impl_def[abs_def])

lemma moved_from_is_idle:
  assumes "move_construct other = (new, old)"
  shows "new = other" and "object_state old = UNINITIALIZED" and "\<not> object_is_running old"
    and "object_stop P join old = Some None"
  using assms by (simp_all add: move_construct_def object_state_def object_is_running_def object_stop_def)

lemma stop_finish_registry:
  assumes "stop_finish P i = Some i'"
  shows "reg_sms (g_registry i') = [] \<and> reg_factories (g_registry i') = []"
  using assms by (auto simp: stop_finish_def SmRegistry_clear_def put_conn_def Let_def bind_eq_Some_conv split: option.splits)

text \<open>
  Assigning to an initialised agent takes the service models of the agent that is moved in with the
  old ones: the registry is one for the process and is cleared.
\<close>

lemma move_assign_clears_registry:
  assumes "ag_interface target = Some i" and "if_state i \<noteq> UNINITIALIZED" and "if_state i \<noteq> STOPPING"
    and "move_assign P join (Some target) (Some other) = Some (Some ag, old)"
  shows "old = None \<and> E3Agent_get_available_ran_functions ag = [] \<and> E3Agent_config ag = E3Agent_config other
    \<and> E3Agent_state ag = E3Agent_state other"
proof -
  obtain i' where i': "E3Interface_stop P join i = Some i'"
    using assms(1,4) by (auto simp: move_assign_def destroy_impl_def bind_eq_Some_conv)
  then have ag: "ag = set_shared (g_registry i') (g_world i') other" "old = None"
    using assms(1,4) by (auto simp: move_assign_def destroy_impl_def)
  have "reg_sms (g_registry i') = [] \<and> reg_factories (g_registry i') = []"
    using i' assms(2,3) stop_finish_registry by (auto simp: E3Interface_stop_def bind_eq_Some_conv)
  then show ?thesis using ag
    by (auto simp: set_shared_def E3Agent_get_available_ran_functions_def E3Interface_get_available_ran_functions_def
        SmRegistry_get_available_ran_functions_def um_keys_def E3Agent_config_def E3Agent_state_def
        E3Interface_state_def split: option.split)
qed

section \<open>Invariant\<close>

text \<open>
  The interface of an agent is initialised: its members exist, and its state is not the initial one.
  So no function of the agent dereferences a null pointer.
\<close>

definition agent_ok :: "('sm, 'w) E3Agent \<Rightarrow> bool" where
  "agent_ok ag \<longleftrightarrow>
     (case ag_interface ag of
        None \<Rightarrow> reg_wf (ag_registry ag)
      | Some i \<Rightarrow> iface_ok i \<and> if_state i \<noteq> UNINITIALIZED)"

lemma set_handlers_frames [simp]:
  "iface_ok (set_dapp_report_handler h i) = iface_ok i"
  "iface_ok (set_dapp_status_changed_handler h i) = iface_ok i"
  "if_state (set_dapp_report_handler h i) = if_state i"
  "if_state (set_dapp_status_changed_handler h i) = if_state i"
  by (simp_all add: set_dapp_report_handler_def set_dapp_status_changed_handler_def iface_ok_def)

lemma init_returns: "\<exists>ec i. E3Interface_init P a = Some (ec, i) \<and> g_registry i = g_registry a
    \<and> (ec = SUCCESS \<longrightarrow> (reg_wf (g_registry a) \<longrightarrow> iface_ok i) \<and> if_state i \<noteq> UNINITIALIZED)"
proof -
  obtain q where q: "new_ResponseQueue (pl_slot_size P) 128 (now_of P a) = Some q" "rq_rep q []"
    using rq_rep_new[of 128 "pl_slot_size P" "now_of P a"] by auto
  then show ?thesis
    using sm_good_new[of True]
    by (auto simp: E3Interface_init_def iface_ok_def set_sm_lifecycle_callback_def Let_def)
qed

lemma agent_init_ok:
  assumes "agent_ok ag"
  shows "\<exists>ec ag'. E3Agent_init P ag = Some (ec, ag') \<and> agent_ok ag' \<and> (ec = SUCCESS \<longrightarrow> ag_interface ag' \<noteq> None)"
proof (cases "ag_interface ag")
  case None
  obtain ec i where i: "E3Interface_init P (new_E3Interface (ag_config ag) (ag_registry ag) (ag_world ag) (ag_calls ag))
      = Some (ec, i)" "g_registry i = ag_registry ag"
    "ec = SUCCESS \<Longrightarrow> reg_wf (ag_registry ag) \<longrightarrow> iface_ok i" "ec = SUCCESS \<Longrightarrow> if_state i \<noteq> UNINITIALIZED"
    using init_returns[of P "new_E3Interface (ag_config ag) (ag_registry ag) (ag_world ag) (ag_calls ag)"]
    by (auto simp: new_E3Interface_def)
  have "reg_wf (ag_registry ag)" using assms None by (simp add: agent_ok_def)
  then show ?thesis
    using None i
    by (auto simp: E3Agent_init_def agent_ok_def put_iface_def reset_iface_def Let_def)
next
  case (Some i)
  then show ?thesis using assms by (simp add: E3Agent_init_def)
qed

lemma ensure_init_ok:
  assumes "agent_ok ag"
  shows "\<exists>ec ag'. ensure_init P ag = Some (ec, ag') \<and> agent_ok ag' \<and> (ec = SUCCESS \<longrightarrow> ag_interface ag' \<noteq> None)"
  using agent_init_ok[OF assms, of P] assms by (auto simp: ensure_init_def)

lemma iface_start_ok:
  assumes "iface_ok i" and "if_state i \<noteq> UNINITIALIZED" and "E3Interface_start P i = Some (ec, i')"
  shows "iface_ok i' \<and> if_state i' \<noteq> UNINITIALIZED"
proof (cases "if_state i = INITIALIZED")
  case False
  then show ?thesis using assms by (simp add: E3Interface_start_def)
next
  case True
  let ?i = "i\<lparr> if_state := CONNECTING, if_should_stop := False \<rparr>"
  obtain cr cw where "conn_code (conn_setup_initial_connection (the_connector P)) ?i = Some (cr, put_conn cw ?i)"
    using assms(3) True by (auto simp: E3Interface_start_def conn_code_Some split: bind_splits)
  then have "i' = (put_conn cw ?i)\<lparr> if_state := ERROR \<rparr> \<or> i' = (put_conn cw ?i)\<lparr> if_setup_thread := True,
      if_subscriber_thread := True, if_publisher_thread := True, if_state := RUNNING \<rparr>"
    using assms(3) True by (auto simp: E3Interface_start_def split: if_splits)
  moreover have "iface_ok (put_conn cw ?i)" using assms(1) by (simp add: iface_ok_def)
  ultimately show ?thesis by (auto simp: iface_ok_def)
qed

lemma iface_stop_ok:
  assumes "iface_ok i" and "if_state i \<noteq> UNINITIALIZED"
    and join: "\<And>i i'. join i = Some i' \<Longrightarrow> (iface_step P any_call)\<^sup>*\<^sup>* i i'" and "E3Interface_stop P join i = Some i'"
  shows "iface_ok i' \<and> if_state i' \<noteq> UNINITIALIZED"
proof (cases "if_state i = STOPPING")
  case True
  then show ?thesis using assms by (simp add: E3Interface_stop_def)
next
  case False
  have "rq_rep (ResponseQueue_shutdown q) = rq_rep q" for q
    by (simp add: rq_rep_def ResponseQueue_shutdown_def fun_eq_iff)
  then have "iface_ok (stop_request P i)"
    using assms(1) by (auto simp: stop_request_def iface_ok_def put_conn_def Let_def)
  moreover obtain b where b: "join (stop_request P i) = Some b" "stop_finish P b = Some i'"
    using assms(2,4) False by (auto simp: E3Interface_stop_def split: bind_splits)
  ultimately have "iface_ok b" using ok_inv.inv_steps[OF join[OF b(1)], of "if_state (stop_request P i)"] by simp
  then show ?thesis
    using b(2) by (auto simp: stop_finish_def iface_ok_def put_conn_def Let_def reg_wf_ops(7) split: option.splits bind_splits)
qed

section \<open>The agent at work\<close>

text \<open>A step is a call of the agent's API or a round of one of the threads of its interface.\<close>

inductive agent_step :: "('sm, 'w) platform \<Rightarrow> ('sm, 'w) E3Agent \<Rightarrow> ('sm, 'w) E3Agent \<Rightarrow> bool" for P where
  Init: "E3Agent_init P ag = Some (ec, ag') \<Longrightarrow> agent_step P ag ag'"
| Start: "E3Agent_start P ag = Some (ec, ag') \<Longrightarrow> agent_step P ag ag'"
| Stop: "E3Agent_stop P join ag = Some ag' \<Longrightarrow>
    (\<And>i i'. join i = Some i' \<Longrightarrow> (iface_step P any_call)\<^sup>*\<^sup>* i i') \<Longrightarrow> agent_step P ag ag'"
| Register: "E3Agent_register_sm P ag sm = Some (ec, ag') \<Longrightarrow> agent_step P ag ag'"
| Report_handler: "agent_step P ag (E3Agent_set_dapp_report_handler h ag)"
| Status_handler: "agent_step P ag (E3Agent_set_dapp_status_changed_handler h ag)"
| Send: "send_pdu P t ch ag = Some (ec, ag') \<Longrightarrow> agent_step P ag ag'"
| Thread: "ag_interface ag = Some i \<Longrightarrow> iface_step P any_call i i' \<Longrightarrow> agent_step P ag (put_iface i' ag)"

lemma agent_send_ok:
  assumes "agent_ok ag"
  shows "\<exists>ec ag'. send_pdu P t ch ag = Some (ec, ag') \<and> agent_ok ag'"
proof (cases "ag_interface ag")
  case (Some i)
  let ?pdu = "(new_Pdu t (now_of P i))\<lparr> pdu_message_id := draw P i, pdu_choice := ch \<rparr>"
  have ok: "iface_ok i" "if_state i \<noteq> UNINITIALIZED" using assms Some by (simp_all add: agent_ok_def)
  then have "iface_keeps i (drawn P i)" by (simp add: iface_keeps_def iface_ok_def)
  from keeps_queued[OF this, of ?pdu] obtain ec i'
    where "queue_outbound (drawn P i) ?pdu = Some (ec, i')" "iface_keeps i i'" by auto
  then show ?thesis
    using Some ok assms by (auto simp: send_pdu_def generate_message_id_eq Let_def agent_ok_def put_iface_def iface_keeps_def)
qed (use assms in \<open>simp add: send_pdu_def\<close>)

lemma agent_register_ok:
  assumes "agent_ok ag"
  shows "\<exists>ec ag'. E3Agent_register_sm P ag sm = Some (ec, ag') \<and> agent_ok ag'"
proof -
  obtain ec ag1 where e: "ensure_init P ag = Some (ec, ag1)" "agent_ok ag1" "ec = SUCCESS \<longrightarrow> ag_interface ag1 \<noteq> None"
    using ensure_init_ok[OF assms] by blast
  have "agent_ok (put_iface (snd (E3Interface_register_sm P i sm)) ag1)" if "ag_interface ag1 = Some i" for i
    using e(2) that
    by (auto simp: agent_ok_def put_iface_def E3Interface_register_sm_def iface_ok_def split_beta Let_def reg_wf_ops
        split: option.splits)
  then show ?thesis using assms e by (auto simp: E3Agent_register_sm_def split_beta)
qed

lemma agent_start_ok:
  assumes "agent_ok ag" and "E3Agent_start P ag = Some (ec, ag')"
  shows "agent_ok ag'"
proof -
  obtain ec1 ag1 where e: "ensure_init P ag = Some (ec1, ag1)" "agent_ok ag1" using ensure_init_ok assms(1) by blast
  show ?thesis
  proof (cases "ec1 = SUCCESS")
    case False
    then show ?thesis using assms(2) e by (simp add: E3Agent_start_def)
  next
    case True
    then obtain i i' where i: "ag_interface ag1 = Some i" "E3Interface_start P i = Some (ec, i')" "ag' = put_iface i' ag1"
      using assms(2) e(1) by (auto simp: E3Agent_start_def split: bind_splits)
    then show ?thesis using iface_start_ok[OF _ _ i(2)] e(2) by (simp add: agent_ok_def put_iface_def)
  qed
qed

lemma agent_stop_ok:
  assumes "agent_ok ag" and join: "\<And>i i'. join i = Some i' \<Longrightarrow> (iface_step P any_call)\<^sup>*\<^sup>* i i'"
    and "E3Agent_stop P join ag = Some ag'"
  shows "agent_ok ag'"
proof (cases "ag_interface ag")
  case None
  then show ?thesis using assms by (simp add: E3Agent_stop_def)
next
  case (Some i)
  then obtain i' where i': "E3Interface_stop P join i = Some i'" "ag' = put_iface i' ag"
    using assms(3) by (auto simp: E3Agent_stop_def)
  then show ?thesis
    using iface_stop_ok[OF _ _ join i'(1)] assms(1) Some by (simp add: agent_ok_def put_iface_def)
qed

lemma agent_step_ok: "agent_step P ag ag' \<Longrightarrow> agent_ok ag \<Longrightarrow> agent_ok ag'"
proof (induction rule: agent_step.induct)
  case (Init ag ec ag')
  then show ?case using agent_init_ok[of ag P] by auto
next
  case (Start ag ec ag')
  then show ?case using agent_start_ok by blast
next
  case (Stop join ag ag')
  then show ?case using agent_stop_ok[of ag join P ag'] by blast
next
  case (Register ag sm ec ag')
  then show ?case using agent_register_ok[of ag P sm] by auto
next
  case (Report_handler ag h)
  then show ?case
    by (cases "ag_interface ag"; cases h) (simp_all add: E3Agent_set_dapp_report_handler_def agent_ok_def put_iface_def)
next
  case (Status_handler ag h)
  then show ?case
    by (cases "ag_interface ag"; cases h)
      (simp_all add: E3Agent_set_dapp_status_changed_handler_def agent_ok_def put_iface_def)
next
  case (Send t ch ag ec ag')
  then show ?case using agent_send_ok[of ag P t ch] by auto
next
  case (Thread ag i i')
  then show ?case using ok_inv.inv_step[OF Thread.hyps(2), of "if_state i"] by (simp add: agent_ok_def put_iface_def)
qed

lemma agent_steps_ok: "(agent_step P)\<^sup>*\<^sup>* ag ag' \<Longrightarrow> agent_ok ag \<Longrightarrow> agent_ok ag'"
  by (induction rule: rtranclp_induct) (use agent_step_ok in blast)+

section \<open>Properties\<close>

text \<open>
  C13: whatever sequence of API calls and thread rounds an agent goes through, it never dereferences a
  null pointer: every query of the subscription manager, every send and every registration of a
  service model returns, and the agent reports the state UNINITIALIZED exactly while it has no
  interface.
\<close>

theorem agent_calls_return:
  assumes "reg_wf registry" and "(agent_step P)\<^sup>*\<^sup>* (new_E3Agent config registry w) ag"
  shows "E3Agent_get_registered_dapps ag \<noteq> None \<and> E3Agent_get_dapp_subscriptions d ag \<noteq> None
    \<and> E3Agent_get_ran_function_subscribers r ag \<noteq> None
    \<and> E3Agent_dapp_count ag \<noteq> None \<and> E3Agent_subscription_count ag \<noteq> None
    \<and> send_indication P d r data ag \<noteq> None \<and> send_xapp_control P d r data ag \<noteq> None
    \<and> send_message_ack P req code ag \<noteq> None \<and> E3Agent_register_sm P ag sm \<noteq> None
    \<and> (E3Agent_state ag = UNINITIALIZED \<longleftrightarrow> ag_interface ag = None)"
proof -
  have "agent_ok (new_E3Agent config registry w)" using assms(1) by (simp add: agent_ok_def new_E3Agent_def)
  then have ok: "agent_ok ag" using agent_steps_ok assms(2) by blast
  have "query_manager f x ag \<noteq> None" for f :: "SubscriptionManager \<Rightarrow> u32 list" and x
    using ok by (auto simp: query_manager_def agent_ok_def iface_ok_def split: option.splits)
  moreover have "query_manager f x ag \<noteq> None" for f :: "SubscriptionManager \<Rightarrow> nat" and x
    using ok by (auto simp: query_manager_def agent_ok_def iface_ok_def split: option.splits)
  moreover have "send_pdu P t ch ag \<noteq> None" for t ch using agent_send_ok[OF ok, of P t ch] by auto
  moreover have "E3Agent_register_sm P ag sm \<noteq> None" using agent_register_ok[OF ok, of P sm] by auto
  moreover have "E3Agent_state ag = UNINITIALIZED \<longleftrightarrow> ag_interface ag = None"
    using ok by (auto simp: E3Agent_state_def E3Interface_state_def agent_ok_def split: option.splits)
  ultimately show ?thesis
    unfolding E3Agent_get_registered_dapps_def E3Agent_get_dapp_subscriptions_def E3Agent_dapp_count_def
      E3Agent_get_ran_function_subscribers_def E3Agent_subscription_count_def
      send_indication_def send_xapp_control_def send_message_ack_def by blast
qed

theorem agent_calls_return_witness:
  "\<exists>ag. E3Agent_init mem_platform (new_E3Agent (default_E3Config False True) new_SmRegistry (mem_init [])) = Some (SUCCESS, ag)
     \<and> E3Agent_get_registered_dapps ag \<noteq> None \<and> send_indication mem_platform 1 1 [2] ag \<noteq> None"
proof -
  let ?ag = "new_E3Agent (default_E3Config False True) new_SmRegistry (mem_init [])"
  obtain q where "new_ResponseQueue 256 128 0 = Some q" using rq_rep_new[of 128 256 0] by auto
  then obtain ag where ag: "E3Agent_init mem_platform ?ag = Some (SUCCESS, ag)"
    by (simp add: E3Agent_init_def new_E3Agent_def E3Interface_init_def new_E3Interface_def default_E3Config_def Let_def)
  then have "(agent_step mem_platform)\<^sup>*\<^sup>* ?ag ag" using agent_step.Init by blast
  from agent_calls_return[OF reg_wf_new this] ag show ?thesis by blast
qed

text \<open>
  A handler that the user clears stays in force on an initialised agent: setting the empty
  handler changes the agent's own copy only, and a report that arrives later is still delivered.
\<close>

lemma cleared_report_handler_still_called:
  assumes "ag_interface ag = Some i" and "if_dapp_report_handler i"
  shows "ag_interface (E3Agent_set_dapp_report_handler False ag) = Some i
    \<and> dispatch P i ((new_Pdu DAPP_REPORT now)\<lparr> pdu_choice := C_DAppReport report \<rparr>)
        = Some (i\<lparr> g_calls := g_calls i @ [Report_call report] \<rparr>)"
  using assms
  by (simp add: E3Agent_set_dapp_report_handler_def dispatch_def new_Pdu_def handle_dapp_report_def Let_def)

lemma cleared_report_handler_still_called_witness:
  "let i = mem_iface\<lparr> if_dapp_report_handler := True \<rparr>;
       ag = (new_E3Agent (default_E3Config False True) new_SmRegistry (mem_init []))\<lparr> ag_interface := Some i \<rparr>;
       report = \<lparr> rep_dapp_identifier = 1, rep_ran_function_identifier = 1, rep_report_data = [] \<rparr>
   in ag_interface (E3Agent_set_dapp_report_handler False ag) = Some i
     \<and> dispatch mem_platform i ((new_Pdu DAPP_REPORT 0)\<lparr> pdu_choice := C_DAppReport report \<rparr>)
        = Some (i\<lparr> g_calls := [Report_call report] \<rparr>)"
proof -
  let ?i = "mem_iface\<lparr> if_dapp_report_handler := True \<rparr>"
  let ?ag = "(new_E3Agent (default_E3Config False True) new_SmRegistry (mem_init []))\<lparr> ag_interface := Some ?i \<rparr>"
  let ?report = "\<lparr> rep_dapp_identifier = 1, rep_ran_function_identifier = 1, rep_report_data = [] \<rparr>"
  have "ag_interface ?ag = Some ?i" "if_dapp_report_handler ?i" "g_calls ?i = []"
    by (simp_all add: mem_iface_def new_E3Interface_def)
  with cleared_report_handler_still_called[OF this(1,2), of mem_platform ?report 0] show ?thesis
    by (simp add: Let_def)
qed

end
