(* ===== verification/C_Api.thy ===== *)
theory C_Api
  imports E3_Agent
begin

text \<open>
  \<^verbatim>\<open>src/c_api.cpp\<close> and \<^verbatim>\<open>include/libe3/c_api.h\<close>: the C interface. A service model written in C is an
  object of the class \<^verbatim>\<open>e3_service_model_handle_s\<close>, whose methods call the C callbacks; the callbacks
  act on the context the caller gave, here a value of any type. A handle is the address of such an
  object: \<open>c_heap\<close> holds the objects that belong to the caller, and the objects an agent owns are in
  the registry. An address that is in neither is that of a deleted object; a function that reads such
  an object has no result. Allocation is taken to succeed, except in the copies of arrays.
\<close>

section \<open>Service models in C\<close>

text \<open>A control callback may emit messages through its handle before it returns.\<close>

datatype 'ctx c_act =
    C_return int 'ctx
  | C_emit_indication u32 u32 "bytes option" "int \<Rightarrow> 'ctx c_act"
  | C_emit_message_ack u32 int "int \<Rightarrow> 'ctx c_act"

record 'ctx e3_c_service_model_desc =
  desc_name :: "string option"
  desc_version :: u32
  desc_ran_function_id :: u32
  desc_telemetry_ids :: "u32 list option"
  desc_control_ids :: "u32 list option"
  desc_ran_function_data :: "bytes option"
  desc_sm_init :: "('ctx \<Rightarrow> int \<times> 'ctx) option"
  desc_sm_destroy :: "('ctx \<Rightarrow> 'ctx) option"
  desc_sm_start :: "('ctx \<Rightarrow> int \<times> 'ctx) option"
  desc_sm_stop :: "('ctx \<Rightarrow> 'ctx) option"
  desc_sm_is_running :: "('ctx \<Rightarrow> int) option"
  desc_sm_process_control :: "(u32 \<Rightarrow> u32 \<Rightarrow> u32 \<Rightarrow> u32 \<Rightarrow> bytes option \<Rightarrow> 'ctx \<Rightarrow> 'ctx c_act) option"
  desc_sm_context :: 'ctx

text \<open>The object; \<open>sm_this\<close> is its address.\<close>

record 'ctx e3_service_model_handle =
  sm_this :: nat
  name_s :: string
  version_s :: u32
  ran_function_id_s :: u32
  telemetry_ids_s :: "u32 list"
  control_ids_s :: "u32 list"
  ran_function_data_s :: bytes
  sm_init :: "('ctx \<Rightarrow> int \<times> 'ctx) option"
  sm_destroy :: "('ctx \<Rightarrow> 'ctx) option"
  sm_start :: "('ctx \<Rightarrow> int \<times> 'ctx) option"
  sm_stop :: "('ctx \<Rightarrow> 'ctx) option"
  sm_is_running :: "('ctx \<Rightarrow> int) option"
  sm_process_control :: "(u32 \<Rightarrow> u32 \<Rightarrow> u32 \<Rightarrow> u32 \<Rightarrow> bytes option \<Rightarrow> 'ctx \<Rightarrow> 'ctx c_act) option"
  sm_context :: 'ctx
  transferred_to_agent :: bool

text \<open>A null pointer, or a pointer with length 0, leaves the member empty.\<close>

definition assign_from :: "'a list option \<Rightarrow> 'a list" where
  "assign_from p = (case p of Some xs \<Rightarrow> xs | None \<Rightarrow> [])"

definition new_e3_service_model_handle :: "nat \<Rightarrow> 'ctx e3_c_service_model_desc \<Rightarrow> 'ctx e3_service_model_handle" where
  "new_e3_service_model_handle this desc =
     \<lparr> sm_this = this, name_s = assign_from (desc_name desc), version_s = desc_version desc,
       ran_function_id_s = desc_ran_function_id desc,
       telemetry_ids_s = assign_from (desc_telemetry_ids desc),
       control_ids_s = assign_from (desc_control_ids desc),
       ran_function_data_s = assign_from (desc_ran_function_data desc),
       sm_init = desc_sm_init desc, sm_destroy = desc_sm_destroy desc, sm_start = desc_sm_start desc,
       sm_stop = desc_sm_stop desc, sm_is_running = desc_sm_is_running desc,
       sm_process_control = desc_sm_process_control desc, sm_context = desc_sm_context desc,
       transferred_to_agent = False \<rparr>"

definition call_code :: "('ctx \<Rightarrow> int \<times> 'ctx) option \<Rightarrow> 'ctx e3_service_model_handle
    \<Rightarrow> ErrorCode \<times> 'ctx e3_service_model_handle" where
  "call_code cb h =
     (case cb of
        None \<Rightarrow> (SUCCESS, h)
      | Some f \<Rightarrow> let (n, c) = f (sm_context h) in (error_code_of_int n, h\<lparr> sm_context := c \<rparr>))"

definition call_void :: "('ctx \<Rightarrow> 'ctx) option \<Rightarrow> 'ctx e3_service_model_handle \<Rightarrow> 'ctx e3_service_model_handle" where
  "call_void cb h = (case cb of None \<Rightarrow> h | Some f \<Rightarrow> h\<lparr> sm_context := f (sm_context h) \<rparr>)"

text \<open>The PDUs of the two emit functions; their message id is still 0.\<close>

definition c_indication_pdu :: "u64 \<Rightarrow> u32 \<Rightarrow> u32 \<Rightarrow> bytes option \<Rightarrow> Pdu" where
  "c_indication_pdu now dapp_id ran_function_id data =
     (new_Pdu INDICATION_MESSAGE now)\<lparr> pdu_choice := C_IndicationMessage
        \<lparr> ind_dapp_identifier = dapp_id, ind_ran_function_identifier = ran_function_id,
          ind_protocol_data = assign_from data \<rparr> \<rparr>"

definition response_code_of_c :: "int \<Rightarrow> ResponseCode" where
  "response_code_of_c n = (if n = 0 then POSITIVE else NEGATIVE)"

definition c_message_ack_pdu :: "u64 \<Rightarrow> u32 \<Rightarrow> int \<Rightarrow> Pdu" where
  "c_message_ack_pdu now request_id response_code =
     (new_Pdu MESSAGE_ACK now)\<lparr> pdu_choice := C_MessageAck
        \<lparr> ack_request_id = request_id, ack_response_code = response_code_of_c response_code \<rparr> \<rparr>"

text \<open>What a control callback does, as the calls of the base class it makes.\<close>

primrec lower_c_act :: "u64 \<Rightarrow> 'ctx e3_service_model_handle \<Rightarrow> 'ctx c_act \<Rightarrow> 'ctx e3_service_model_handle sm_act" where
  "lower_c_act now h (C_return n c) = Act_return (error_code_of_int n) (h\<lparr> sm_context := c \<rparr>)"
| "lower_c_act now h (C_emit_indication d r bs k) =
     Act_emit (c_indication_pdu now d r bs) (\<lambda>ec. lower_c_act now h (k (error_code_to_int ec)))"
| "lower_c_act now h (C_emit_message_ack m n k) =
     Act_emit (c_message_ack_pdu now m n) (\<lambda>ec. lower_c_act now h (k (error_code_to_int ec)))"

definition c_handle_control_action :: "u64 \<Rightarrow> u32 \<Rightarrow> DAppControlAction \<Rightarrow> 'ctx e3_service_model_handle
    \<Rightarrow> 'ctx e3_service_model_handle sm_act" where
  "c_handle_control_action now request_message_id action h =
     (case sm_process_control h of
        None \<Rightarrow> Act_return NOT_FOUND h
      | Some f \<Rightarrow> lower_c_act now h
          (f request_message_id (dca_dapp_identifier action) (dca_ran_function_identifier action)
             (dca_control_identifier action)
             (if dca_action_data action = [] then None else Some (dca_action_data action)) (sm_context h)))"

definition c_service_model :: "u64 \<Rightarrow> 'ctx e3_service_model_handle service_model" where
  "c_service_model now =
     \<lparr> vt_name = name_s, vt_version = version_s, vt_ran_function_id = ran_function_id_s,
       vt_telemetry_ids = telemetry_ids_s, vt_control_ids = control_ids_s,
       vt_ran_function_data = ran_function_data_s,
       vt_init = (\<lambda>h. call_code (sm_init h) h), vt_destroy = (\<lambda>h. call_void (sm_destroy h) h),
       vt_start = (\<lambda>h. call_code (sm_start h) h), vt_stop = (\<lambda>h. call_void (sm_stop h) h),
       vt_is_running = (\<lambda>h. case sm_is_running h of None \<Rightarrow> False | Some f \<Rightarrow> f (sm_context h) \<noteq> 0),
       vt_handle_control_action = c_handle_control_action now \<rparr>"

section \<open>Handles\<close>

text \<open>\<^verbatim>\<open>e3_agent_handle_t*\<close>: null, or a handle whose agent pointer may be null.\<close>

type_synonym ('ctx, 'w) c_agent = "('ctx e3_service_model_handle, 'w) E3Agent option option"

type_synonym 'ctx c_heap = "(nat \<times> 'ctx e3_service_model_handle) list"

definition agent_registry :: "('sm, 'w) E3Agent \<Rightarrow> 'sm SmRegistry" where
  "agent_registry ag = (case ag_interface ag of None \<Rightarrow> ag_registry ag | Some i \<Rightarrow> g_registry i)"

definition registered_object :: "('ctx, 'w) c_agent \<Rightarrow> nat \<Rightarrow> 'ctx e3_service_model_handle sm_object option" where
  "registered_object agent p =
     (case agent of
        Some (Some ag) \<Rightarrow> find (\<lambda>ob. sm_this (smo_state ob) = p) (map snd (reg_sms (agent_registry ag)))
      | _ \<Rightarrow> None)"

definition fresh_address :: "'ctx c_heap \<Rightarrow> ('ctx, 'w) c_agent \<Rightarrow> nat" where
  "fresh_address heap agent =
     Suc (sum_list (map fst heap) +
       (case agent of
          Some (Some ag) \<Rightarrow> sum_list (map (\<lambda>(i, ob). sm_this (smo_state ob)) (reg_sms (agent_registry ag)))
        | _ \<Rightarrow> 0))"

definition e3_service_model_create_from_c :: "'ctx e3_c_service_model_desc option \<Rightarrow> ('ctx, 'w) c_agent \<Rightarrow> 'ctx c_heap
    \<Rightarrow> nat option \<times> 'ctx c_heap" where
  "e3_service_model_create_from_c desc agent heap =
     (case desc of
        None \<Rightarrow> (None, heap)
      | Some d \<Rightarrow> let p = fresh_address heap agent in (Some p, (p, new_e3_service_model_handle p d) # heap))"

definition e3_service_model_destroy :: "nat option \<Rightarrow> ('ctx, 'w) c_agent \<Rightarrow> 'ctx c_heap \<Rightarrow> 'ctx c_heap option" where
  "e3_service_model_destroy sm agent heap =
     (case sm of
        None \<Rightarrow> Some heap
      | Some p \<Rightarrow>
          (case map_of heap p of
             Some h \<Rightarrow> if transferred_to_agent h then Some heap else Some (AList.delete p heap)
           | None \<Rightarrow>
               do { ob \<leftarrow> registered_object agent p;
                    if transferred_to_agent (smo_state ob) then Some heap else None }))"

text \<open>An emit function: on an object of the caller no emitter is set.\<close>

definition c_emit :: "('ctx e3_service_model_handle, 'w) platform \<Rightarrow> nat option \<Rightarrow> (u64 \<Rightarrow> Pdu) \<Rightarrow> 'ctx c_heap
    \<Rightarrow> ('ctx, 'w) c_agent \<Rightarrow> (int \<times> ('ctx, 'w) c_agent) option" where
  "c_emit P sm pdu heap agent =
     (case sm of
        None \<Rightarrow> Some (error_code_to_int INVALID_PARAM, agent)
      | Some p \<Rightarrow>
          (case map_of heap p of
             Some h \<Rightarrow> Some (error_code_to_int NOT_INITIALIZED, agent)
           | None \<Rightarrow>
               do { ob \<leftarrow> registered_object agent p;
                    h \<leftarrow> agent;
                    ag \<leftarrow> h;
                    i \<leftarrow> ag_interface ag;
                    (ec, i) \<leftarrow> emit_outbound (outbound_emitter P) ob i (pdu (now_of P i));
                    Some (error_code_to_int ec, Some (Some (put_iface i ag))) }))"

definition e3_service_model_emit_indication :: "('ctx e3_service_model_handle, 'w) platform \<Rightarrow> nat option \<Rightarrow> u32 \<Rightarrow> u32
    \<Rightarrow> bytes option \<Rightarrow> 'ctx c_heap \<Rightarrow> ('ctx, 'w) c_agent \<Rightarrow> (int \<times> ('ctx, 'w) c_agent) option" where
  "e3_service_model_emit_indication P sm dapp_id ran_function_id data =
     c_emit P sm (\<lambda>now. c_indication_pdu now dapp_id ran_function_id data)"

definition e3_service_model_emit_message_ack :: "('ctx e3_service_model_handle, 'w) platform \<Rightarrow> nat option \<Rightarrow> u32 \<Rightarrow> int
    \<Rightarrow> 'ctx c_heap \<Rightarrow> ('ctx, 'w) c_agent \<Rightarrow> (int \<times> ('ctx, 'w) c_agent) option" where
  "e3_service_model_emit_message_ack P sm request_id response_code =
     c_emit P sm (\<lambda>now. c_message_ack_pdu now request_id response_code)"

section \<open>Agents\<close>

record e3_config =
  ec_ran_identifier :: "string option"
  ec_link_layer :: int
  ec_transport_layer :: int
  ec_setup_port :: u16
  ec_subscriber_port :: u16
  ec_publisher_port :: u16
  ec_setup_endpoint :: "string option"
  ec_subscriber_endpoint :: "string option"
  ec_publisher_endpoint :: "string option"
  ec_encoding :: int
  ec_io_threads :: size_t
  ec_log_level :: int

definition or_default :: "'a option \<Rightarrow> 'a \<Rightarrow> 'a" where
  "or_default x d = (case x of Some v \<Rightarrow> v | None \<Rightarrow> d)"

text \<open>\<^verbatim>\<open>static_cast\<close> to an enumeration, on its values.\<close>

definition link_layer_of_int :: "int \<Rightarrow> E3LinkLayer" where
  "link_layer_of_int n = (if n = 0 then ZMQ else POSIX)"

definition transport_layer_of_int :: "int \<Rightarrow> E3TransportLayer" where
  "transport_layer_of_int n = (if n = 0 then SCTP else if n = 1 then TCP else IPC)"

definition encoding_of_int :: "int \<Rightarrow> EncodingFormat" where
  "encoding_of_int n = (if n = 0 then ASN1 else JSON)"

definition apply_c_config :: "e3_config option \<Rightarrow> E3Config \<Rightarrow> E3Config" where
  "apply_c_config config cfg =
     (case config of
        None \<Rightarrow> cfg
      | Some c \<Rightarrow>
          cfg\<lparr> cfg_ran_identifier := or_default (ec_ran_identifier c) (cfg_ran_identifier cfg),
               cfg_link_layer := (if 0 \<le> ec_link_layer c \<and> ec_link_layer c \<le> 1
                 then link_layer_of_int (ec_link_layer c) else cfg_link_layer cfg),
               cfg_transport_layer := (if 0 \<le> ec_transport_layer c \<and> ec_transport_layer c \<le> 2
                 then transport_layer_of_int (ec_transport_layer c) else cfg_transport_layer cfg),
               cfg_setup_port := (if ec_setup_port c \<noteq> 0 then ec_setup_port c else cfg_setup_port cfg),
               cfg_subscriber_port := (if ec_subscriber_port c \<noteq> 0 then ec_subscriber_port c else cfg_subscriber_port cfg),
               cfg_publisher_port := (if ec_publisher_port c \<noteq> 0 then ec_publisher_port c else cfg_publisher_port cfg),
               cfg_setup_endpoint := or_default (ec_setup_endpoint c) (cfg_setup_endpoint cfg),
               cfg_subscriber_endpoint := or_default (ec_subscriber_endpoint c) (cfg_subscriber_endpoint cfg),
               cfg_publisher_endpoint := or_default (ec_publisher_endpoint c) (cfg_publisher_endpoint cfg),
               cfg_encoding := (if 0 \<le> ec_encoding c \<and> ec_encoding c \<le> 1
                 then encoding_of_int (ec_encoding c) else cfg_encoding cfg),
               cfg_io_threads := (if ec_io_threads c \<noteq> 0 then ec_io_threads c else cfg_io_threads cfg),
               cfg_log_level := (if 0 \<le> ec_log_level c then ec_log_level c else cfg_log_level cfg) \<rparr>)"

definition e3_agent_create_with_config :: "bool \<Rightarrow> bool \<Rightarrow> e3_config option \<Rightarrow> 'ctx e3_service_model_handle SmRegistry
    \<Rightarrow> 'w \<Rightarrow> ('ctx, 'w) c_agent" where
  "e3_agent_create_with_config enable_asn1 enable_json config registry w =
     Some (Some (new_E3Agent (apply_c_config config (default_E3Config enable_asn1 enable_json)) registry w))"

definition e3_agent_create_default :: "bool \<Rightarrow> bool \<Rightarrow> 'ctx e3_service_model_handle SmRegistry
    \<Rightarrow> 'w \<Rightarrow> ('ctx, 'w) c_agent" where
  "e3_agent_create_default enable_asn1 enable_json = e3_agent_create_with_config enable_asn1 enable_json None"

text \<open>\<^verbatim>\<open>if (!agent || !agent->agent) return bad\<close>, then a method of the agent.\<close>

definition on_agent :: "ErrorCode \<Rightarrow> (('ctx e3_service_model_handle, 'w) E3Agent
      \<Rightarrow> (ErrorCode \<times> ('ctx e3_service_model_handle, 'w) E3Agent) option)
    \<Rightarrow> ('ctx, 'w) c_agent \<Rightarrow> (int \<times> ('ctx, 'w) c_agent) option" where
  "on_agent bad f agent =
     (case agent of
        Some (Some ag) \<Rightarrow> map_option (\<lambda>(ec, ag). (error_code_to_int ec, Some (Some ag))) (f ag)
      | _ \<Rightarrow> Some (error_code_to_int bad, agent))"

definition read_agent :: "'r \<Rightarrow> (('ctx e3_service_model_handle, 'w) E3Agent \<Rightarrow> 'r) \<Rightarrow> ('ctx, 'w) c_agent \<Rightarrow> 'r" where
  "read_agent bad f agent = (case agent of Some (Some ag) \<Rightarrow> f ag | _ \<Rightarrow> bad)"

definition e3_agent_init :: "('ctx e3_service_model_handle, 'w) platform \<Rightarrow> ('ctx, 'w) c_agent
    \<Rightarrow> (int \<times> ('ctx, 'w) c_agent) option" where
  "e3_agent_init P = on_agent STATE_ERROR (E3Agent_init P)"

definition e3_agent_start :: "('ctx e3_service_model_handle, 'w) platform \<Rightarrow> ('ctx, 'w) c_agent
    \<Rightarrow> (int \<times> ('ctx, 'w) c_agent) option" where
  "e3_agent_start P = on_agent STATE_ERROR (E3Agent_start P)"

definition e3_agent_stop :: "('ctx e3_service_model_handle, 'w) platform
    \<Rightarrow> (('ctx e3_service_model_handle, 'w) E3Interface \<Rightarrow> ('ctx e3_service_model_handle, 'w) E3Interface option)
    \<Rightarrow> ('ctx, 'w) c_agent \<Rightarrow> ('ctx, 'w) c_agent option" where
  "e3_agent_stop P join agent =
     (case agent of
        Some (Some ag) \<Rightarrow> map_option (\<lambda>ag. Some (Some ag)) (E3Agent_stop P join ag)
      | _ \<Rightarrow> Some agent)"

definition e3_agent_destroy :: "('ctx e3_service_model_handle, 'w) platform
    \<Rightarrow> (('ctx e3_service_model_handle, 'w) E3Interface \<Rightarrow> ('ctx e3_service_model_handle, 'w) E3Interface option)
    \<Rightarrow> ('ctx, 'w) c_agent \<Rightarrow> ('ctx e3_service_model_handle SmRegistry \<times> 'w) option option" where
  "e3_agent_destroy P join agent =
     (case agent of
        Some (Some ag) \<Rightarrow> map_option Some (E3Agent_destroy P join ag)
      | _ \<Rightarrow> Some None)"

text \<open>
  The registration. The handle's object goes into a \<^verbatim>\<open>unique_ptr\<close> in any case: on success the registry
  holds it, otherwise it is deleted when the call returns. There is no result for a handle whose
  object the caller does not own, which would then be owned twice.
\<close>

definition e3_agent_register_sm :: "('ctx e3_service_model_handle, 'w) platform \<Rightarrow> ('ctx, 'w) c_agent \<Rightarrow> nat option
    \<Rightarrow> 'ctx c_heap \<Rightarrow> (int \<times> ('ctx, 'w) c_agent \<times> 'ctx c_heap) option" where
  "e3_agent_register_sm P agent sm heap =
     (case (agent, sm) of
        (Some (Some ag), Some p) \<Rightarrow>
          do { h \<leftarrow> map_of heap p;
               (ec, ag) \<leftarrow> E3Agent_register_sm P ag (Some (new_sm_object (h\<lparr> transferred_to_agent := True \<rparr>)));
               Some (error_code_to_int ec, Some (Some ag), AList.delete p heap) }
      | _ \<Rightarrow> Some (error_code_to_int INVALID_PARAM, agent, heap))"

fun agent_state_to_int :: "AgentState \<Rightarrow> int" where
  "agent_state_to_int UNINITIALIZED = 0"
| "agent_state_to_int INITIALIZED = 1"
| "agent_state_to_int CONNECTING = 2"
| "agent_state_to_int CONNECTED = 3"
| "agent_state_to_int RUNNING = 4"
| "agent_state_to_int STOPPING = 5"
| "agent_state_to_int STOPPED = 6"
| "agent_state_to_int ERROR = 7"

definition e3_agent_get_state :: "('ctx, 'w) c_agent \<Rightarrow> int" where
  "e3_agent_get_state = read_agent (agent_state_to_int ERROR) (\<lambda>ag. agent_state_to_int (E3Agent_state ag))"

definition e3_agent_is_running :: "('ctx, 'w) c_agent \<Rightarrow> int" where
  "e3_agent_is_running = read_agent 0 (\<lambda>ag. if E3Agent_is_running ag then 1 else 0)"

text \<open>The handler argument is True for a function and False for a null pointer.\<close>

definition e3_agent_set_dapp_report_handler :: "bool \<Rightarrow> ('ctx, 'w) c_agent \<Rightarrow> (int \<times> ('ctx, 'w) c_agent) option" where
  "e3_agent_set_dapp_report_handler handler =
     on_agent INVALID_PARAM (\<lambda>ag. Some (SUCCESS, E3Agent_set_dapp_report_handler handler ag))"

definition e3_agent_set_dapp_status_changed_handler :: "bool \<Rightarrow> ('ctx, 'w) c_agent
    \<Rightarrow> (int \<times> ('ctx, 'w) c_agent) option" where
  "e3_agent_set_dapp_status_changed_handler handler =
     on_agent INVALID_PARAM (\<lambda>ag. Some (SUCCESS, E3Agent_set_dapp_status_changed_handler handler ag))"

text \<open>A copied array and the length that is stored through \<^verbatim>\<open>out_len\<close>; \<open>malloc\<close> tells whether it succeeds.\<close>

definition copy_vector_u32_to_c :: "(nat \<Rightarrow> bool) \<Rightarrow> u32 list \<Rightarrow> u32 list option \<times> nat" where
  "copy_vector_u32_to_c malloc v =
     (if v = [] then None else if \<not> malloc (4 * length v) then None else Some v, length v)"

definition copy_query :: "(nat \<Rightarrow> bool) \<Rightarrow> (('ctx e3_service_model_handle, 'w) E3Agent \<Rightarrow> u32 list option)
    \<Rightarrow> ('ctx, 'w) c_agent \<Rightarrow> (u32 list option \<times> nat) option" where
  "copy_query malloc f = read_agent (Some (None, 0)) (\<lambda>ag. map_option (copy_vector_u32_to_c malloc) (f ag))"

definition e3_agent_get_available_ran_functions :: "(nat \<Rightarrow> bool) \<Rightarrow> ('ctx, 'w) c_agent \<Rightarrow> (u32 list option \<times> nat) option" where
  "e3_agent_get_available_ran_functions malloc = copy_query malloc (\<lambda>ag. Some (E3Agent_get_available_ran_functions ag))"

definition e3_agent_get_registered_dapps :: "(nat \<Rightarrow> bool) \<Rightarrow> ('ctx, 'w) c_agent \<Rightarrow> (u32 list option \<times> nat) option" where
  "e3_agent_get_registered_dapps malloc = copy_query malloc E3Agent_get_registered_dapps"

definition e3_agent_get_dapp_subscriptions :: "(nat \<Rightarrow> bool) \<Rightarrow> u32 \<Rightarrow> ('ctx, 'w) c_agent
    \<Rightarrow> (u32 list option \<times> nat) option" where
  "e3_agent_get_dapp_subscriptions malloc dapp_id = copy_query malloc (E3Agent_get_dapp_subscriptions dapp_id)"

definition e3_agent_get_ran_function_subscribers :: "(nat \<Rightarrow> bool) \<Rightarrow> u32 \<Rightarrow> ('ctx, 'w) c_agent
    \<Rightarrow> (u32 list option \<times> nat) option" where
  "e3_agent_get_ran_function_subscribers malloc ran_function_id =
     copy_query malloc (E3Agent_get_ran_function_subscribers ran_function_id)"

definition e3_agent_send_indication :: "('ctx e3_service_model_handle, 'w) platform \<Rightarrow> u32 \<Rightarrow> u32 \<Rightarrow> bytes option
    \<Rightarrow> ('ctx, 'w) c_agent \<Rightarrow> (int \<times> ('ctx, 'w) c_agent) option" where
  "e3_agent_send_indication P dapp_id ran_function_id data =
     on_agent INVALID_PARAM (send_indication P dapp_id ran_function_id (assign_from data))"

definition e3_agent_send_xapp_control :: "('ctx e3_service_model_handle, 'w) platform \<Rightarrow> u32 \<Rightarrow> u32 \<Rightarrow> bytes option
    \<Rightarrow> ('ctx, 'w) c_agent \<Rightarrow> (int \<times> ('ctx, 'w) c_agent) option" where
  "e3_agent_send_xapp_control P dapp_id ran_function_id control_data =
     on_agent INVALID_PARAM (send_xapp_control P dapp_id ran_function_id (assign_from control_data))"

definition e3_agent_send_message_ack :: "('ctx e3_service_model_handle, 'w) platform \<Rightarrow> u32 \<Rightarrow> int
    \<Rightarrow> ('ctx, 'w) c_agent \<Rightarrow> (int \<times> ('ctx, 'w) c_agent) option" where
  "e3_agent_send_message_ack P request_id response_code =
     on_agent INVALID_PARAM (send_message_ack P request_id (response_code_of_c response_code))"

definition e3_agent_dapp_count :: "('ctx, 'w) c_agent \<Rightarrow> nat option" where
  "e3_agent_dapp_count = read_agent (Some 0) E3Agent_dapp_count"

definition e3_agent_subscription_count :: "('ctx, 'w) c_agent \<Rightarrow> nat option" where
  "e3_agent_subscription_count = read_agent (Some 0) E3Agent_subscription_count"

definition e3_error_to_string :: "int \<Rightarrow> string" where
  "e3_error_to_string code = ErrorCodeToString (error_code_of_int code)"

section \<open>Ownership of a handle\<close>

lemma set_alist_update: "set (AList.update k v xs) \<subseteq> insert (k, v) (set xs)"
  by (induction xs) auto

lemma in_alist_update: "(k, v) \<in> set (AList.update k v xs)"
  by (induction xs) auto

lemma find_cases:
  assumes "\<And>y. y \<in> set xs \<Longrightarrow> Q y \<Longrightarrow> R y" and "x \<in> set xs" and "Q x"
  shows "\<exists>y. find Q xs = Some y \<and> R y"
  using assms by (induction xs) auto

lemma error_code_zero: "error_code_to_int (error_code_of_int n) = 0 \<Longrightarrow> error_code_of_int n = SUCCESS"
  by (auto simp: error_code_of_int_def LIBE3_ERROR_CODE_LIST_def split: if_splits)

lemma ensure_init_registry:
  "ensure_init P ag = Some (ec, ag1) \<Longrightarrow> agent_registry ag1 = agent_registry ag"
  using init_returns[of P "new_E3Interface (ag_config ag) (ag_registry ag) (ag_world ag) (ag_calls ag)"]
  by (auto simp: ensure_init_def E3Agent_init_def agent_registry_def put_iface_def reset_iface_def Let_def
      new_E3Interface_def set_dapp_report_handler_def set_dapp_status_changed_handler_def split: if_splits)

lemma ensure_init_code:
  assumes "ensure_init P ag = Some (ec, ag1)" and "ec \<noteq> SUCCESS"
  shows "error_code_to_int ec \<noteq> 0"
proof -
  obtain i' where "E3Interface_init P (new_E3Interface (ag_config ag) (ag_registry ag) (ag_world ag) (ag_calls ag))
      = Some (ec, i')"
    using assms by (auto simp: ensure_init_def E3Agent_init_def Let_def split: if_splits bind_splits)
  then have "ec = ALREADY_INITIALIZED \<or> ec = INTERNAL_ERROR"
    using assms(2) by (auto simp: E3Interface_init_def Let_def split: if_splits bind_splits)
  then show ?thesis by auto
qed

lemma agent_register_cases:
  assumes "E3Agent_register_sm P ag (Some ob) = Some (ec, ag')"
  shows "agent_registry ag' = agent_registry ag \<and> error_code_to_int ec \<noteq> 0
    \<or> (ec, agent_registry ag') = SmRegistry_register_sm (pl_sm P) (agent_registry ag)
        (Some (ob\<lparr> smo_provider := True, smo_emitter := True \<rparr>))"
proof -
  obtain ec1 ag1 where e: "ensure_init P ag = Some (ec1, ag1)"
    using assms by (auto simp: E3Agent_register_sm_def split: bind_splits)
  show ?thesis
  proof (cases "ec1 = SUCCESS")
    case False
    then show ?thesis using assms e ensure_init_registry[OF e] ensure_init_code[OF e]
      by (simp add: E3Agent_register_sm_def)
  next
    case True
    then obtain i where i: "ag_interface ag1 = Some i"
      using assms e by (auto simp: E3Agent_register_sm_def split: bind_splits)
    obtain ec2 r2 where r2: "SmRegistry_register_sm (pl_sm P) (g_registry i)
        (Some (ob\<lparr> smo_provider := True, smo_emitter := True \<rparr>)) = (ec2, r2)" by fastforce
    have "g_registry i = agent_registry ag" using ensure_init_registry[OF e] i by (simp add: agent_registry_def)
    then show ?thesis
      using assms e True i r2
      by (simp add: E3Agent_register_sm_def E3Interface_register_sm_def agent_registry_def put_iface_def)
        (auto simp: agent_registry_def)
  qed
qed

lemma c_register_outcome:
  assumes "(ec, r') = SmRegistry_register_sm (c_service_model now) r (Some ob)"
  shows "(if error_code_to_int ec = 0
     then \<exists>h. sm_this h = sm_this (smo_state ob) \<and> transferred_to_agent h = transferred_to_agent (smo_state ob)
       \<and> reg_sms r' = AList.update (ran_function_id_s (smo_state ob)) (ob\<lparr> smo_state := h \<rparr>) (reg_sms r)
     else r' = r)"
proof -
  obtain ir h where i: "call_code (sm_init (smo_state ob)) (smo_state ob) = (ir, h)" by fastforce
  have h: "sm_this h = sm_this (smo_state ob)" "transferred_to_agent h = transferred_to_agent (smo_state ob)"
    using i by (auto simp: call_code_def split: option.splits prod.splits)
  have "error_code_to_int ir = 0 \<longleftrightarrow> ir = SUCCESS"
    using i error_code_zero by (auto simp: call_code_def split: option.splits prod.splits)
  then show ?thesis using assms i h
    by (auto simp: SmRegistry_register_sm_def c_service_model_def Let_def split: if_splits)
qed

section \<open>Properties\<close>

text \<open>
  C20: after the registration of a handle that the caller owns, \<^verbatim>\<open>e3_service_model_destroy\<close> on it does
  nothing when the registration succeeded; when a registration with an existing agent failed, for
  whatever reason, the object has been deleted and the call reads freed memory.
\<close>

theorem register_sm_ownership:
  assumes "pl_sm P = c_service_model now" and "map_of heap p = Some h" and "sm_this h = p"
    and "registered_object (Some (Some ag)) p = None"
    and "e3_agent_register_sm P (Some (Some ag)) (Some p) heap = Some (n, agent', heap')"
  shows "e3_service_model_destroy (Some p) agent' heap' = (if n = 0 then Some heap' else None)"
proof -
  let ?h = "h\<lparr> transferred_to_agent := True \<rparr>" and ?V = "c_service_model now"
  obtain ec ag' where r: "E3Agent_register_sm P ag (Some (new_sm_object ?h)) = Some (ec, ag')"
    "n = error_code_to_int ec" "agent' = Some (Some ag')" "heap' = AList.delete p heap"
    using assms(2,5) by (auto simp: e3_agent_register_sm_def split: bind_splits)
  have heap: "map_of heap' p = None" using r(4) by (simp add: delete_conv')
  let ?old = "map snd (reg_sms (agent_registry ag))"
  have old: "sm_this (smo_state ob) \<noteq> p" if "ob \<in> set ?old" for ob
    using assms(4) that by (auto simp: registered_object_def find_None_iff)
  from agent_register_cases[OF r(1)] consider
      (kept) "agent_registry ag' = agent_registry ag" "n \<noteq> 0"
    | (reg) g where "sm_this g = p" "transferred_to_agent g" "n = 0"
        "reg_sms (agent_registry ag') = AList.update (ran_function_id_s h)
           ((new_sm_object ?h)\<lparr> smo_provider := True, smo_emitter := True, smo_state := g \<rparr>) (reg_sms (agent_registry ag))"
    using c_register_outcome[of ec "agent_registry ag'" now "agent_registry ag"
        "(new_sm_object ?h)\<lparr> smo_provider := True, smo_emitter := True \<rparr>"] assms(1,3) r(2)
    by (auto simp: new_sm_object_def split: if_splits)
  then show ?thesis
  proof cases
    case kept
    then have "registered_object agent' p = None" using assms(4) r(3) by (simp add: registered_object_def)
    then show ?thesis using heap kept(2) by (simp add: e3_service_model_destroy_def)
  next
    case reg
    let ?ob = "(new_sm_object ?h)\<lparr> smo_provider := True, smo_emitter := True, smo_state := g \<rparr>"
    let ?new = "map snd (reg_sms (agent_registry ag'))"
    have "ob = ?ob \<or> ob \<in> set ?old" if "ob \<in> set ?new" for ob
      using that set_alist_update reg(4) by fastforce
    then have "transferred_to_agent (smo_state ob)" if "ob \<in> set ?new" "sm_this (smo_state ob) = p" for ob
      using that old reg(2) by fastforce
    moreover have "?ob \<in> set ?new" using in_alist_update reg(4) by force
    ultimately obtain ob where "find (\<lambda>ob. sm_this (smo_state ob) = p) ?new = Some ob" "transferred_to_agent (smo_state ob)"
      using find_cases[of ?new "\<lambda>ob. sm_this (smo_state ob) = p" "\<lambda>ob. transferred_to_agent (smo_state ob)" ?ob] reg(1)
      by auto
    then show ?thesis using heap reg(3) r(3) by (simp add: e3_service_model_destroy_def registered_object_def)
  qed
qed

text \<open>A platform without encoders: the registration fails in the initialisation of the agent.\<close>

definition bare_platform :: "(unit e3_service_model_handle, unit) platform" where
  "bare_platform =
     \<lparr> pl_posix = no_posix,
       pl_zmq = no_zmq, pl_shutdown_seen = (\<lambda>w. True), pl_encoder = (\<lambda>f. None), pl_sm = c_service_model 0,
       pl_now = (\<lambda>w. 0), pl_steady = (\<lambda>w. 0), pl_random = (\<lambda>w. (0, w)), pl_set_affinity = (\<lambda>n w. w),
       pl_set_niceness = (\<lambda>n w. w), pl_ignore_sigpipe = (\<lambda>w. w), pl_slot_size = 256 \<rparr>"

theorem register_sm_ownership_witness:
  "\<exists>agent heap p agent' heap'. e3_service_model_create_from_c
       (Some \<lparr> desc_name = Some ''sm'', desc_version = 1, desc_ran_function_id = 7, desc_telemetry_ids = None,
               desc_control_ids = None, desc_ran_function_data = None, desc_sm_init = None, desc_sm_destroy = None,
               desc_sm_start = None, desc_sm_stop = None, desc_sm_is_running = None, desc_sm_process_control = None,
               desc_sm_context = () \<rparr>) agent [] = (Some p, heap)
     \<and> e3_agent_register_sm bare_platform agent (Some p) heap = Some (error_code_to_int INTERNAL_ERROR, agent', heap')
     \<and> e3_service_model_destroy (Some p) agent' heap' = None"
proof -
  let ?d = "\<lparr> desc_name = Some ''sm'', desc_version = 1, desc_ran_function_id = 7, desc_telemetry_ids = None,
    desc_control_ids = None, desc_ran_function_data = None, desc_sm_init = None, desc_sm_destroy = None,
    desc_sm_start = None, desc_sm_stop = None, desc_sm_is_running = None, desc_sm_process_control = None,
    desc_sm_context = () \<rparr>"
  let ?ag = "new_E3Agent (default_E3Config False False) new_SmRegistry ()"
  let ?heap = "[(1, new_e3_service_model_handle 1 ?d)]"
  have c: "e3_service_model_create_from_c (Some ?d) (Some (Some ?ag)) [] = (Some 1, ?heap)"
    by (simp add: e3_service_model_create_from_c_def fresh_address_def agent_registry_def new_E3Agent_def new_SmRegistry_def)
  have f: "registered_object (Some (Some ?ag)) 1 = None"
    by (simp add: registered_object_def agent_registry_def new_E3Agent_def new_SmRegistry_def)
  obtain agent' heap' where r: "e3_agent_register_sm bare_platform (Some (Some ?ag)) (Some 1) ?heap
      = Some (error_code_to_int INTERNAL_ERROR, agent', heap')"
    by (simp add: e3_agent_register_sm_def E3Agent_register_sm_def ensure_init_def E3Agent_init_def new_E3Agent_def
        E3Interface_init_def new_E3Interface_def bare_platform_def Let_def)
  have "e3_service_model_destroy (Some 1) agent' heap' = (if error_code_to_int INTERNAL_ERROR = 0 then Some heap' else None)"
    by (rule register_sm_ownership[OF _ _ _ f r, where now = 0 and h = "new_e3_service_model_handle 1 ?d"])
      (simp_all add: bare_platform_def new_e3_service_model_handle_def)
  then show ?thesis using c r by fastforce
qed

end
