(* ===== verification/E3_Logger.thy ===== *)
theory E3_Logger
  imports E3_Connector
begin

text \<open>
  The logger of \<^verbatim>\<open>include/libe3/logger.hpp\<close>: the singleton with its level, callback and file, the stream
  helper, and what the constructor of \<^verbatim>\<open>E3Interface\<close> does to it. Its state carries the files that are
  open and everything that was written, in order. Whether \<^verbatim>\<open>fopen\<close> succeeds and the time stamp of a
  line (\<^verbatim>\<open>strftime\<close> and the milliseconds) are parameters.
\<close>

section \<open>State\<close>

text \<open>The enumeration has the underlying type \<^verbatim>\<open>int\<close>; \<^verbatim>\<open>set_level(int)\<close> may store any of its values.\<close>

datatype LogLevel = Log_NONE | Log_ERROR | Log_WARN | Log_INFO | Log_DEBUG | Log_TRACE | Log_unlisted int

fun log_level_to_int :: "LogLevel \<Rightarrow> int" where
  "log_level_to_int Log_NONE = 0"
| "log_level_to_int Log_ERROR = 1"
| "log_level_to_int Log_WARN = 2"
| "log_level_to_int Log_INFO = 3"
| "log_level_to_int Log_DEBUG = 4"
| "log_level_to_int Log_TRACE = 5"
| "log_level_to_int (Log_unlisted n) = n"

definition log_level_of_int :: "int \<Rightarrow> LogLevel" where
  "log_level_of_int n =
     (if n = 0 then Log_NONE else if n = 1 then Log_ERROR else if n = 2 then Log_WARN
      else if n = 3 then Log_INFO else if n = 4 then Log_DEBUG else if n = 5 then Log_TRACE
      else Log_unlisted n)"

datatype log_event =
    To_callback LogLevel string string
  | To_file nat string
  | To_stderr string

record Logger =
  lg_level :: LogLevel
  lg_callback :: bool
  lg_file :: "nat option"
  lg_open :: "nat list"
  lg_opened :: nat
  lg_written :: "log_event list"

definition new_Logger :: Logger where
  "new_Logger = \<lparr>lg_level = Log_INFO, lg_callback = False, lg_file = None, lg_open = [], lg_opened = 0,
     lg_written = []\<rparr>"

section \<open>Operations\<close>

definition set_level :: "LogLevel \<Rightarrow> Logger \<Rightarrow> Logger" where
  "set_level level g = g\<lparr>lg_level := level\<rparr>"

definition set_level_int :: "int \<Rightarrow> Logger \<Rightarrow> Logger" where
  "set_level_int level g = g\<lparr>lg_level := log_level_of_int level\<rparr>"

definition set_callback :: "bool \<Rightarrow> Logger \<Rightarrow> Logger" where
  "set_callback callback g = g\<lparr>lg_callback := callback\<rparr>"

definition clear_callback :: "Logger \<Rightarrow> Logger" where
  "clear_callback g = g\<lparr>lg_callback := False\<rparr>"

text \<open>\<open>fopen path n\<close> tells whether opening \<open>path\<close> succeeds when \<open>n\<close> files have been opened before.\<close>

definition set_log_file :: "(string \<Rightarrow> nat \<Rightarrow> bool) \<Rightarrow> string \<Rightarrow> Logger \<Rightarrow> Logger" where
  "set_log_file fopen path g =
     (let g = (case lg_file g of
                 Some f \<Rightarrow> g\<lparr>lg_open := removeAll f (lg_open g), lg_file := None\<rparr>
               | None \<Rightarrow> g)
      in if path = [] then g
         else if fopen (c_str path) (lg_opened g)
         then g\<lparr>lg_file := Some (lg_opened g), lg_open := lg_opened g # lg_open g, lg_opened := lg_opened g + 1\<rparr>
         else g\<lparr>lg_written := lg_written g @
                  [To_stderr (''[Logger] Failed to open log file '' @ c_str path @ [CHR 0x0A])]\<rparr>)"

definition should_log :: "Logger \<Rightarrow> LogLevel \<Rightarrow> bool" where
  "should_log g level \<longleftrightarrow> log_level_to_int level \<le> log_level_to_int (lg_level g)"

fun level_to_string :: "LogLevel \<Rightarrow> string" where
  "level_to_string Log_ERROR = ''ERROR''"
| "level_to_string Log_WARN = ''WARN ''"
| "level_to_string Log_INFO = ''INFO ''"
| "level_to_string Log_DEBUG = ''DEBUG''"
| "level_to_string Log_TRACE = ''TRACE''"
| "level_to_string _ = ''?????''"

definition log_line :: "string \<Rightarrow> LogLevel \<Rightarrow> string \<Rightarrow> string \<Rightarrow> string" where
  "log_line stamp level component message =
     ''['' @ stamp @ ''] ['' @ level_to_string level @ ''] ['' @ c_str component @ ''] '' @ c_str message @ [CHR 0x0A]"

definition Logger_log :: "string \<Rightarrow> LogLevel \<Rightarrow> string \<Rightarrow> string \<Rightarrow> Logger \<Rightarrow> Logger" where
  "Logger_log stamp level component message g =
     (if \<not> should_log g level then g
      else if lg_callback g then g\<lparr>lg_written := lg_written g @ [To_callback level component message]\<rparr>
      else
        let line = log_line stamp level component message
        in g\<lparr>lg_written := lg_written g @
               [case lg_file g of Some f \<Rightarrow> To_file f line | None \<Rightarrow> To_stderr line]\<rparr>)"

text \<open>
  \<^verbatim>\<open>E3_LOG(level, component) << ...\<close>: the macro tests the level, and the destructor of the stream logs
  the message unless it is empty.
\<close>

definition E3_LOG :: "string \<Rightarrow> LogLevel \<Rightarrow> string \<Rightarrow> string \<Rightarrow> Logger \<Rightarrow> Logger" where
  "E3_LOG stamp level component message g =
     (if should_log g level
      then if message \<noteq> [] then Logger_log stamp level component message g else g
      else g)"

text \<open>What the constructor of \<^verbatim>\<open>E3Interface\<close> does to the logger.\<close>

definition interface_logging :: "(string \<Rightarrow> nat \<Rightarrow> bool) \<Rightarrow> int \<Rightarrow> Logger \<Rightarrow> Logger" where
  "interface_logging fopen log_level g = set_level_int log_level (set_log_file fopen ''/tmp/e3_agent.log'' g)"

datatype log_op =
    Op_set_level LogLevel
  | Op_set_level_int int
  | Op_set_callback bool
  | Op_clear_callback
  | Op_set_log_file string
  | Op_log string LogLevel string string
  | Op_interface int

fun log_op_step :: "(string \<Rightarrow> nat \<Rightarrow> bool) \<Rightarrow> log_op \<Rightarrow> Logger \<Rightarrow> Logger" where
  "log_op_step fopen (Op_set_level level) g = set_level level g"
| "log_op_step fopen (Op_set_level_int level) g = set_level_int level g"
| "log_op_step fopen (Op_set_callback callback) g = set_callback callback g"
| "log_op_step fopen Op_clear_callback g = clear_callback g"
| "log_op_step fopen (Op_set_log_file path) g = set_log_file fopen path g"
| "log_op_step fopen (Op_log stamp level component message) g = E3_LOG stamp level component message g"
| "log_op_step fopen (Op_interface log_level) g = interface_logging fopen log_level g"

section \<open>Lemmas\<close>

lemma log_level_cast [simp]: "log_level_to_int (log_level_of_int n) = n"
  by (simp add: log_level_of_int_def)

text \<open>The one open file is the logger's, and handles are not reused.\<close>

definition logger_ok :: "Logger \<Rightarrow> bool" where
  "logger_ok g \<longleftrightarrow> lg_open g = (case lg_file g of None \<Rightarrow> [] | Some f \<Rightarrow> [f])
     \<and> (\<forall>f. lg_file g = Some f \<longrightarrow> f < lg_opened g)
     \<and> (\<forall>f line. To_file f line \<in> set (lg_written g) \<longrightarrow> f < lg_opened g)"

lemma logger_ok_new [simp]: "logger_ok new_Logger"
  by (simp add: logger_ok_def new_Logger_def)

lemma logger_ok_file [simp]: "logger_ok g \<Longrightarrow> logger_ok (set_log_file fopen path g)"
  by (auto simp: logger_ok_def set_log_file_def Let_def split: option.splits)

lemma logger_ok_log [simp]: "logger_ok g \<Longrightarrow> logger_ok (E3_LOG stamp level component message g)"
  by (auto simp: logger_ok_def E3_LOG_def Logger_log_def Let_def split: option.splits)

lemma logger_ok_set [simp]:
  "logger_ok (set_level level g) = logger_ok g" "logger_ok (set_level_int n g) = logger_ok g"
  "logger_ok (set_callback b g) = logger_ok g" "logger_ok (clear_callback g) = logger_ok g"
  by (simp_all add: set_level_def set_level_int_def set_callback_def clear_callback_def logger_ok_def)

lemma logger_ok_run: "logger_ok g \<Longrightarrow> logger_ok (fold (log_op_step fopen) ops g)"
proof (induction ops arbitrary: g)
  case (Cons p ops)
  then show ?case by (cases p) (simp_all add: interface_logging_def)
qed simp

section \<open>Properties\<close>

text \<open>
  C40: whatever is done with the logger, at most one file is open, and it is the one the logger writes
  to. A message goes to exactly one sink, once, if its level does not exceed the logger's and it is not
  empty: to the callback if there is one, else to the file, else to the error stream. An interface
  that is constructed closes the user's log file and sends later messages to its own, a new file.
\<close>

theorem logger_routes_messages:
  "let g = fold (log_op_step fopen) ops new_Logger in
    set (lg_open g) = set_option (lg_file g) \<and> length (lg_open g) \<le> 1
    \<and> lg_written (E3_LOG stamp level component message g) = lg_written g @
        (if log_level_to_int level \<le> log_level_to_int (lg_level g) \<and> message \<noteq> []
         then [if lg_callback g then To_callback level component message
               else case lg_file g of Some f \<Rightarrow> To_file f (log_line stamp level component message)
                    | None \<Rightarrow> To_stderr (log_line stamp level component message)]
         else [])
    \<and> (let h = interface_logging fopen n g
       in log_level_to_int (lg_level h) = n
        \<and> (if fopen ''/tmp/e3_agent.log'' (lg_opened g)
           then lg_open h = [lg_opened g] \<and> lg_file h = Some (lg_opened g)
             \<and> (\<forall>line. To_file (lg_opened g) line \<notin> set (lg_written g))
           else lg_open h = [] \<and> lg_file h = None))"
proof -
  define g where "g = fold (log_op_step fopen) ops new_Logger"
  have ok: "logger_ok g" unfolding g_def by (rule logger_ok_run) simp
  then have "set (lg_open g) = set_option (lg_file g) \<and> length (lg_open g) \<le> 1"
    by (auto simp: logger_ok_def split: option.splits)
  moreover have "lg_written (E3_LOG stamp level component message g) = lg_written g @
        (if log_level_to_int level \<le> log_level_to_int (lg_level g) \<and> message \<noteq> []
         then [if lg_callback g then To_callback level component message
               else case lg_file g of Some f \<Rightarrow> To_file f (log_line stamp level component message)
                    | None \<Rightarrow> To_stderr (log_line stamp level component message)]
         else [])"
    by (simp add: E3_LOG_def Logger_log_def should_log_def Let_def)
  moreover have "c_str ''/tmp/e3_agent.log'' = ''/tmp/e3_agent.log''" by (simp add: c_str_def)
  ultimately show ?thesis
    unfolding g_def[symmetric] using ok
    by (auto simp: interface_logging_def set_level_int_def set_log_file_def logger_ok_def Let_def split: option.splits)
qed

end
