(* ===== verification/Simple_Wrapper.thy ===== *)
theory Simple_Wrapper
  imports Asn1_Encoder Sm_Registry
begin

text \<open>
  The payload codec of the example service model, \<^verbatim>\<open>examples/sm_simple/e3sm_simple_wrapper.cpp\<close>, and the
  worker of \<^verbatim>\<open>examples/simple_agent.cpp\<close> on top of it. The structures are those asn1c generates from
  \<^verbatim>\<open>examples/sm_simple/e3sm_simple.asn\<close>, an \<^verbatim>\<open>INTEGER\<close> member being a \<^verbatim>\<open>long\<close> and an optional one a
  pointer to it. The generated APER functions are a parameter per type, with their laws in the locale
  \<open>aper_type_codec\<close>. Memory is the number of live heap blocks; whether the next \<^verbatim>\<open>malloc\<close> succeeds is
  a function of it.
\<close>

section \<open>Structures\<close>

record SimpleIndication =
  si_data1 :: u32
  si_timestamp :: "u32 option"

record SimpleDAppReport =
  sdr_bin1 :: int

record SimpleConfigControl =
  scc_enable :: bool

record Simple_Indication =
  asi_data1 :: int
  asi_timestamp :: "int option"

record Simple_Control =
  asc_samplingThreshold :: "int option"

record Simple_RanFunctionData =
  asr_name :: bytes

record Simple_DAppReport =
  asd_bin1 :: int

record Simple_ConfigControl =
  asg_enable :: bool

text \<open>The constraints of the schema; a \<^verbatim>\<open>Simple-ConfigControl\<close> has none.\<close>

definition in_range :: "int \<Rightarrow> int \<Rightarrow> int \<Rightarrow> bool" where
  "in_range lo hi n \<longleftrightarrow> lo \<le> n \<and> n \<le> hi"

definition opt_ok :: "('a \<Rightarrow> bool) \<Rightarrow> 'a option \<Rightarrow> bool" where
  "opt_ok P x = (case x of Some v \<Rightarrow> P v | None \<Rightarrow> True)"

definition simple_indication_ok :: "Simple_Indication \<Rightarrow> bool" where
  "simple_indication_ok s \<longleftrightarrow> in_range 0 32768 (asi_data1 s)
     \<and> opt_ok (in_range 0 2147483647) (asi_timestamp s)"

definition simple_control_ok :: "Simple_Control \<Rightarrow> bool" where
  "simple_control_ok s \<longleftrightarrow> opt_ok (in_range 0 100) (asc_samplingThreshold s)"

text \<open>The generated codec of one type. The decoder gives whether its code is \<^verbatim>\<open>RC_OK\<close> and the structure
  its pointer refers to afterwards, which a failed decoding may leave half filled.\<close>

record 'a aper_type =
  at_encode :: "'a \<Rightarrow> nat \<Rightarrow> (nat \<times> bytes) option"
  at_decode :: "bytes \<Rightarrow> bool \<times> 'a option"
  at_blocks :: "'a \<Rightarrow> nat"

section \<open>Memory\<close>

type_synonym memory = "nat \<Rightarrow> bool"

definition malloc :: "memory \<Rightarrow> nat \<Rightarrow> bool \<times> nat" where
  "malloc mem live = (if mem live then (True, live + 1) else (False, live))"

definition decoded_blocks :: "'a aper_type \<Rightarrow> 'a option \<Rightarrow> nat" where
  "decoded_blocks A p = (case p of None \<Rightarrow> 0 | Some s \<Rightarrow> at_blocks A s)"

text \<open>\<^verbatim>\<open>out.assign(buffer, buffer + bytes)\<close> with \<^verbatim>\<open>bytes = (encoded + 7) / 8\<close>.\<close>

definition assign_encoded :: "nat \<Rightarrow> bytes \<Rightarrow> bytes" where
  "assign_encoded encoded buffer = take ((encoded + 7) div 8) buffer"

section \<open>Operations\<close>

text \<open>An encoder returns its Boolean, the output vector and the live blocks; a decoder likewise.\<close>

definition encode_simple_indication :: "Simple_Indication aper_type \<Rightarrow> memory \<Rightarrow> SimpleIndication
    \<Rightarrow> bytes \<Rightarrow> nat \<Rightarrow> bool \<times> bytes \<times> nat" where
  "encode_simple_indication A mem x out live =
     (let (ok, live') = (case si_timestamp x of None \<Rightarrow> (True, live) | Some _ \<Rightarrow> malloc mem live);
          si = \<lparr>asi_data1 = long_of (si_data1 x), asi_timestamp = map_option long_of (si_timestamp x)\<rparr>;
          freed = (if si_timestamp x = None then live' else live' - 1)
      in if \<not> ok then (False, out, live')
         else case at_encode A si 1024 of
                None \<Rightarrow> (False, out, freed)
              | Some (encoded, buffer) \<Rightarrow> (True, assign_encoded encoded buffer, freed))"

definition decode_simple_indication :: "Simple_Indication aper_type \<Rightarrow> bytes \<Rightarrow> SimpleIndication
    \<Rightarrow> nat \<Rightarrow> bool \<times> SimpleIndication \<times> nat" where
  "decode_simple_indication A d out live =
     (let (rc_ok, si) = at_decode A d; live' = live + decoded_blocks A si
      in case si of
           None \<Rightarrow> (False, out, live')
         | Some s \<Rightarrow>
             if \<not> rc_ok then (False, out, live')
             else (True, out\<lparr>si_data1 := u32_of (asi_data1 s), si_timestamp := map_option u32_of (asi_timestamp s)\<rparr>,
                   live' - decoded_blocks A si))"

text \<open>The conversion of a \<^verbatim>\<open>long\<close> to \<^verbatim>\<open>int\<close>.\<close>

definition int_of_long :: "int \<Rightarrow> int" where
  "int_of_long n = signed_take_bit 31 n"

definition decode_simple_control :: "Simple_Control aper_type \<Rightarrow> bytes \<Rightarrow> int \<Rightarrow> nat \<Rightarrow> bool \<times> int \<times> nat" where
  "decode_simple_control A d samplingThreshold live =
     (let (rc_ok, sc) = at_decode A d; live' = live + decoded_blocks A sc
      in case sc of
           None \<Rightarrow> (False, samplingThreshold, live')
         | Some s \<Rightarrow>
             if \<not> rc_ok then (False, samplingThreshold, live')
             else case asc_samplingThreshold s of
                    Some n \<Rightarrow> (True, int_of_long n, live' - decoded_blocks A sc)
                  | None \<Rightarrow> (False, samplingThreshold, live' - decoded_blocks A sc))"

definition encode_simple_control :: "Simple_Control aper_type \<Rightarrow> memory \<Rightarrow> int \<Rightarrow> bytes \<Rightarrow> nat
    \<Rightarrow> bool \<times> bytes \<times> nat" where
  "encode_simple_control A mem samplingThreshold out live =
     (let (ok, live') = malloc mem live; sc = \<lparr>asc_samplingThreshold = Some samplingThreshold\<rparr>
      in if \<not> ok then (False, out, live')
         else case at_encode A sc 256 of
                None \<Rightarrow> (False, out, live')
              | Some (encoded, buffer) \<Rightarrow> (True, assign_encoded encoded buffer, live' - 1))"

definition encode_ran_function_data :: "Simple_RanFunctionData aper_type \<Rightarrow> memory \<Rightarrow> string \<Rightarrow> bytes \<Rightarrow> nat
    \<Rightarrow> bool \<times> bytes \<times> nat" where
  "encode_ran_function_data A mem name out live =
     (let (ok, live') = malloc mem live; srd = \<lparr>asr_name = octets_of_string name\<rparr>
      in if \<not> ok then (False, out, live')
         else case at_encode A srd 256 of
                None \<Rightarrow> (False, out, live' - 1)
              | Some (encoded, buffer) \<Rightarrow> (True, assign_encoded encoded buffer, live' - 1))"

definition decode_simple_dapp_report :: "Simple_DAppReport aper_type \<Rightarrow> bytes \<Rightarrow> SimpleDAppReport
    \<Rightarrow> nat \<Rightarrow> bool \<times> SimpleDAppReport \<times> nat" where
  "decode_simple_dapp_report A d out live =
     (let (rc_ok, rep) = at_decode A d; live' = live + decoded_blocks A rep
      in case rep of
           None \<Rightarrow> (False, out, live')
         | Some s \<Rightarrow>
             if \<not> rc_ok then (False, out, live')
             else (True, out\<lparr>sdr_bin1 := int_of_long (asd_bin1 s)\<rparr>, live' - decoded_blocks A rep))"

definition encode_simple_config_control :: "Simple_ConfigControl aper_type \<Rightarrow> SimpleConfigControl \<Rightarrow> bytes
    \<Rightarrow> bool \<times> bytes" where
  "encode_simple_config_control A x out =
     (case at_encode A \<lparr>asg_enable = scc_enable x\<rparr> 32 of
        None \<Rightarrow> (False, out)
      | Some (encoded, buffer) \<Rightarrow> (True, assign_encoded encoded buffer))"

definition decode_simple_config_control :: "Simple_ConfigControl aper_type \<Rightarrow> bytes \<Rightarrow> SimpleConfigControl
    \<Rightarrow> nat \<Rightarrow> bool \<times> SimpleConfigControl \<times> nat" where
  "decode_simple_config_control A d out live =
     (let (rc_ok, scc) = at_decode A d; live' = live + decoded_blocks A scc
      in case scc of
           None \<Rightarrow> (False, out, live')
         | Some s \<Rightarrow>
             if \<not> rc_ok then (False, out, live')
             else (True, out\<lparr>scc_enable := asg_enable s\<rparr>, live' - decoded_blocks A scc))"

text \<open>The wrapper as the service model calls it: the vectors start empty, and only the outcome counts.\<close>

definition enc_def_of :: "Simple_RanFunctionData aper_type \<Rightarrow> memory \<Rightarrow> nat \<Rightarrow> string \<Rightarrow> bytes option" where
  "enc_def_of A mem live name =
     (case encode_ran_function_data A mem name [] live of (ok, out, _) \<Rightarrow> if ok then Some out else None)"

definition dec_ctl_of :: "Simple_Control aper_type \<Rightarrow> nat \<Rightarrow> bytes \<Rightarrow> bool" where
  "dec_ctl_of A live d = fst (decode_simple_control A d 0 live)"

definition enc_ind_of :: "Simple_Indication aper_type \<Rightarrow> memory \<Rightarrow> nat \<Rightarrow> u32 \<Rightarrow> u32 \<Rightarrow> bytes option" where
  "enc_ind_of A mem live time seq =
     (case encode_simple_indication A mem \<lparr>si_data1 = seq, si_timestamp = Some time\<rparr> [] live of
        (ok, out, _) \<Rightarrow> if ok then Some out else None)"

section \<open>The laws of a generated codec\<close>

text \<open>
  What an APER codec guarantees: a value it encodes lies within the constraints of its type, the
  encoding fits the buffer, and decoding the encoding gives the value back.
\<close>

locale aper_type_codec =
  fixes A :: "'a aper_type" and ok :: "'a \<Rightarrow> bool"
  assumes type_roundtrip: "at_encode A a n = Some (bits, buf) \<Longrightarrow>
      0 < bits \<and> length buf = n \<and> (bits + 7) div 8 \<le> n \<and> at_decode A (take ((bits + 7) div 8) buf) = (True, Some a)"
    and type_constraints: "at_encode A a n \<noteq> None \<Longrightarrow> ok a"
begin

lemma encoded:
  assumes "at_encode A a n = Some (bits, buf)"
  shows "at_decode A (assign_encoded bits buf) = (True, Some a)" and "ok a" and "assign_encoded bits buf \<noteq> []"
    and "length (assign_encoded bits buf) \<le> n"
proof -
  note r = type_roundtrip[OF assms]
  show "at_decode A (assign_encoded bits buf) = (True, Some a)" using r by (simp add: assign_encoded_def)
  show "ok a" using type_constraints[of a n] assms by simp
  have "0 < (bits + 7) div 8" using r by (simp add: div_greater_zero_iff)
  then show "assign_encoded bits buf \<noteq> []" "length (assign_encoded bits buf) \<le> n"
    using r by (auto simp: assign_encoded_def)
qed

lemma refused: "\<not> ok a \<Longrightarrow> at_encode A a n = None"
  using type_constraints by blast

end

text \<open>A codec that encodes every value of its type into a buffer of \<open>room\<close> bytes.\<close>

locale aper_type_total = aper_type_codec +
  fixes room :: nat
  assumes encodes: "ok a \<Longrightarrow> at_encode A a room \<noteq> None"
begin

lemma encodes_iff: "at_encode A a room \<noteq> None \<longleftrightarrow> ok a"
  using encodes type_constraints by blast

end

section \<open>The worker over the wrapper\<close>

text \<open>
  The rounds that \<^verbatim>\<open>worker_loop\<close> makes until \<^verbatim>\<open>running_\<close> is cleared, each with the time stamps it reads:
  that of its PDUs and the seconds it puts into the indication.
\<close>

fun simple_worker_loop :: "('w \<Rightarrow> Pdu \<Rightarrow> (ErrorCode \<times> 'w) option) \<Rightarrow> ('w \<Rightarrow> u32 list)
    \<Rightarrow> (u32 \<Rightarrow> u32 \<Rightarrow> bytes option) \<Rightarrow> (u64 \<times> u32) list \<Rightarrow> SimpleServiceModel sm_object \<Rightarrow> 'w
    \<Rightarrow> (SimpleServiceModel sm_object \<times> 'w) option" where
  "simple_worker_loop emitter provider enc [] ob w = Some (ob, w)"
| "simple_worker_loop emitter provider enc ((now, time) # rounds) ob w =
     (case run_sm_act emitter provider ob (simple_worker_round now (enc time) (smo_state ob)) w of
        None \<Rightarrow> None
      | Some ((_, s), w') \<Rightarrow> simple_worker_loop emitter provider enc rounds (ob\<lparr>smo_state := s\<rparr>) w')"

section \<open>Lemmas\<close>

lemma int_of_long_id: "in_range 0 100 n \<Longrightarrow> int_of_long n = n"
  by (auto simp: int_of_long_def in_range_def signed_take_bit_int_eq_self)

lemma long_in_range: "in_range 0 (int b) (long_of x) \<longleftrightarrow> unat x \<le> b"
proof -
  have "uint x = int (unat x)" by simp
  then show ?thesis unfolding in_range_def long_of_def by linarith
qed

lemma encode_indication_ok:
  assumes "aper_type_codec A simple_indication_ok"
    and "encode_simple_indication A mem x out live = (True, bs, live')"
  shows "at_decode A bs = (True, Some \<lparr>asi_data1 = long_of (si_data1 x),
      asi_timestamp = map_option long_of (si_timestamp x)\<rparr>)"
    and "live' = live" and "length bs \<le> 1024" and "unat (si_data1 x) \<le> 32768"
proof -
  let ?si = "\<lparr>asi_data1 = long_of (si_data1 x), asi_timestamp = map_option long_of (si_timestamp x)\<rparr>"
  obtain bits buf where e: "at_encode A ?si 1024 = Some (bits, buf)" "bs = assign_encoded bits buf"
    using assms(2) by (auto simp: encode_simple_indication_def Let_def split: prod.splits option.splits if_splits)
  note r = aper_type_codec.encoded[OF assms(1) e(1)]
  show "at_decode A bs = (True, Some ?si)" "length bs \<le> 1024" using r e(2) by simp_all
  show "unat (si_data1 x) \<le> 32768"
    using r(2) long_in_range[of 32768] by (simp add: simple_indication_ok_def)
  show "live' = live" using assms(2)
    by (auto simp: encode_simple_indication_def malloc_def Let_def split: prod.splits option.splits if_splits)
qed

lemma encode_control_ok:
  assumes "aper_type_codec A simple_control_ok" and "encode_simple_control A mem n out live = (True, bs, live')"
  shows "at_decode A bs = (True, Some \<lparr>asc_samplingThreshold = Some n\<rparr>)" and "live' = live"
    and "in_range 0 100 n"
proof -
  let ?sc = "\<lparr>asc_samplingThreshold = Some n\<rparr>"
  obtain bits buf where e: "at_encode A ?sc 256 = Some (bits, buf)" "bs = assign_encoded bits buf"
    using assms(2) by (auto simp: encode_simple_control_def Let_def split: prod.splits option.splits if_splits)
  note r = aper_type_codec.encoded[OF assms(1) e(1)]
  show "at_decode A bs = (True, Some ?sc)" using r e(2) by simp
  show "in_range 0 100 n" using r(2) by (simp add: simple_control_ok_def opt_ok_def)
  show "live' = live" using assms(2)
    by (auto simp: encode_simple_control_def malloc_def Let_def split: prod.splits option.splits if_splits)
qed

subsection \<open>Rounds of the worker\<close>

lemma run_emit_all:
  assumes "smo_emitter ob"
  shows "run_sm_act (\<lambda>w pdu. Some (rc w pdu, w @ [pdu])) provider ob (simple_emit_all now enc ds s) w =
     Some ((SUCCESS, s\<lparr>ssm_seq := ssm_seq s + 1\<rparr>),
       w @ map (\<lambda>d. make_indication_pdu now d SIMPLE_RAN_FUNCTION_ID enc) ds)"
  using assms by (induction ds arbitrary: w) (simp_all add: emit_outbound_def)

lemma enc_ind_None_iff:
  assumes "aper_type_total A simple_indication_ok 1024" and "mem live" and "unat time \<le> 2147483647"
  shows "enc_ind_of A mem live time seq = None \<longleftrightarrow> 32768 < unat seq"
proof -
  let ?si = "\<lparr>asi_data1 = long_of seq, asi_timestamp = Some (long_of time)\<rparr>"
  have "at_encode A ?si 1024 = None \<longleftrightarrow> \<not> simple_indication_ok ?si"
    using aper_type_total.encodes_iff[OF assms(1)] by blast
  moreover have "simple_indication_ok ?si \<longleftrightarrow> unat seq \<le> 32768"
    using long_in_range[of 32768 seq] long_in_range[of 2147483647 time] assms(3)
    by (simp add: simple_indication_ok_def opt_ok_def)
  ultimately show ?thesis
    using assms(2)
    by (auto simp: enc_ind_of_def encode_simple_indication_def malloc_def split: option.splits)
qed

lemma worker_round:
  assumes "smo_emitter ob" and "smo_provider ob" and "ssm_running (smo_state ob)" and "subs \<noteq> []"
  shows "enc (ssm_seq (smo_state ob)) = None \<Longrightarrow>
      run_sm_act (\<lambda>w pdu. Some (rc w pdu, w @ [pdu])) (\<lambda>w. subs) ob (simple_worker_round now enc (smo_state ob)) w
        = Some ((SUCCESS, smo_state ob), w)"
    and "enc (ssm_seq (smo_state ob)) = Some bs \<Longrightarrow>
      run_sm_act (\<lambda>w pdu. Some (rc w pdu, w @ [pdu])) (\<lambda>w. subs) ob (simple_worker_round now enc (smo_state ob)) w
        = Some ((SUCCESS, (smo_state ob)\<lparr>ssm_seq := ssm_seq (smo_state ob) + 1\<rparr>),
            w @ map (\<lambda>d. make_indication_pdu now d SIMPLE_RAN_FUNCTION_ID bs) subs)"
  using assms run_emit_all[OF assms(1)] by (simp_all add: simple_worker_round_def get_subscribers_def)

text \<open>The indications of the round with sequence number \<open>k\<close> at the given times.\<close>

definition round_indications :: "(u32 \<Rightarrow> u32 \<Rightarrow> bytes option) \<Rightarrow> u32 list \<Rightarrow> nat \<times> u64 \<times> u32 \<Rightarrow> Pdu list" where
  "round_indications enc subs = (\<lambda>(k, now, time).
     map (\<lambda>d. make_indication_pdu now d SIMPLE_RAN_FUNCTION_ID (the (enc time (of_nat k)))) subs)"

lemma worker_loop_sent:
  assumes "aper_type_total A simple_indication_ok 1024" and "mem live" and "subs \<noteq> []"
    and "\<forall>(now, time) \<in> set ts. unat time \<le> 2147483647"
    and "smo_emitter ob" and "smo_provider ob" and "ssm_running (smo_state ob)"
    and "ssm_seq (smo_state ob) = of_nat k" and "k \<le> 32769"
  shows "\<exists>ob'. simple_worker_loop (\<lambda>w pdu. Some (rc w pdu, w @ [pdu])) (\<lambda>w. subs) (enc_ind_of A mem live) ts ob w
      = Some (ob', w @ concat (map (round_indications (enc_ind_of A mem live) subs) (enumerate k (take (32769 - k) ts))))
      \<and> ssm_seq (smo_state ob') = of_nat (k + min (length ts) (32769 - k))
      \<and> (\<forall>(i, now, time) \<in> set (enumerate k (take (32769 - k) ts)). enc_ind_of A mem live time (of_nat i) \<noteq> None)"
  using assms(4-)
proof (induction ts arbitrary: ob w k)
  case Nil
  then show ?case by simp
next
  case (Cons r ts)
  obtain now time where r: "r = (now, time)" by fastforce
  have t: "unat time \<le> 2147483647" using Cons.prems(1) r by simp
  have uk: "unat (of_nat k :: u32) = k" using Cons.prems(6) by simp
  note N = enc_ind_None_iff[where mem = mem and live = live, OF assms(1,2) t, of "ssm_seq (smo_state ob)"]
  show ?case
  proof (cases "k = 32769")
    case True
    then have "enc_ind_of A mem live time (ssm_seq (smo_state ob)) = None" using N Cons.prems(5) uk by simp
    from worker_round(1)[where enc = "enc_ind_of A mem live time", OF Cons.prems(2-4) assms(3) this] Cons.IH[OF _ Cons.prems(2-6)] Cons.prems(1) True
    show ?thesis unfolding r by simp
  next
    case False
    then obtain bs where b: "enc_ind_of A mem live time (ssm_seq (smo_state ob)) = Some bs"
      using N Cons.prems(5,6) uk by (cases "enc_ind_of A mem live time (ssm_seq (smo_state ob))") auto
    let ?s = "(smo_state ob)\<lparr>ssm_seq := ssm_seq (smo_state ob) + 1\<rparr>"
    let ?w = "w @ map (\<lambda>d. make_indication_pdu now d SIMPLE_RAN_FUNCTION_ID bs) subs"
    let ?rest = "enumerate (k + 1) (take (32769 - (k + 1)) ts)"
    obtain ob' where IH: "simple_worker_loop (\<lambda>w pdu. Some (rc w pdu, w @ [pdu])) (\<lambda>w. subs)
        (enc_ind_of A mem live) ts (ob\<lparr>smo_state := ?s\<rparr>) ?w
          = Some (ob', ?w @ concat (map (round_indications (enc_ind_of A mem live) subs) ?rest))"
      "ssm_seq (smo_state ob') = of_nat (k + 1 + min (length ts) (32769 - (k + 1)))"
      "\<forall>(i, now, time) \<in> set ?rest. enc_ind_of A mem live time (of_nat i) \<noteq> None"
      using Cons.IH[of "ob\<lparr>smo_state := ?s\<rparr>" "k + 1" ?w] Cons.prems False by (auto simp: add.commute)
    have n: "32769 - k = Suc (32769 - (k + 1))" using Cons.prems(6) False by simp
    have e: "enumerate k (take (32769 - k) (r # ts)) = (k, r) # ?rest" unfolding n by simp
    have m: "min (length (r # ts)) (32769 - k) = Suc (min (length ts) (32769 - (k + 1)))" unfolding n by simp
    have ri: "round_indications (enc_ind_of A mem live) subs (k, now, time)
        = map (\<lambda>d. make_indication_pdu now d SIMPLE_RAN_FUNCTION_ID bs) subs"
      using b Cons.prems(5) by (simp add: round_indications_def)
    have step: "simple_worker_loop (\<lambda>w pdu. Some (rc w pdu, w @ [pdu])) (\<lambda>w. subs) (enc_ind_of A mem live) (r # ts) ob w
        = Some (ob', ?w @ concat (map (round_indications (enc_ind_of A mem live) subs) ?rest))"
      using worker_round(2)[where enc = "enc_ind_of A mem live time", OF Cons.prems(2-4) assms(3) b] IH(1)
      unfolding r by simp
    show ?thesis unfolding e m step using IH(2,3) b Cons.prems(5) ri r by auto
  qed
qed

section \<open>A codec that satisfies the laws\<close>

text \<open>Whole octets: integers as a fixed number of octets, most significant first.\<close>

fun octets :: "nat \<Rightarrow> nat \<Rightarrow> bytes" where
  "octets 0 n = []"
| "octets (Suc k) n = octets k (n div 256) @ [of_nat n]"

definition octets_value :: "bytes \<Rightarrow> nat" where
  "octets_value bs = foldl (\<lambda>v b. v * 256 + unat b) 0 bs"

definition octet_codec :: "('a \<Rightarrow> bool) \<Rightarrow> ('a \<Rightarrow> bytes) \<Rightarrow> (bytes \<Rightarrow> 'a option) \<Rightarrow> 'a aper_type" where
  "octet_codec ok ser de = \<lparr>
     at_encode = (\<lambda>a n. if ok a \<and> length (ser a) \<le> n
                        then Some (8 * length (ser a), ser a @ replicate (n - length (ser a)) 0) else None),
     at_decode = (\<lambda>bs. (de bs \<noteq> None, de bs)), at_blocks = (\<lambda>a. 1)\<rparr>"

lemma length_octets [simp]: "length (octets k n) = k"
  by (induction k arbitrary: n) simp_all

lemma octets_value: "n < 256 ^ k \<Longrightarrow> octets_value (octets k n) = n"
proof (induction k arbitrary: n)
  case (Suc k)
  then have "octets_value (octets k (n div 256)) = n div 256"
    by (simp add: less_mult_imp_div_less mult.commute)
  moreover have "unat (of_nat n :: u8) = n mod 256" by (simp add: unat_of_nat)
  ultimately show ?case by (simp add: octets_value_def)
qed (simp add: octets_value_def)

lemma octet_codec_laws:
  assumes "\<And>a. ok a \<Longrightarrow> de (ser a) = Some a \<and> ser a \<noteq> []"
  shows "aper_type_codec (octet_codec ok ser de) ok"
  using assms by unfold_locales (auto simp: octet_codec_def split: if_splits)

definition indication_octets :: "Simple_Indication \<Rightarrow> bytes" where
  "indication_octets s = octets 2 (nat (asi_data1 s))
     @ (case asi_timestamp s of None \<Rightarrow> [] | Some t \<Rightarrow> octets 4 (nat t))"

definition octets_indication :: "bytes \<Rightarrow> Simple_Indication option" where
  "octets_indication bs =
     (if length bs = 2 then Some \<lparr>asi_data1 = int (octets_value bs), asi_timestamp = None\<rparr>
      else if length bs = 6 then Some \<lparr>asi_data1 = int (octets_value (take 2 bs)),
        asi_timestamp = Some (int (octets_value (drop 2 bs)))\<rparr>
      else None)"

definition control_octets :: "Simple_Control \<Rightarrow> bytes" where
  "control_octets s = (case asc_samplingThreshold s of None \<Rightarrow> octets 1 0 | Some n \<Rightarrow> octets 2 (nat n))"

definition octets_control :: "bytes \<Rightarrow> Simple_Control option" where
  "octets_control bs =
     (if length bs = 1 then Some \<lparr>asc_samplingThreshold = None\<rparr>
      else if length bs = 2 then Some \<lparr>asc_samplingThreshold = Some (int (octets_value bs))\<rparr>
      else None)"

definition indication_codec :: "Simple_Indication aper_type" where
  "indication_codec = octet_codec simple_indication_ok indication_octets octets_indication"

definition control_codec :: "Simple_Control aper_type" where
  "control_codec = octet_codec simple_control_ok control_octets octets_control"

definition config_codec :: "Simple_ConfigControl aper_type" where
  "config_codec = octet_codec (\<lambda>_. True) (\<lambda>s. [if asg_enable s then 128 else 0])
     (\<lambda>bs. if bs = [128] then Some \<lparr>asg_enable = True\<rparr> else if bs = [0] then Some \<lparr>asg_enable = False\<rparr> else None)"

lemma indication_octets_roundtrip:
  assumes "simple_indication_ok s"
  shows "octets_indication (indication_octets s) = Some s \<and> indication_octets s \<noteq> []"
proof -
  have d: "0 \<le> asi_data1 s" "nat (asi_data1 s) < 256 ^ 2"
    using assms by (auto simp: simple_indication_ok_def in_range_def)
  have t: "0 \<le> t" "nat t < 256 ^ 4" if "asi_timestamp s = Some t" for t
    using assms that by (auto simp: simple_indication_ok_def in_range_def opt_ok_def)
  have "octets 2 n \<noteq> []" for n by (metis length_octets list.size(3) zero_neq_numeral)
  then show ?thesis
    using d t octets_value[OF d(2)] octets_value[OF t(2)]
    by (cases s; cases "asi_timestamp s") (auto simp: octets_indication_def indication_octets_def)
qed

interpretation indication: aper_type_total indication_codec simple_indication_ok 1024
proof -
  have "aper_type_codec indication_codec simple_indication_ok"
    unfolding indication_codec_def by (rule octet_codec_laws) (rule indication_octets_roundtrip)
  then show "aper_type_total indication_codec simple_indication_ok 1024"
    unfolding aper_type_total_def aper_type_total_axioms_def
    by (auto simp: indication_codec_def octet_codec_def indication_octets_def split: option.split)
qed

interpretation control: aper_type_codec control_codec simple_control_ok
  unfolding control_codec_def
proof (rule octet_codec_laws)
  fix s assume "simple_control_ok s"
  then have n: "0 \<le> n" "nat n < 256 ^ 2" if "asc_samplingThreshold s = Some n" for n
    using that by (auto simp: simple_control_ok_def in_range_def opt_ok_def)
  have "octets (Suc k) n \<noteq> []" for k n by simp
  then show "octets_control (control_octets s) = Some s \<and> control_octets s \<noteq> []"
    using n octets_value[OF n(2)]
    by (cases s; cases "asc_samplingThreshold s") (auto simp: octets_control_def control_octets_def numeral_2_eq_2)
qed

interpretation config: aper_type_codec config_codec "\<lambda>_. True"
  unfolding config_codec_def by (rule octet_codec_laws) simp

section \<open>Properties\<close>

text \<open>
  C36: what the wrapper encodes it decodes to the same value, whatever the generated codec does within
  its laws, the values it accepts lie within the bounds of the schema, and no heap block is left.
\<close>

theorem simple_payload_roundtrip:
  assumes "aper_type_codec A simple_indication_ok" and "aper_type_codec B simple_control_ok"
    and "aper_type_codec C (\<lambda>_. True)"
  shows "(encode_simple_indication A mem x out live = (True, bs, live') \<longrightarrow>
      decode_simple_indication A bs y live' = (True, x, live) \<and> length bs \<le> 1024 \<and> unat (si_data1 x) \<le> 32768)
    \<and> (encode_simple_control B mem n out live = (True, cs, live'') \<longrightarrow>
      decode_simple_control B cs m live'' = (True, n, live) \<and> 0 \<le> n \<and> n \<le> 100)
    \<and> (encode_simple_config_control C u out = (True, ds) \<longrightarrow>
      decode_simple_config_control C ds v live = (True, u, live))"
proof (intro conjI impI)
  assume e: "encode_simple_indication A mem x out live = (True, bs, live')"
  note r = encode_indication_ok[OF assms(1) e]
  show "decode_simple_indication A bs y live' = (True, x, live)"
    using r(1,2) by (cases x; cases y) (simp add: decode_simple_indication_def option.map_comp)
  show "length bs \<le> 1024" "unat (si_data1 x) \<le> 32768" using r(3,4) .
next
  assume e: "encode_simple_control B mem n out live = (True, cs, live'')"
  note r = encode_control_ok[OF assms(2) e]
  show "decode_simple_control B cs m live'' = (True, n, live)"
    using r int_of_long_id by (simp add: decode_simple_control_def)
  show "0 \<le> n" "n \<le> 100" using r(3) by (simp_all add: in_range_def)
next
  assume "encode_simple_config_control C u out = (True, ds)"
  then obtain bits buf where e: "at_encode C \<lparr>asg_enable = scc_enable u\<rparr> 32 = Some (bits, buf)"
      "ds = assign_encoded bits buf"
    by (auto simp: encode_simple_config_control_def split: option.splits)
  then show "decode_simple_config_control C ds v live = (True, u, live)"
    using aper_type_codec.encoded(1)[OF assms(3) e(1)]
    by (cases u; cases v) (simp add: decode_simple_config_control_def)
qed

theorem simple_payload_roundtrip_witness:
  "decode_simple_indication indication_codec [0, 7, 0, 0, 1, 0] \<lparr>si_data1 = 0, si_timestamp = None\<rparr> 0
     = (True, \<lparr>si_data1 = 7, si_timestamp = Some 256\<rparr>, 0)
   \<and> decode_simple_control control_codec [0, 50] 0 0 = (True, 50, 0)
   \<and> decode_simple_config_control config_codec [128] \<lparr>scc_enable = False\<rparr> 0 = (True, \<lparr>scc_enable = True\<rparr>, 0)"
proof -
  have e: "encode_simple_indication indication_codec (\<lambda>_. True) \<lparr>si_data1 = 7, si_timestamp = Some 256\<rparr> [] 0
      = (True, [0, 7, 0, 0, 1, 0], 0)"
    "encode_simple_control control_codec (\<lambda>_. True) 50 [] 0 = (True, [0, 50], 0)"
    "encode_simple_config_control config_codec \<lparr>scc_enable = True\<rparr> [] = (True, [128])"
    by code_simp+
  show ?thesis
    using simple_payload_roundtrip[OF indication.aper_type_codec_axioms control.aper_type_codec_axioms
        config.aper_type_codec_axioms] e by blast
qed

text \<open>
  C37: memory of the wrapper. Its functions leave the heap as they found it, except two: an
  \<^verbatim>\<open>encode_simple_control\<close> whose encoding fails keeps the block of the threshold, and a decoder whose
  codec fails after it has made a structure keeps that structure.
\<close>

theorem simple_wrapper_memory:
  "snd (snd (encode_simple_indication A mem x out live)) = live
   \<and> snd (snd (encode_ran_function_data R mem name out live)) = live
   \<and> snd (snd (encode_simple_control B mem n out live)) =
       live + (if mem live \<and> at_encode B \<lparr>asc_samplingThreshold = Some n\<rparr> 256 = None then 1 else 0)
   \<and> snd (snd (decode_simple_indication A bs y live)) =
       live + (if fst (at_decode A bs) then 0 else decoded_blocks A (snd (at_decode A bs)))
   \<and> snd (snd (decode_simple_control B bs m live)) =
       live + (if fst (at_decode B bs) then 0 else decoded_blocks B (snd (at_decode B bs)))
   \<and> snd (snd (decode_simple_dapp_report D bs z live)) =
       live + (if fst (at_decode D bs) then 0 else decoded_blocks D (snd (at_decode D bs)))
   \<and> snd (snd (decode_simple_config_control C bs u live)) =
       live + (if fst (at_decode C bs) then 0 else decoded_blocks C (snd (at_decode C bs)))"
proof (intro conjI)
  show "snd (snd (encode_simple_indication A mem x out live)) = live"
    by (auto simp: encode_simple_indication_def malloc_def Let_def split: option.split)
  show "snd (snd (encode_ran_function_data R mem name out live)) = live"
    by (auto simp: encode_ran_function_data_def malloc_def Let_def split: option.split)
  show "snd (snd (encode_simple_control B mem n out live)) =
       live + (if mem live \<and> at_encode B \<lparr>asc_samplingThreshold = Some n\<rparr> 256 = None then 1 else 0)"
    by (auto simp: encode_simple_control_def malloc_def Let_def split: option.split)
qed (auto simp: decode_simple_indication_def decode_simple_control_def decode_simple_dapp_report_def
    decode_simple_config_control_def decoded_blocks_def Let_def split: option.split prod.split)

text \<open>
  C38: with subscribers present, the worker of the example service model sends in its \<open>k\<close>-th round, for
  \<open>k\<close> up to 32768, one indication to each of them in their order, which carries the encoding of the
  sequence number \<open>k\<close> and the round's time, and nothing after that: the schema does not admit the next
  number, the failed encoding skips the increment, and the number stays.
\<close>

theorem simple_worker_falls_silent:
  assumes "aper_type_total A simple_indication_ok 1024" and "mem live" and "subs \<noteq> []"
    and "\<forall>(now, time) \<in> set rounds. unat time \<le> 2147483647"
    and "ob = \<lparr>smo_state = \<lparr>ssm_running = True, ssm_worker = True, ssm_seq = 0\<rparr>, smo_emitter = True, smo_provider = True\<rparr>"
  shows "\<exists>ob'. simple_worker_loop (\<lambda>w pdu. Some (rc w pdu, w @ [pdu])) (\<lambda>w. subs)
        (enc_ind_of A mem live) rounds ob []
        = Some (ob', concat (map (\<lambda>(k, now, time). map (\<lambda>d. make_indication_pdu now d SIMPLE_RAN_FUNCTION_ID
            (the (enc_ind_of A mem live time (of_nat k)))) subs) (enumerate 0 (take 32769 rounds))))
      \<and> ssm_seq (smo_state ob') = of_nat (min (length rounds) 32769)
      \<and> (\<forall>(k, now, time) \<in> set (enumerate 0 (take 32769 rounds)). enc_ind_of A mem live time (of_nat k) \<noteq> None)"
  using worker_loop_sent[where mem = mem and live = live, OF assms(1-4), of ob 0 rc "[]"] assms(5)
  by (simp add: round_indications_def)

theorem simple_worker_falls_silent_witness:
  "\<exists>ob' sent. simple_worker_loop (\<lambda>w pdu. Some (SUCCESS, w @ [pdu])) (\<lambda>w. [4, 9])
        (enc_ind_of indication_codec (\<lambda>_. True) 0) (replicate 40000 (0, 1700000000))
        \<lparr>smo_state = \<lparr>ssm_running = True, ssm_worker = True, ssm_seq = 0\<rparr>, smo_emitter = True, smo_provider = True\<rparr> [] = Some (ob', sent)
      \<and> take 2 sent = map (\<lambda>d. make_indication_pdu 0 d SIMPLE_RAN_FUNCTION_ID
          (the (enc_ind_of indication_codec (\<lambda>_. True) 0 1700000000 0))) [4, 9]
      \<and> ssm_seq (smo_state ob') = 32769"
proof -
  let ?rounds = "replicate 40000 (0, 1700000000) :: (u64 \<times> u32) list"
  have e: "enumerate 0 (take 32769 ?rounds) = (0, 0, 1700000000) # enumerate 1 (replicate 32768 (0, 1700000000))"
    using enumerate_simps(2)[of 0 "(0 :: u64, 1700000000 :: u32)" "replicate 32768 (0, 1700000000)"]
      replicate_Suc[of 32768 "(0 :: u64, 1700000000 :: u32)"] by (simp del: replicate_Suc)
  from simple_worker_falls_silent[OF indication.aper_type_total_axioms, of "\<lambda>_. True" 0 "[4, 9]"
      ?rounds _ "\<lambda>_ _. SUCCESS"] show ?thesis
    unfolding e by auto
qed

end
