(* ===== verification/Simple_Agent.thy ===== *)
theory Simple_Agent
  imports E3_Agent Simple_Wrapper
begin

text \<open>
  The example program, \<^verbatim>\<open>examples/simple_agent.cpp\<close>: its options, the configuration it makes of them and
  \<^verbatim>\<open>main\<close>, over the agent's API. What \<^verbatim>\<open>getopt_long\<close> returns is a parameter, the list of option
  characters with their arguments; \<^verbatim>\<open>?\<close> stands for an option it does not know. Console output is left out.
\<close>

section \<open>Options\<close>

record example_options =
  eo_link_layer :: E3LinkLayer
  eo_transport_layer :: E3TransportLayer
  eo_encoding :: EncodingFormat
  eo_ran_id :: string

definition parse_link_layer :: "string \<Rightarrow> E3LinkLayer" where
  "parse_link_layer str = (if str = ''zmq'' then ZMQ else if str = ''posix'' then POSIX else POSIX)"

definition parse_transport_layer :: "string \<Rightarrow> E3TransportLayer" where
  "parse_transport_layer str =
     (if str = ''sctp'' then SCTP else if str = ''tcp'' then TCP else if str = ''ipc'' then IPC else IPC)"

definition parse_encoding :: "string \<Rightarrow> EncodingFormat" where
  "parse_encoding str = (if str = ''asn1'' then ASN1 else if str = ''json'' then JSON else JSON)"

definition default_options :: example_options where
  "default_options = \<lparr>eo_link_layer = ZMQ, eo_transport_layer = IPC, eo_encoding = ASN1,
     eo_ran_id = ''example-ran-001''\<rparr>"



section \<open>The program\<close>




section \<open>Lemmas\<close>



lemma parse_print:
  "parse_link_layer (link_layer_to_string l) = l" "parse_transport_layer (transport_layer_to_string t) = t"
  by (cases l; simp add: parse_link_layer_def) (cases t; simp add: parse_transport_layer_def)

text \<open>
  A value that is not in the usage text gives the second link layer and the second encoding, not the
  defaults that the program announces and starts from.
\<close>

lemma parse_unknown:
  assumes "str \<notin> {''zmq'', ''posix'', ''asn1'', ''json''}"
  shows "parse_link_layer str = POSIX" "parse_encoding str = JSON"
    "parse_link_layer str \<noteq> eo_link_layer default_options" "parse_encoding str \<noteq> eo_encoding default_options"
  using assms by (simp_all add: parse_link_layer_def parse_encoding_def default_options_def)









text \<open>
  The options from the first one on that ends the parsing. If there is none, each setting is the last one given.
\<close>

definition ending_options :: "(char \<times> string) list \<Rightarrow> (char \<times> string) list" where
  "ending_options = dropWhile (\<lambda>x. fst x \<in> set ''lter'')"

lemma ending_options_simps [simp]:
  "ending_options [] = []"
  "ending_options (x # opts) = (if fst x \<in> set ''lter'' then ending_options opts else x # opts)"
  by (simp_all add: ending_options_def)


section \<open>Properties\<close>



end
