(* ===== verification/Spec2Isabelle.thy ===== *)
theory Spec2Isabelle
  imports E3_Types Subscription_Manager Mpmc_Queue Mpmc_Concurrent Response_Queue Sm_Registry
    E3_Encoder Json_Encoder Asn1_Encoder E3_Connector Posix_Connector Zmq_Connector E3_Factories
    E3_Interface Interface_Protocol Interface_Shutdown E3_Agent C_Api E3_Logger Simple_Wrapper
    Simple_Agent
begin

text \<open>
  libe3 is the RAN side of the E3 interface: an agent in a base station that serves dApps over a
  socket. A dApp sends a setup request and gets an identifier, subscribes to RAN functions, receives
  indications and sends control actions; service models, one per RAN function, produce the
  indications and carry out the control actions. This development models the library and proves what
  makes it correct.

  \<^bold>\<open>How the parts interact.\<close> An \<^verbatim>\<open>E3Agent\<close> (and the C API over it) owns an \<^verbatim>\<open>E3Interface\<close>, which owns a
  connector, an encoder, the subscription manager and the outbound queue, and uses the process-wide
  registry of service models. The setup thread receives setup requests and answers them on the spot.
  The subscriber thread receives and dispatches all other messages; their answers, and what service
  models emit, go into the outbound queue. The publisher thread pops the queue, encodes and sends. The
  subscription manager reports the first and the last subscriber of a RAN function through a
  callback, on which the interface starts and stops the service model.

  \<^bold>\<open>Theories and the code they model\<close> (paths under \<^verbatim>\<open>src/\<close>).
  \<^item> \<open>E3_Prelude\<close>: shared types and lemmas; \<^verbatim>\<open>std::unordered_map\<close> as an association list, with its laws
    as the locale \<open>hash_map\<close>.
  \<^item> \<open>E3_Types\<close>: \<^verbatim>\<open>include/libe3/types.hpp\<close>, \<^verbatim>\<open>error_codes.h\<close>. Enumerations as datatypes, messages as
    records, error codes as the datatype \<open>ErrorCode\<close> with a constructor for unlisted values.
  \<^item> \<open>Subscription_Manager\<close>: \<^verbatim>\<open>src/core/subscription_manager.cpp\<close>. All maps of the class; each operation
    returns its result, the new state and the calls of the lifecycle callback.
  \<^item> \<open>Mpmc_Queue\<close>, \<open>Mpmc_Concurrent\<close>: \<^verbatim>\<open>include/libe3/mpmc_queue.hpp\<close>, called by one thread, and under
    every interleaving of the atomic accesses of any number of threads. Positions are 64-bit words; the
    size of a slot, which the compiler fixes, is a parameter of the constructor.
  \<^item> \<open>Response_Queue\<close>: \<^verbatim>\<open>src/core/response_queue.cpp\<close>. Waiting calls take what happens in each pause and
    each reading of the clock as parameters.
  \<^item> \<open>Sm_Registry\<close>: \<^verbatim>\<open>include/libe3/sm_interface.hpp\<close>, \<^verbatim>\<open>src/core/sm_registry.cpp\<close> and the service model of
    \<^verbatim>\<open>examples/simple_agent.cpp\<close>. A class of service models is a record of its virtual functions.
  \<^item> \<open>E3_Encoder\<close>, \<open>Json_Encoder\<close>, \<open>Asn1_Encoder\<close>: \<^verbatim>\<open>src/encoder/\<close>. The JSON library and the generated APER
    codec are records of functions with their documented laws as locales.
  \<^item> \<open>E3_Connector\<close>, \<open>Posix_Connector\<close>, \<open>Zmq_Connector\<close>: \<^verbatim>\<open>src/connector/\<close>. System calls and libzmq are
    records of functions on a state \<open>'w\<close> of the system; what they promise is stated in locales, and a
    system in memory satisfies all of them.
  \<^item> \<open>E3_Factories\<close>: the two factories, and the dispatch through a pointer to the connector base class.
  \<^item> \<open>E3_Interface\<close>: \<^verbatim>\<open>src/core/e3_interface.cpp\<close>. The class's members in one record together with the
    registry and the system; one definition per function, one per round of a thread's loop, and the
    loops. \<open>Interface_Protocol\<close>: the rounds as the steps of a relation, and what they achieve.
    \<open>Interface_Shutdown\<close>: what \<^verbatim>\<open>stop\<close> does, and when the loops of the threads end.
  \<^item> \<open>E3_Agent\<close>: \<^verbatim>\<open>src/core/e3_agent.cpp\<close>. \<open>C_Api\<close>: \<^verbatim>\<open>src/c_api.cpp\<close>, with the ownership of handles.
  \<^item> \<open>E3_Logger\<close>: \<^verbatim>\<open>include/libe3/logger.hpp\<close>, with the open files and everything written.
  \<^item> \<open>Simple_Wrapper\<close>: \<^verbatim>\<open>examples/sm_simple/e3sm_simple_wrapper.cpp\<close>, the payloads of the example service
    model, with its heap blocks, and the rounds of its worker. \<open>Simple_Agent\<close>: the program
    \<^verbatim>\<open>examples/simple_agent.cpp\<close>, from its options to its exit status, over the agent.

  \<^bold>\<open>What the lemmas show.\<close> The subscription manager implements a set of registered dApps, a
  relation to RAN functions and the identifiers of its pairs; without a clear, its callback calls start
  and stop each RAN function alternately, at the first and the last subscriber. The ring buffer is a
  bounded FIFO as long as its counters stay where the code's signed subtraction is defined, and under
  concurrency each pushed
  item is popped at most once, in the order of the positions; a blocking pop returns as soon as there
  is an item or a shutdown. Both encoders are inverted by their decoders up to the periodicity and the
  ASN.1 time stamp. A frame sent in chunks is what the reader of frames reads, over any partial
  transfers; after dispose no descriptor of the connector is open. Over all of them: every message is
  served, requests are answered with their identifier unless the queue is full or shut down, service
  models that were registered before their first subscriber run exactly while they have subscribers, the
  queued PDUs are those the dApp decodes, and no call of the agent's API meets a
  null pointer. The example program is such a client: it starts with the service model registered, and
  its worker serves the subscribers up to the last sequence number its schema admits. Over ZeroMQ the
  three threads end once the stop is requested; over POSIX sockets a peer can prevent it. Several
  theorems state what the code does where it differs from its documentation or its purpose;
  they are listed as findings with the properties.

  \<^bold>\<open>Interfaces.\<close> The locales \<open>hash_map\<close>, \<open>bounded_fifo\<close>, \<open>service_model_contract\<close> and \<open>reliable_sm\<close>,
  \<open>encoder_contract\<close>, \<open>connector_contract\<close>, \<open>json_library\<close>, \<open>aper_codec\<close> with its extension \<open>aper_ranges\<close>,
  \<open>aper_type_codec\<close> and its extension \<open>aper_type_total\<close>, \<open>posix_sender\<close>, \<open>posix_receiver\<close>, \<open>posix_descriptors\<close> and
  \<open>posix_poll\<close>, \<open>zmq_messages\<close>, \<open>zmq_sockets\<close> and \<open>zmq_timeouts\<close>, and, for calls that do not wait for ever,
  \<open>timed_receiver\<close> and \<open>responsive_connector\<close>, which the last two groups give, with \<open>receiving_platform\<close> and
  \<open>responsive_platform\<close> over them, state what one part relies on in
  another; each is interpreted on the definitions that provide it, or, for code outside the
  repository, on a concrete instance. \<open>interface_invariant\<close> states what a predicate on the interface has to
  give for every interleaving of its threads to keep it; \<open>iface_ok\<close> and \<open>queue_down\<close> interpret it.

  \<^bold>\<open>Termination and bounds.\<close> A function whose loop may not end returns an option, with None for a call
  that never returns (or that follows a null pointer); that the calls return is proved as such. A system
  call that may block is such a function too, and no law says that it returns unless its documentation
  does. No fuel is used. Integers that are stored or compared at a width are words of that width; counters
  bounded by the size of a vector are natural numbers.

  \<^bold>\<open>Threads.\<close> The ring buffer is modelled at the level of atomic accesses under sequential consistency
  (the code's acquire and release orders are not weakened further in the model). The mutexes of the
  logger and the registry make their operations atomic. The subscription manager holds its mutex while
  it changes its maps and releases it before it looks at the subscribers again and calls its callback; in
  the model both are one step. That is what happens in the library, where the subscriber thread alone
  makes the operations that call back, and the setup thread only registers dApps, which the second
  look does not see (\<open>register_between_lock_and_check\<close>); a client of the class with several threads that
  subscribe is not covered. A thread of the interface is a sequence of rounds; the
  rounds of the three threads and the calls of the agent interleave in any order, but two rounds do
  not overlap. What the other threads do while \<^verbatim>\<open>stop\<close> joins them is a parameter of \<^verbatim>\<open>stop\<close>.

  \<^bold>\<open>Not modelled.\<close> The umbrella header, what the example program prints and how it installs its signal
  handler, the lines the library logs, generated ASN.1 code, tests and build files. Exceptions of the
  standard library for failed allocation are taken not to occur.
\<close>

section \<open>The outbound path\<close>

text \<open>
  A dApp at the other end of the outbound stream: it reads \<open>n\<close> frames as the connector's
  \<^verbatim>\<open>recv_with_size\<close> does, which the library itself does not call, and decodes each.
\<close>

fun peer_pdus :: "'w posix_ops \<Rightarrow> int \<Rightarrow> encoder_ops \<Rightarrow> nat \<Rightarrow> 'w \<Rightarrow> Pdu list option" where
  "peer_pdus S fd E 0 w = Some []"
| "peer_pdus S fd E (Suc n) w =
     do { (ret, buffer, w) \<leftarrow> recv_with_size S fd [] w;
          if ret \<le> 0 then None
          else case enc_decode E (take (nat ret) buffer) of
                 Inl _ \<Rightarrow> None
               | Inr pdu \<Rightarrow> map_option (\<lambda>ps. pdu # ps) (peer_pdus S fd E n w) }"

lemma peer_reads_frames:
  assumes rcv: "posix_receiver S fd pending" and con: "encoder_contract E wire"
    and "\<forall>x \<in> set xs. pdu_tagged x \<and> enc_encode E x = Inr (msg x)
      \<and> 0 < length (em_buffer (msg x)) \<and> length (em_buffer (msg x)) \<le> 65536"
    and "pending w = concat (map (\<lambda>x. frame (em_buffer (msg x))) xs) @ rest"
  shows "peer_pdus S fd E (length xs) w = Some (map wire xs)"
  using assms(3,4)
proof (induction xs arbitrary: w)
  case (Cons x xs)
  let ?d = "em_buffer (msg x)" and ?rest = "concat (map (\<lambda>x. frame (em_buffer (msg x))) xs) @ rest"
  have p: "pending w = htonl_bytes (of_nat (length ?d)) @ ?d @ ?rest" using Cons.prems(2) by (simp add: frame_def)
  have l: "0 < length ?d" "length ?d \<le> 65536" using Cons.prems(1) by simp_all
  have len: "length ?d = unat (ntohl_bytes (htonl_bytes (of_nat (length ?d))))"
    using l(2) by (simp add: unat_of_nat)
  obtain w' where w': "recv_with_size S fd [] w = Some (int (length ?d), ?d, w')" "pending w' = ?rest"
    using posix_receiver.recv_frame[OF rcv length_htonl p len, of "[]"] l
    by (auto simp: MAX_PROTOCOL_DATA_SIZE_def)
  have "enc_decode E ?d = Inr (wire x)"
    using encoder_contract.roundtrip[OF con, of x] Cons.prems(1) by simp
  moreover have "peer_pdus S fd E (length xs) w' = Some (map wire xs)"
    using Cons.IH[of w'] Cons.prems(1) w'(2) by simp
  ultimately show ?case using w'(1) l(1) by simp
qed simp

text \<open>
  C3: what is queued is what the dApp gets. The publisher thread with a POSIX connection that stays up,
  stopped after as many rounds as PDUs are queued, empties the queue; a dApp that reads the bytes it
  wrote as frames, over partial reads of any size, decodes exactly the queued PDUs in the order in
  which they were queued, as the wire format carries them.
\<close>

theorem outbound_path_delivers:
  assumes "posix_sender (pl_posix P) fd sent"
    and "\<forall>bs w. \<exists>w'. send_in_chunks (pl_posix P) fd bs w = Some (0, w')"
    and "if_connector a = Some (Posix_object c)" and "pc_outbound_connection_socket c = fd" and "0 \<le> fd"
    and "if_encoder a = Some enc" and "encoder_contract (enc t) wire"
    and "if_response_queue a = Some q" and "rq_rep q xs" and "if_should_stop a \<longleftrightarrow> xs = []"
    and "\<forall>x \<in> set xs. pdu_tagged x \<and> (\<forall>t. enc_encode (enc t) x = Inr (msg x))
      \<and> 0 < length (em_buffer (msg x)) \<and> length (em_buffer (msg x)) \<le> 65536"
    and "posix_receiver S fd' pending"
  shows "\<exists>a' q'. publisher_rounds P (\<lambda>k b. b\<lparr> if_should_stop := (k + 1 = length xs) \<rparr>) pause clock 0 a = Some a'
    \<and> if_response_queue a' = Some q' \<and> rq_rep q' []
    \<and> (\<forall>v. pending v = drop (length (sent (g_world a))) (sent (g_world a')) \<longrightarrow>
          peer_pdus S fd' (enc t) (length xs) v = Some (map wire xs))"
proof -
  have e: "\<forall>x \<in> set xs. \<forall>t. enc_encode (enc t) x = Inr (msg x)"
    "\<forall>x \<in> set xs. pdu_tagged x \<and> enc_encode (enc t) x = Inr (msg x)
      \<and> 0 < length (em_buffer (msg x)) \<and> length (em_buffer (msg x)) \<le> 65536" using assms(11) by blast+
  from publisher_rounds_stream[OF assms(1) _ assms(3-6) e(1) assms(8-10), of 0 pause clock] assms(2)
  obtain a' q' where a': "publisher_rounds P (\<lambda>k b. b\<lparr> if_should_stop := (k + 1 = length xs) \<rparr>) pause clock 0 a = Some a'"
    "if_response_queue a' = Some q'" "rq_rep q' []"
    "sent (g_world a') = sent (g_world a) @ concat (map (\<lambda>x. frame (em_buffer (msg x))) xs)" by auto
  have "peer_pdus S fd' (enc t) (length xs) v = Some (map wire xs)"
    if "pending v = drop (length (sent (g_world a))) (sent (g_world a'))" for v
    using peer_reads_frames[OF assms(12,7) e(2), of v "[]"] that a'(4) by simp
  then show ?thesis using a'(1-3) by blast
qed

theorem outbound_path_delivers_witness:
  "\<exists>a a'. publisher_rounds mem_platform (\<lambda>k b. b\<lparr> if_should_stop := (k + 1 = 1) \<rparr>)
          (\<lambda>_ _ q. q) (\<lambda>_ _. 0) 0 a = Some a'
     \<and> peer_pdus mem_os 3 (Asn1E3Encoder ack_aper 9) 1 (mem_init []\<lparr> mw_in := (\<lambda>_. mw_out (g_world a') 5) \<rparr>)
       = Some [pdu_of 9 17 MESSAGE_ACK (C_MessageAck \<lparr>ack_request_id = 3, ack_response_code = POSITIVE\<rparr>)]"
proof -
  let ?ack = "C_MessageAck \<lparr>ack_request_id = 3, ack_response_code = POSITIVE\<rparr>"
  let ?p = "pdu_of 5 17 MESSAGE_ACK ?ack"
  let ?c = "(new_PosixE3Connector IPC [] [] [] 1 2 3)\<lparr> pc_outbound_connection_socket := 5 \<rparr>"
  obtain m where m: "asn1_encode ack_aper ?p = Inr m" "em_buffer m = [1]"
    by (simp add: asn1_encode_def pdu_to_asn1_def msg_to_asn1_def ack_aper_def ack_pdu_def long_of_def
        asn1_code_def ASN1_BUFFER_SIZE_def Let_def)
  obtain q0 where "new_ResponseQueue 256 2 0 = Some q0" "rq_rep q0 []" "\<not> rq_shutdown q0" "2 \<le> rq_cap q0"
    using rq_rep_new[of 2 256 0] by auto
  then obtain q where q: "rq_rep q [?p]" using rq_push_cases[of q0 "[]" ?p] by auto
  let ?a = "mem_iface\<lparr> if_connector := Some (Posix_object ?c), if_encoder := Some (Asn1E3Encoder ack_aper),
    if_response_queue := Some q \<rparr>"
  have s: "posix_sender (pl_posix mem_platform) 5 (\<lambda>w. mw_out w 5)" using mem_send.posix_sender_axioms by simp
  have r: "posix_receiver mem_os 3 (\<lambda>w. mw_in w 3)" by (rule mem_recv.posix_receiver_axioms)
  have con: "encoder_contract (Asn1E3Encoder ack_aper 9) (asn1_wire 9)" by (rule ack.enc.encoder_contract_axioms)
  have out: "mw_out (g_world ?a) 5 = []" by (simp add: mem_iface_def new_E3Interface_def mem_init_def)
  have wire: "map (asn1_wire 9) [?p] = [pdu_of 9 17 MESSAGE_ACK ?ack]"
    by (simp add: asn1_wire_def pdu_of_def new_Pdu_def)
  have "\<exists>a' q'. publisher_rounds mem_platform (\<lambda>k b. b\<lparr> if_should_stop := (k + 1 = length [?p]) \<rparr>)
      (\<lambda>_ _ q. q) (\<lambda>_ _. 0) 0 ?a = Some a'
    \<and> if_response_queue a' = Some q' \<and> rq_rep q' []
    \<and> (\<forall>v. mw_in v 3 = drop (length (mw_out (g_world ?a) 5)) (mw_out (g_world a') 5) \<longrightarrow>
          peer_pdus mem_os 3 (Asn1E3Encoder ack_aper 9) (length [?p]) v = Some (map (asn1_wire 9) [?p]))"
    by (rule outbound_path_delivers[where msg = "\<lambda>_. m" and c = ?c and enc = "Asn1E3Encoder ack_aper" and t = 9,
          OF s _ _ _ _ _ con _ q _ _ r])
      (use m mem_send_up in \<open>simp_all add: Asn1E3Encoder_def mem_iface_def new_E3Interface_def\<close>)
  then obtain a' where a': "publisher_rounds mem_platform (\<lambda>k b. b\<lparr> if_should_stop := (k + 1 = 1) \<rparr>)
      (\<lambda>_ _ q. q) (\<lambda>_ _. 0) 0 ?a = Some a'"
    "\<And>v. mw_in v 3 = mw_out (g_world a') 5 \<Longrightarrow>
      peer_pdus mem_os 3 (Asn1E3Encoder ack_aper 9) 1 v = Some [pdu_of 9 17 MESSAGE_ACK ?ack]"
    unfolding out wire by auto
  from a'(2)[of "mem_init []\<lparr> mw_in := (\<lambda>_. mw_out (g_world a') 5) \<rparr>"] a'(1) show ?thesis by auto
qed

end
